(* ===== verification/Prelude.thy ===== *)
theory Prelude
  imports Main "HOL-Library.Word"
begin

text \<open>
  Shared ground of the development: the result type of code that may raise (a sum, with the
  exception on the left), its sequencing operators with the congruence rules that recursive
  definitions need, Python's slices of a sequence, and the named collections of rewrite rules
  that the component theories fill.
\<close>

unbundle bit_operations_syntax

named_theorems wire_simps \<open>unfolding rules of the encoders\<close>
named_theorems decode_simps \<open>unfolding rules of the decoders\<close>
named_theorems class_simps \<open>evaluation rules of class tags and decoder tables\<close>

section \<open>Bytes\<close>

type_synonym byte = "8 word"
type_synonym bytes = "byte list"

text \<open>A Python bytes literal \<open>b"..."\<close>.\<close>

definition lit :: "string \<Rightarrow> bytes" where
  "lit s = map of_char s"

lemma lit_Nil [simp]: "lit [] = []"
  by (simp add: lit_def)

lemma lit_Cons [simp]: "lit (c # cs) = of_char c # lit cs"
  by (simp add: lit_def)

section \<open>Computations that may raise\<close>

fun bindE :: "'e + 'a \<Rightarrow> ('a \<Rightarrow> 'e + 'b) \<Rightarrow> 'e + 'b" where
  "bindE (Inl e) f = Inl e"
| "bindE (Inr a) f = f a"

lemma bindE_cong [fundef_cong]:
  "x = y \<Longrightarrow> (\<And>a. y = Inr a \<Longrightarrow> f a = g a) \<Longrightarrow> bindE x f = bindE y g"
  by (cases y) auto

lemma bindE_eq_Inr [simp]:
  "bindE x f = Inr b \<longleftrightarrow> (\<exists>a. x = Inr a \<and> f a = Inr b)"
  by (cases x) auto

lemma bindE_eq_Inl:
  "bindE x f = Inl e \<longleftrightarrow> x = Inl e \<or> (\<exists>a. x = Inr a \<and> f a = Inl e)"
  by (cases x) auto

lemma bindE_Inr_right [simp]: "bindE x Inr = x"
  by (cases x) auto

lemma bindE_assoc: "bindE (bindE x f) g = bindE x (\<lambda>a. bindE (f a) g)"
  by (cases x) auto

definition assertE :: "'e \<Rightarrow> bool \<Rightarrow> 'e + unit" where
  "assertE e b = (if b then Inr () else Inl e)"

lemma assertE_True [simp]: "assertE e True = Inr ()"
  by (simp add: assertE_def)

lemma assertE_False [simp]: "assertE e False = Inl e"
  by (simp add: assertE_def)

lemma assertE_eq_Inr [simp]: "assertE e b = Inr u \<longleftrightarrow> b"
  by (simp add: assertE_def)

lemma assertE_eq_Inl [simp]: "assertE e b = Inl e' \<longleftrightarrow> \<not> b \<and> e' = e"
  by (auto simp: assertE_def)

text \<open>A list comprehension or generator whose element expression may raise.\<close>

fun mapE :: "('a \<Rightarrow> 'e + 'b) \<Rightarrow> 'a list \<Rightarrow> 'e + 'b list" where
  "mapE f [] = Inr []"
| "mapE f (x # xs) = bindE (f x) (\<lambda>y. bindE (mapE f xs) (\<lambda>ys. Inr (y # ys)))"

lemma mapE_cong [fundef_cong]:
  "xs = ys \<Longrightarrow> (\<And>x. x \<in> set ys \<Longrightarrow> f x = g x) \<Longrightarrow> mapE f xs = mapE g ys"
  by (induction ys arbitrary: xs) auto

lemma mapE_eq_Inr:
  "mapE f xs = Inr ys \<longleftrightarrow> list_all2 (\<lambda>x y. f x = Inr y) xs ys"
  by (induction xs arbitrary: ys) (auto simp: list_all2_Cons1)

lemma mapE_pure: "(\<And>x. x \<in> set xs \<Longrightarrow> f x = Inr (g x)) \<Longrightarrow> mapE f xs = Inr (map g xs)"
  by (induction xs) auto

lemma mapE_Inr [simp]: "mapE (\<lambda>x. Inr (g x)) xs = Inr (map g xs)"
  by (rule mapE_pure) simp

lemma mapE_length: "mapE f xs = Inr ys \<Longrightarrow> length ys = length xs"
  by (simp add: mapE_eq_Inr list_all2_lengthD)

lemma mapE_map: "mapE f (map g xs) = mapE (\<lambda>x. f (g x)) xs"
  by (induction xs) auto

definition sequenceE :: "('e + 'a) list \<Rightarrow> 'e + 'a list" where
  "sequenceE xs = mapE (\<lambda>x. x) xs"

lemma sequenceE_Nil [simp]: "sequenceE [] = Inr []"
  by (simp add: sequenceE_def)

lemma sequenceE_Cons [simp]:
  "sequenceE (x # xs) = bindE x (\<lambda>y. bindE (sequenceE xs) (\<lambda>ys. Inr (y # ys)))"
  by (simp add: sequenceE_def)

lemma sequenceE_map [simp]: "sequenceE (map f xs) = mapE f xs"
  by (simp add: sequenceE_def mapE_map)

text \<open>A loop whose body may raise, of which nothing but the exception survives.\<close>

fun foldE :: "('a \<Rightarrow> 's \<Rightarrow> 'e + 's) \<Rightarrow> 'a list \<Rightarrow> 's \<Rightarrow> 'e + 's" where
  "foldE f [] s = Inr s"
| "foldE f (x # xs) s = bindE (f x s) (foldE f xs)"

lemma foldE_append: "foldE f (xs @ ys) s = bindE (foldE f xs s) (foldE f ys)"
proof (induction xs arbitrary: s)
  case (Cons x xs)
  then show ?case by (cases "f x s") simp_all
qed simp

section \<open>Loops over effects\<close>

text \<open>
  \<open>for m in ms: handle(m)\<close>, where a call changes the state and may let an exception escape, which
  ends the loop and leaves the state as it is then.
\<close>

fun for_each :: "('m \<Rightarrow> 's \<Rightarrow> 'e option \<times> 's) \<Rightarrow> 'm list \<Rightarrow> 's \<Rightarrow> 'e option \<times> 's" where
  "for_each handle [] s = (None, s)"
| "for_each handle (m # ms) s =
     (case handle m s of (Some e, s') \<Rightarrow> (Some e, s') | (None, s') \<Rightarrow> for_each handle ms s')"

lemma for_each_append:
  "for_each h (ms @ ns) s =
     (case for_each h ms s of (Some e, s') \<Rightarrow> (Some e, s') | (None, s') \<Rightarrow> for_each h ns s')"
  by (induction ms arbitrary: s) (auto split: prod.splits option.splits)

text \<open>A computation that changes the state when it succeeds and leaves it when it raises.\<close>

definition or_raise :: "'s \<Rightarrow> 'e + 's \<Rightarrow> 'e option \<times> 's" where
  "or_raise s r = (case r of Inl e \<Rightarrow> (Some e, s) | Inr s' \<Rightarrow> (None, s'))"

lemma or_raise_simps [simp]:
  "or_raise s (Inl e) = (Some e, s)" "or_raise s (Inr s') = (None, s')"
  by (simp_all add: or_raise_def)

section \<open>Slices\<close>

text \<open>\<open>m[a:b]\<close> for bounds that are not negative: out of range it is cut short, not refused.\<close>

definition slice :: "'a list \<Rightarrow> int \<Rightarrow> int \<Rightarrow> 'a list" where
  "slice m a b = take (nat b - nat a) (drop (nat a) m)"

lemma length_slice [simp]: "length (slice m a b) = min (length m - nat a) (nat b - nat a)"
  by (simp add: slice_def min.commute)

lemma slice_append:
  "0 \<le> a \<Longrightarrow> b \<le> int (length m) \<Longrightarrow> slice (m @ rest) a b = slice m a b"
  by (cases "a \<le> b") (auto simp: slice_def)

lemma slice_shift:
  "int (length pre) \<le> a \<Longrightarrow>
   slice (pre @ m) a b = slice m (a - int (length pre)) (b - int (length pre))"
proof -
  assume "int (length pre) \<le> a"
  then have a: "nat a - length pre = nat (a - int (length pre))"
    and "nat b - nat a = nat (b - int (length pre)) - nat (a - int (length pre))"
    by linarith+
  moreover from \<open>int (length pre) \<le> a\<close> have "length pre \<le> nat a" by linarith
  ultimately show ?thesis by (simp add: slice_def)
qed

lemma slice_0: "slice m 0 b = take (nat b) m"
  by (simp add: slice_def)

end
