(* ===== verification/PyText.thy ===== *)
theory PyText
  imports Prelude
begin

text \<open>
  Python's two kinds of text, and \<open>_encoder.py\<close>, which turns one into the other. A \<open>str\<close> is a
  Isabelle string, one code point below 256 per character; a \<open>bytes\<close> is a list of 8-bit words.
  The exceptions the modelled program raises are one datatype, so that any handler can pass
  on what the code it calls raised. \<open>OutsideModel\<close> is no exception of the program: it marks
  an input whose text holds a code point beyond 255, about which the model says nothing.
\<close>

datatype pytext = Str string | Byt bytes

datatype exn =
    AssertionError
  | IndexError
  | KeyError
  | ValueError
  | TypeError
  | AttributeError
  | NotImplementedError
  | RuntimeError
  | UnicodeDecodeError
  | BERExceptionInsufficientData int
  | InvalidRelativeDistinguishedName string
  | LDAPException int "pytext option"
  | LDIFParseError string
  | MatchNotImplemented
  | LDAPClientConnectionLostException
  | LDAPStartTLSBusyError
  | LDAPStartTLSInvalidResponseName pytext
  | ConnectionDone
  | DECODING_ERROR
  | LookupError
  | EOFError
  | ObjectInBadStateError
  | ObjectDeletedError
  | ObjectDirtyError
  | CannotRemoveRDNError pytext "pytext option"
  | DNNotPresentError string
  | NoContainingNamingContext string
  | PasswordSetAborted
  | PasswordSetAggregateError "(string \<times> exn) list"
  | OutsideModel

section \<open>UTF-8\<close>

definition utf8_char :: "char \<Rightarrow> bytes" where
  "utf8_char c =
     (let w = of_char c :: byte in
      if w < 0x80 then [w] else [0xC0 OR drop_bit 6 w, 0x80 OR (w AND 0x3F)])"

definition utf8_encode :: "string \<Rightarrow> bytes" where
  "utf8_encode s = concat (map utf8_char s)"

fun utf8_decode :: "bytes \<Rightarrow> exn + string" where
  "utf8_decode [] = Inr []"
| "utf8_decode (w # ws) =
     (if w < 0x80 then bindE (utf8_decode ws) (\<lambda>s. Inr (char_of (unat w) # s))
      else if w = 0xC2 \<or> w = 0xC3 then
        (case ws of
           [] \<Rightarrow> Inl UnicodeDecodeError
         | v # vs \<Rightarrow>
             if v AND 0xC0 = 0x80
             then bindE (utf8_decode vs)
                    (\<lambda>s. Inr (char_of (unat (push_bit 6 (w AND 0x1F) OR (v AND 0x3F))) # s))
             else Inl UnicodeDecodeError)
      else if 0xC4 \<le> w \<and> w \<le> 0xF4 then Inl OutsideModel
      else Inl UnicodeDecodeError)"

section \<open>The conversions of \<open>_encoder.py\<close>\<close>

fun to_bytes :: "pytext \<Rightarrow> bytes" where
  "to_bytes (Str s) = utf8_encode s"
| "to_bytes (Byt b) = b"

fun to_unicode :: "pytext \<Rightarrow> exn + string" where
  "to_unicode (Byt b) = utf8_decode b"
| "to_unicode (Str s) = Inr s"

text \<open>Both spellings of a value: itself first, then the other one.\<close>

fun get_strings :: "pytext \<Rightarrow> exn + pytext list" where
  "get_strings (Str s) = Inr [Str s, Byt (utf8_encode s)]"
| "get_strings (Byt b) = bindE (utf8_decode b) (\<lambda>s. Inr [Byt b, Str s])"

text \<open>A text as it comes back from the wire or from a file.\<close>

abbreviation canon :: "pytext \<Rightarrow> pytext" where
  "canon v \<equiv> Byt (to_bytes v)"

section \<open>Case\<close>

text \<open>
  \<open>str.lower\<close> maps, among the code points below 256, the ASCII capitals and the Latin-1
  capitals (192 to 222 but for the multiplication sign 215) 32 places up, and nothing else;
  \<open>bytes.lower\<close> and \<open>bytes.upper\<close> touch the ASCII letters only.
\<close>

definition lower_char :: "char \<Rightarrow> char" where
  "lower_char c =
     (let n = of_char c :: nat in
      if 65 \<le> n \<and> n \<le> 90 \<or> 192 \<le> n \<and> n \<le> 222 \<and> n \<noteq> 215 then char_of (n + 32) else c)"

definition lower :: "string \<Rightarrow> string" where
  "lower s = map lower_char s"

definition blower_byte :: "byte \<Rightarrow> byte" where
  "blower_byte w = (if 65 \<le> w \<and> w \<le> 90 then w + 32 else w)"

definition blower :: "bytes \<Rightarrow> bytes" where
  "blower b = map blower_byte b"

definition bupper_byte :: "byte \<Rightarrow> byte" where
  "bupper_byte w = (if 97 \<le> w \<and> w \<le> 122 then w - 32 else w)"

definition bupper :: "bytes \<Rightarrow> bytes" where
  "bupper b = map bupper_byte b"

fun text_lower :: "pytext \<Rightarrow> pytext" where
  "text_lower (Str s) = Str (lower s)"
| "text_lower (Byt b) = Byt (blower b)"

section \<open>Lemmas\<close>

lemma utf8_encode_Nil [simp]: "utf8_encode [] = []"
  by (simp add: utf8_encode_def)

lemma utf8_encode_Cons [simp]: "utf8_encode (c # s) = utf8_char c @ utf8_encode s"
  by (simp add: utf8_encode_def)

lemma utf8_encode_append [simp]: "utf8_encode (s @ t) = utf8_encode s @ utf8_encode t"
  by (simp add: utf8_encode_def)

section \<open>Lemmas: UTF-8 reads back\<close>

lemma utf8_join:
  "push_bit 6 ((0xC0 OR drop_bit 6 w) AND 0x1F) OR ((0x80 OR (w AND 0x3F)) AND 0x3F) = (w :: byte)"
proof (rule bit_word_eqI)
  fix n assume "n < LENGTH(8)"
  then have "n \<in> {0, 1, 2, 3, 4, 5, 6, 7}" by auto
  then show "bit (push_bit 6 ((0xC0 OR drop_bit 6 w) AND 0x1F) OR ((0x80 OR (w AND 0x3F)) AND 0x3F)) n = bit w n"
    by (auto simp: bit_simps)
qed

lemma utf8_trail: "(0x80 OR (w AND 0x3F)) AND 0xC0 = (0x80 :: byte)"
proof (rule bit_word_eqI)
  fix n assume "n < LENGTH(8)"
  then have "n \<in> {0, 1, 2, 3, 4, 5, 6, 7}" by auto
  then show "bit ((0x80 OR (w AND 0x3F)) AND 0xC0) n = bit (0x80 :: byte) n"
    by (auto simp: bit_simps)
qed

lemma utf8_lead:
  assumes "\<not> w < (0x80 :: byte)"
  shows "0xC0 OR drop_bit 6 w = 0xC2 \<or> 0xC0 OR drop_bit 6 w = 0xC3"
proof -
  have "128 \<le> unat w" using assms by (simp add: word_less_nat_alt)
  moreover have "unat w < 256" using uint_lt2p[of w] by (simp add: nat_less_iff flip: nat_uint_eq)
  ultimately have "unat w div 64 = 2 \<or> unat w div 64 = 3"
    by (cases "unat w < 192") (auto intro!: div_nat_eqI)
  moreover have "unat (drop_bit 6 w) = unat w div 64" by (simp add: unat_drop_bit_eq drop_bit_nat_def)
  ultimately have "unat (drop_bit 6 w) = unat (2 :: byte) \<or> unat (drop_bit 6 w) = unat (3 :: byte)"
    by simp
  then have "drop_bit 6 w = 2 \<or> drop_bit 6 w = 3" by (metis unsigned_word_eqI)
  then show ?thesis by auto
qed

lemma char_of_of_char_word: "char_of (unat (of_char c :: byte)) = c"
proof -
  have "unat (of_char c :: byte) = (of_char c :: nat)"
    using nat_of_char_less_256[of c] by (simp add: of_char_of of_nat_of_char[symmetric, where 'a = byte] unsigned_of_nat take_bit_nat_eq_self)
  then show ?thesis by simp
qed

lemma utf8_decode_char: "utf8_decode (utf8_char c @ t) = bindE (utf8_decode t) (\<lambda>s. Inr (c # s))"
proof (cases "(of_char c :: byte) < 0x80")
  case True
  then show ?thesis by (simp add: utf8_char_def Let_def char_of_of_char_word)
next
  case False
  then show ?thesis
    using utf8_lead[OF False] utf8_trail[of "of_char c"] utf8_join[of "of_char c"]
    by (auto simp: utf8_char_def Let_def char_of_of_char_word simp del: bit.conj_disj_distrib2)
qed

lemma utf8_decode_encode [simp]: "utf8_decode (utf8_encode s) = Inr s"
  by (induction s) (simp_all add: utf8_decode_char)
end
