(* ===== verification/Ber.thy ===== *)
theory Ber
  imports PyText
begin

text \<open>
  The primitive part of \<open>protocols/pureber.py\<close>: integers and lengths on the wire, and the
  header of an object. Python's integers are unbounded, so they are \<open>int\<close> here, shifted and
  combined bit by bit as the code does; what is written to the wire is a list of 8-bit words.
\<close>

definition CLASS_MASK :: byte where "CLASS_MASK = 0xC0"
definition CLASS_APPLICATION :: byte where "CLASS_APPLICATION = 0x40"
definition CLASS_CONTEXT :: byte where "CLASS_CONTEXT = 0x80"
definition STRUCTURED :: byte where "STRUCTURED = 0x20"
definition TAG_MASK :: byte where "TAG_MASK = 0x1F"

definition need :: "bytes \<Rightarrow> int \<Rightarrow> exn + unit" where
  "need buf n =
     (let d = n - int (length buf) in
      if d > 0 then Inl (BERExceptionInsufficientData d) else Inr ())"

section \<open>Integers\<close>

function int2ber_loop :: "bool \<Rightarrow> int \<Rightarrow> bytes \<Rightarrow> bytes" where
  "int2ber_loop sgd i encoded =
     (if sgd \<and> (i > 127 \<or> i < -128) \<or> \<not> sgd \<and> i > 255
      then int2ber_loop sgd (drop_bit 8 i) (word_of_int (i mod 256) # encoded)
      else word_of_int (i mod 256) # encoded)"
  by pat_completeness auto
termination
proof (relation "measure (\<lambda>(sgd, i, encoded). nat \<bar>i\<bar>)", goal_cases)
  case (2 sgd i encoded)
  then show ?case by (auto simp: drop_bit_int_def) 
qed simp

declare int2ber_loop.simps [simp del]

definition int2ber :: "int \<Rightarrow> bool \<Rightarrow> bytes" where
  "int2ber i sgd = int2ber_loop sgd i []"

definition ber2int_step :: "int \<Rightarrow> byte \<Rightarrow> int" where
  "ber2int_step v b = push_bit 8 v OR uint b"

definition ber2int :: "bytes \<Rightarrow> bool \<Rightarrow> exn + int" where
  "ber2int e sgd =
     bindE (need e 1) (\<lambda>_.
       let v0 = uint (hd e);
           v = (if v0 AND 0x80 \<noteq> 0 \<and> sgd then v0 - 256 else v0)
       in Inr (foldl ber2int_step v (tl e)))"

section \<open>Lengths\<close>

definition int2berlen :: "int \<Rightarrow> exn + bytes" where
  "int2berlen i =
     bindE (assertE AssertionError (i \<ge> 0)) (\<lambda>_.
       let e = int2ber i False in
       if i \<le> 127 then Inr e
       else
         let l = length e in
         bindE (assertE AssertionError (l > 0)) (\<lambda>_.
         bindE (assertE AssertionError (l \<le> 127)) (\<lambda>_.
           Inr ((0x80 OR word_of_nat l) # e))))"

definition berDecodeLength :: "bytes \<Rightarrow> int \<Rightarrow> exn + (int \<times> int)" where
  "berDecodeLength m offset =
     bindE (ber2int (slice m (offset + 0) (offset + 1)) True) (\<lambda>l.
       if l AND 0x80 \<noteq> 0 then
         let ll = 1 + (l AND 0x7F) in
         bindE (need m (offset + ll)) (\<lambda>_.
         bindE (ber2int (slice m (offset + 1) (offset + ll)) False) (\<lambda>l'.
           Inr (l', ll)))
       else Inr (l, 1))"

section \<open>The header of an object\<close>

text \<open>
  The first half of \<open>berDecodeObject\<close>, on a buffer that is not empty: the tag, the content
  and the number of bytes used.
\<close>

definition ber_header :: "bytes \<Rightarrow> exn + (byte \<times> bytes \<times> int)" where
  "ber_header m =
     bindE (need m 2) (\<lambda>_.
     bindE (ber2int (slice m 0 1) False) (\<lambda>v.
       let i = word_of_int v AND (CLASS_MASK OR TAG_MASK) in
       bindE (berDecodeLength m 1) (\<lambda>(len, lenlen).
       bindE (need m (1 + lenlen + len)) (\<lambda>_.
         let m2 = slice m (1 + lenlen) (1 + lenlen + len) in
         Inr (i, m2, 1 + lenlen + len)))))"

section \<open>Lemmas: integers\<close>

lemma uint_byte_bounds: "0 \<le> uint (b::byte)" "uint (b::byte) < 256"
  using uint_lt2p[of b] by simp_all

lemma ber2int_step_eq: "ber2int_step v b = v * 256 + uint b"
proof -
  have "\<not> bit (push_bit 8 v) n \<or> \<not> bit (uint b) n" for n
    by (cases "n < 8") (auto simp: bit_push_bit_iff bit_uint_iff)
  then have "push_bit 8 v OR uint b = push_bit 8 v + uint b"
    by (intro disjunctive_add[symmetric]) 
  then show ?thesis by (simp add: ber2int_step_def push_bit_eq_mult)
qed

lemma odd_div_128: "0 \<le> (k::int) \<Longrightarrow> k < 256 \<Longrightarrow> odd (k div 128) \<longleftrightarrow> k \<ge> 128"
  by (cases "k \<ge> 128") (simp_all add: div_pos_geq)

lemma split_256: "(i::int) mod 256 * p + 256 * (i div 256 * p) = i * p"
proof -
  have "i mod 256 * p + 256 * (i div 256 * p) = (i mod 256 + 256 * (i div 256)) * p"
    by (simp only: distrib_right mult.assoc)
  then show ?thesis by simp
qed

lemma and_0x80_iff: "uint (b::byte) AND 0x80 \<noteq> 0 \<longleftrightarrow> uint b \<ge> 128"
proof -
  have "uint b AND 2 ^ 7 \<noteq> 0 \<longleftrightarrow> odd (uint b div 2 ^ 7)"
    by (simp only: and_exp_eq_0_iff_not_bit bit_iff_odd not_not)
  also have "\<dots> \<longleftrightarrow> uint b \<ge> 128"
    using odd_div_128[OF uint_byte_bounds(1) uint_byte_bounds(2)] by simp
  finally show ?thesis by simp
qed

text \<open>The bytes read as digits in base 256 below a leading value.\<close>

definition digits_value :: "int \<Rightarrow> bytes \<Rightarrow> int" where
  "digits_value v bs = foldl ber2int_step v bs"

lemma digits_value_Nil [simp]: "digits_value v [] = v"
  by (simp add: digits_value_def)

lemma digits_value_Cons [simp]: "digits_value v (b # bs) = digits_value (v * 256 + uint b) bs"
  by (simp add: digits_value_def ber2int_step_eq)

lemma digits_value_append [simp]:
  "digits_value v (bs @ cs) = digits_value (digits_value v bs) cs"
  by (simp add: digits_value_def)

lemma digits_value_shift: "digits_value v bs = v * 256 ^ length bs + digits_value 0 bs"
proof (induction bs arbitrary: v)
  case (Cons b bs)
  show ?case
    using Cons[of "v * 256 + uint b"] Cons[of "uint b"] by (simp add: algebra_simps)
qed simp

lemma digits_value_bounds: "0 \<le> digits_value 0 bs \<and> digits_value 0 bs < 256 ^ length bs"
proof (induction bs rule: rev_induct)
  case (snoc b bs)
  then show ?case using uint_byte_bounds[of b] by simp
qed simp

text \<open>The value of a non-empty string of bytes in two's complement.\<close>

fun signed_value :: "bytes \<Rightarrow> int" where
  "signed_value [] = 0"
| "signed_value (b # bs) = digits_value (if uint b \<ge> 128 then uint b - 256 else uint b) bs"

lemma ber2int_signed: "bs \<noteq> [] \<Longrightarrow> ber2int bs True = Inr (signed_value bs)"
  by (cases bs) (auto simp: ber2int_def need_def Let_def and_0x80_iff digits_value_def)

lemma ber2int_unsigned: "bs \<noteq> [] \<Longrightarrow> ber2int bs False = Inr (digits_value 0 bs)"
  by (cases bs) (auto simp: ber2int_def need_def Let_def digits_value_def ber2int_step_eq)

lemma ber2int_empty: "ber2int [] sgd = Inl (BERExceptionInsufficientData 1)"
  by (simp add: ber2int_def need_def)

lemma byte_sign_bounds:
  "0 \<le> (k::int) \<Longrightarrow> k < 256 \<Longrightarrow>
   - 128 \<le> (if k \<ge> 128 then k - 256 else k) \<and> (if k \<ge> 128 then k - 256 else k) \<le> 127"
  by auto

lemma digits_value_range:
  assumes "- 128 \<le> v" and "v \<le> 127"
  shows "- 128 * 256 ^ length cs \<le> digits_value v cs \<and> digits_value v cs < 128 * 256 ^ length cs"
proof -
  define p where "p = (256 ^ length cs :: int)"
  have "- 128 * p \<le> v * p" "v * p \<le> 127 * p"
    using assms unfolding p_def by (intro mult_right_mono; simp)+
  moreover have "digits_value v cs = v * p + digits_value 0 cs" and "0 \<le> digits_value 0 cs"
    and "digits_value 0 cs < p"
    using digits_value_shift[of v cs] digits_value_bounds[of cs] by (simp_all add: p_def)
  ultimately show ?thesis unfolding p_def[symmetric] by linarith
qed

lemma signed_value_bounds:
  assumes "bs \<noteq> []"
  shows "- 128 * 256 ^ (length bs - 1) \<le> signed_value bs \<and>
         signed_value bs < 128 * 256 ^ (length bs - 1)"
proof (cases bs)
  case (Cons b cs)
  then show ?thesis
    using digits_value_range byte_sign_bounds[OF uint_byte_bounds(1) uint_byte_bounds(2), of b]
    by simp
qed (use assms in simp)

lemma uint_byte_of_mod: "uint (word_of_int (i mod 256) :: byte) = i mod 256"
  by (simp add: uint_word_of_int)

lemma int2ber_loop_signed:
  "signed_value (int2ber_loop True i enc) = i * 256 ^ length enc + digits_value 0 enc"
proof (induction True i enc rule: int2ber_loop.induct)
  case (1 i enc)
  show ?case
  proof (cases "i > 127 \<or> i < -128")
    case True
    have d: "drop_bit 8 i = i div 256" by (simp add: drop_bit_int_def)
    have "digits_value (i mod 256) enc = (i mod 256) * 256 ^ length enc + digits_value 0 enc"
      by (rule digits_value_shift)
    then show ?thesis
      using 1 True split_256[of i "256 ^ length enc"]
      by (simp add: int2ber_loop.simps[of True i] d uint_byte_of_mod algebra_simps)
  next
    case False
    then have v: "(if i mod 256 \<ge> 128 then i mod 256 - 256 else i mod 256) = i"
      using mod_add_self2[of i 256] by (cases "0 \<le> i") (simp_all del: mod_add_self2)
    have "int2ber_loop True i enc = word_of_int (i mod 256) # enc"
      using False by (simp add: int2ber_loop.simps[of True i])
    then show ?thesis
      using digits_value_shift[of i enc] by (simp only: signed_value.simps uint_byte_of_mod v)
  qed
qed

lemma int2ber_loop_unsigned:
  "0 \<le> i \<Longrightarrow> digits_value 0 (int2ber_loop False i enc) = i * 256 ^ length enc + digits_value 0 enc"
proof (induction False i enc rule: int2ber_loop.induct)
  case (1 i enc)
  show ?case
  proof (cases "i > 255")
    case True
    have d: "drop_bit 8 i = i div 256" by (simp add: drop_bit_int_def)
    have "digits_value (i mod 256) enc = (i mod 256) * 256 ^ length enc + digits_value 0 enc"
      by (rule digits_value_shift)
    then show ?thesis
      using 1 True split_256[of i "256 ^ length enc"]
      by (simp add: int2ber_loop.simps[of False i] d uint_byte_of_mod algebra_simps)
  next
    case False
    with 1 have "i mod 256 = i" by simp
    then have "uint (word_of_int i :: byte) = i" using uint_byte_of_mod[of i] by simp
    with False show ?thesis
      using digits_value_shift[of i enc] \<open>i mod 256 = i\<close>
      by (simp add: int2ber_loop.simps[of False i])
  qed
qed

lemma int2ber_loop_nonempty: "int2ber_loop sgd i enc \<noteq> []"
  by (induction sgd i enc rule: int2ber_loop.induct) (subst int2ber_loop.simps, auto)

lemma int2ber_nonempty [simp]: "int2ber i sgd \<noteq> []"
  by (simp add: int2ber_def int2ber_loop_nonempty)

lemma ber2int_int2ber_signed: "ber2int (int2ber i True) True = Inr i"
  by (simp add: ber2int_signed) (simp add: int2ber_def int2ber_loop_signed)

lemma ber2int_int2ber_unsigned: "0 \<le> i \<Longrightarrow> ber2int (int2ber i False) False = Inr i"
  by (simp add: ber2int_unsigned) (simp add: int2ber_def int2ber_loop_unsigned)

text \<open>The encoding has as many bytes as the value needs: one fewer would not hold it.\<close>

lemma int2ber_loop_length:
  "length (int2ber_loop True i enc) = Suc (length enc) \<and> - 128 \<le> i \<and> i \<le> 127 \<or>
   (\<exists>n. length (int2ber_loop True i enc) = Suc (Suc n) + length enc \<and>
        (i < - 128 * 256 ^ n \<or> i \<ge> 128 * 256 ^ n))"
proof (induction True i enc rule: int2ber_loop.induct)
  case (1 i enc)
  show ?case
  proof (cases "i > 127 \<or> i < -128")
    case True
    let ?j = "i div 256" and ?e = "word_of_int (i mod 256) # enc"
    have d: "drop_bit 8 i = ?j" by (simp add: drop_bit_int_def)
    have eq: "int2ber_loop True i enc = int2ber_loop True ?j ?e"
      using True by (simp add: int2ber_loop.simps[of True i] d)
    from 1 True d consider
        "length (int2ber_loop True ?j ?e) = Suc (length ?e)"
      | n where "length (int2ber_loop True ?j ?e) = Suc (Suc n) + length ?e"
          "?j < - 128 * 256 ^ n \<or> ?j \<ge> 128 * 256 ^ n" by auto
    then show ?thesis
    proof cases
      case 1 then show ?thesis using True eq by (intro disjI2 exI[of _ 0]) auto
    next
      case (2 n)
      have "i < - 128 * 256 ^ Suc n \<or> i \<ge> 128 * 256 ^ Suc n"
        using 2(2) by (simp add: div_less_iff_less_mult) linarith
      then show ?thesis using 2 eq by (intro disjI2 exI[of _ "Suc n"]) auto
    qed
  next
    case False
    then show ?thesis by (simp add: int2ber_loop.simps[of True i])
  qed
qed

lemma int2ber_shortest_aux:
  assumes "ber2int bs True = Inr i"
  shows "length (int2ber i True) \<le> length bs"
proof (rule ccontr)
  assume long: "\<not> ?thesis"
  have ne: "bs \<noteq> []" using assms by (auto simp: ber2int_empty)
  then have i: "i = signed_value bs" using assms by (simp add: ber2int_signed)
  obtain n where n: "length (int2ber i True) = Suc (Suc n)"
    and out: "i < - 128 * 256 ^ n \<or> i \<ge> 128 * 256 ^ n"
    using int2ber_loop_length[of i "[]"] long ne by (auto simp: int2ber_def) (metis Suc_leI length_greater_0_conv)
  have "length bs - 1 \<le> n" using long n by simp
  then have "(256::int) ^ (length bs - 1) \<le> 256 ^ n" by (simp add: power_increasing)
  with out signed_value_bounds[OF ne] i show False by linarith
qed

section \<open>Lemmas: lengths and headers\<close>

lemma int_and_0x80: "(x::int) AND 0x80 \<noteq> 0 \<longleftrightarrow> odd (x div 128)"
proof -
  have "x AND 2 ^ 7 \<noteq> 0 \<longleftrightarrow> odd (x div 2 ^ 7)"
    by (simp only: and_exp_eq_0_iff_not_bit bit_iff_odd not_not)
  then show ?thesis by simp
qed

lemma int_and_0x7F: "(x::int) AND 0x7F = x mod 128"
proof -
  have "x AND mask 7 = x mod 2 ^ 7" by (simp only: take_bit_eq_mask[symmetric] take_bit_eq_mod)
  then show ?thesis by (simp add: mask_eq_exp_minus_1)
qed

lemma long_form_octet:
  assumes "0 < l" and "l \<le> 127"
  shows "uint (0x80 OR word_of_nat l :: byte) = 128 + int l"
proof -
  have "uint (0x80 OR word_of_nat l :: byte) = (128::int) OR int l"
    using assms by (simp add: uint_or unsigned_of_nat take_bit_eq_mod)
  also have "\<dots> = 128 + int l"
  proof (rule disjunctive_add[symmetric])
    fix n
    have "bit (128::int) n \<longleftrightarrow> n = 7"
      using bit_exp_iff[of "7" n, where 'a = int] by simp
    moreover have "\<not> bit (int l) 7" using assms by (simp add: bit_iff_odd)
    ultimately show "\<not> bit (128::int) n \<or> \<not> bit (int l) n" by auto
  qed
  finally show ?thesis .
qed

lemma need_ok: "n \<le> int (length m) \<Longrightarrow> need m n = Inr ()"
  by (simp add: need_def)

lemma need_Inr [simp]: "need m n = Inr u \<longleftrightarrow> n \<le> int (length m)"
  by (auto simp: need_def Let_def)

lemma need_Inl: "need m n = Inl e \<longleftrightarrow>
   n > int (length m) \<and> e = BERExceptionInsufficientData (n - int (length m))"
  by (auto simp: need_def Let_def)

text \<open>The two forms of a length that the encoder writes.\<close>

lemma int2ber_small: "0 \<le> n \<Longrightarrow> n \<le> 255 \<Longrightarrow> int2ber n False = [word_of_int n]"
  by (simp add: int2ber_def int2ber_loop.simps)

lemma int2berlen_cases:
  assumes "int2berlen n = Inr ws"
  obtains "0 \<le> n" "n \<le> 127" "ws = [word_of_int n]"
  | l where "n > 127" "l = length (int2ber n False)" "0 < l" "l \<le> 127"
      "ws = (0x80 OR word_of_nat l) # int2ber n False"
  using assms by (auto simp: int2berlen_def Let_def int2ber_small split: if_splits)

lemma int2berlen_nonempty: "int2berlen n = Inr ws \<Longrightarrow> ws \<noteq> []"
  by (auto elim: int2berlen_cases)

lemma slice_0_plus: "slice (pre @ b # m) (int (length pre)) (int (length pre) + 1) = [b]"
  by (simp add: slice_def nat_add_distrib)

lemma minus_128:
  "1 \<le> (x::int) \<Longrightarrow> x \<le> 127 \<Longrightarrow> odd ((x - 128) div 128) \<and> (x - 128) mod 128 = x"
proof -
  assume "1 \<le> x" "x \<le> 127"
  moreover have "(x - 128) div 128 = x div 128 - 1"
    using div_mult_self1[of 128 x "- 1"] by simp
  ultimately show ?thesis by simp
qed

lemma berDecodeLength_int2berlen:
  assumes "int2berlen n = Inr ws"
  shows "berDecodeLength (pre @ ws @ rest) (int (length pre)) = Inr (n, int (length ws))"
  using assms
proof (cases rule: int2berlen_cases)
  case 1
  have u: "uint (word_of_int n :: byte) = n" using 1 by (simp add: uint_word_of_int)
  moreover have "n AND 128 = 0" using int_and_0x80[of n] 1 by auto
  ultimately show ?thesis
    using 1 by (simp add: berDecodeLength_def slice_0_plus ber2int_signed)
next
  case (2 l)
  let ?e = "int2ber n False" and ?o = "0x80 OR word_of_nat l :: byte"
  let ?m = "pre @ ws @ rest" and ?k = "int (length pre)"
  have "ber2int (slice ?m (?k + 0) (?k + 1)) True = Inr (signed_value [?o])"
    unfolding 2(5) by (simp add: slice_0_plus ber2int_signed)
  also have "signed_value [?o] = int l - 128"
    using 2(3,4) by (simp add: long_form_octet)
  finally have v: "ber2int (slice ?m (?k + 0) (?k + 1)) True = Inr (int l - 128)" .
  have "(int l - 128) AND 0x80 \<noteq> 0" and a: "(int l - 128) AND 0x7F = int l"
    using minus_128[of "int l"] 2(3,4) unfolding int_and_0x80 int_and_0x7F by simp_all
  moreover have "slice ?m (?k + 1) (?k + (1 + int l)) = ?e"
    unfolding 2(5) 2(2) by (simp add: slice_def nat_add_distrib)
  then have "ber2int (slice ?m (?k + 1) (?k + (1 + int l))) False = Inr n"
    using ber2int_int2ber_unsigned[of n] 2(1) by simp
  moreover have "need ?m (?k + (1 + int l)) = Inr ()"
    unfolding 2(5) 2(2) by (simp add: need_ok)
  moreover have "int (length ws) = 1 + int l" using 2(2,5) by simp
  ultimately show ?thesis
    by (simp only: berDecodeLength_def v bindE.simps a Let_def if_True not_False_eq_True)
qed

lemma ber_header_wire:
  assumes "int2berlen (int (length content)) = Inr ws"
  shows "ber_header (t # ws @ content @ rest) =
    Inr (t AND 0xDF, content, 1 + int (length ws) + int (length content))"
proof -
  have "berDecodeLength (t # ws @ content @ rest) 1 = Inr (int (length content), int (length ws))"
    using berDecodeLength_int2berlen[OF assms, of "[t]" "content @ rest"] by simp
  moreover have "slice (t # ws @ content @ rest) (1 + int (length ws))
      (1 + int (length ws) + int (length content)) = content"
    by (simp add: slice_def nat_add_distrib)
  moreover have "ws \<noteq> []" using assms by (rule int2berlen_nonempty)
  then have "1 \<le> length ws" by (cases ws) auto
  ultimately show ?thesis
    by (simp add: ber_header_def need_ok slice_def ber2int_unsigned Let_def CLASS_MASK_def TAG_MASK_def)
qed

lemma slice_one: "0 \<le> k \<Longrightarrow> k < int (length m) \<Longrightarrow> slice m k (k + 1) = [m ! nat k]"
  by (simp add: slice_def nat_add_distrib Cons_nth_drop_Suc[symmetric] nat_less_iff)

lemma ber2int_one_byte:
  assumes "ber2int (slice m k (k + 1)) sgd = Inr l" and "0 \<le> k"
  shows "k < int (length m) \<and> - 128 \<le> l \<and> (sgd \<longrightarrow> l \<le> 127)"
proof -
  have "slice m k (k + 1) \<noteq> []" using assms(1) by (auto simp: ber2int_empty)
  then have k: "k < int (length m)" by (rule contrapos_np) (simp add: slice_def)
  then have "slice m k (k + 1) = [m ! nat k]" using assms(2) by (simp add: slice_one)
  then show ?thesis
    using assms(1) k byte_sign_bounds[OF uint_byte_bounds(1) uint_byte_bounds(2), of "m ! nat k"]
    by (cases sgd) (auto simp: ber2int_signed ber2int_unsigned intro: order_trans[OF _ uint_byte_bounds(1)])
qed

lemma ber2int_unsigned_nonneg: "ber2int e False = Inr v \<Longrightarrow> 0 \<le> v"
  by (cases "e = []") (auto simp: ber2int_empty ber2int_unsigned digits_value_bounds)

lemma berDecodeLength_bounds:
  assumes "berDecodeLength m k = Inr (len, ll)" and "0 \<le> k"
  shows "0 \<le> len \<and> 1 \<le> ll \<and> k + 1 \<le> int (length m) \<and> k + ll \<le> int (length m)"
proof -
  obtain l where l: "ber2int (slice m k (k + 1)) True = Inr l"
    using assms(1) by (auto simp: berDecodeLength_def)
  then have lb: "k < int (length m)" "- 128 \<le> l" "l \<le> 127"
    using ber2int_one_byte[OF _ assms(2)] by auto
  show ?thesis
  proof (cases "l AND 0x80 = 0")
    case True
    then have "even (l div 128)" using int_and_0x80 by blast
    moreover have "l div 128 = -1" if "l < 0"
      using that lb div_add_self2[of 128 l] by (simp del: div_add_self2)
    ultimately have "0 \<le> l" by (cases "l < 0") auto
    then show ?thesis using assms(1) l lb True by (simp add: berDecodeLength_def)
  next
    case False
    moreover have "0 \<le> l AND 0x7F" by (simp add: int_and_0x7F)
    ultimately show ?thesis
      using assms(1) l lb ber2int_unsigned_nonneg by (auto simp: berDecodeLength_def Let_def)
  qed
qed

lemma berDecodeLength_append:
  assumes "berDecodeLength m k = Inr (len, ll)" and "0 \<le> k"
  shows "berDecodeLength (m @ rest) k = Inr (len, ll)"
  using assms berDecodeLength_bounds[OF assms]
  by (auto simp: berDecodeLength_def Let_def slice_append split: if_splits)

lemma ber_header_bounds:
  assumes "ber_header m = Inr (i, m2, used)"
  shows "2 \<le> used \<and> used \<le> int (length m) \<and> int (length m2) + 2 \<le> used"
proof -
  obtain len ll where "berDecodeLength m 1 = Inr (len, ll)"
    and "used = 1 + ll + len" "m2 = slice m (1 + ll) (1 + ll + len)" "used \<le> int (length m)"
    using assms by (auto simp: ber_header_def Let_def)
  then show ?thesis using berDecodeLength_bounds[of m 1 len ll] by auto
qed

lemma ber_header_append:
  assumes "ber_header m = Inr (i, m2, used)"
  shows "ber_header (m @ rest) = Inr (i, m2, used)"
  using assms berDecodeLength_bounds[of m 1]
  by (auto simp: ber_header_def Let_def slice_append berDecodeLength_append)

text \<open>The header refuses a buffer in one way only: it asks for more bytes.\<close>

lemma ber_header_error:
  assumes "ber_header m = Inl e"
  shows "\<exists>d > 0. e = BERExceptionInsufficientData d"
  using assms
  by (auto simp: ber_header_def berDecodeLength_def Let_def bindE_eq_Inl need_Inl ber2int_def
      split: if_splits)

end
