(* ===== verification/BerObj.thy ===== *)
theory BerObj
  imports Ber
begin

text \<open>
  The classes of \<open>pureber.py\<close> and \<open>pureldap.py\<close>, the objects they build and the decoder
  contexts. A class is a value of \<open>cls\<close>, an object is a value of \<open>ber\<close> (one constructor per
  set of attributes; classes that only override \<open>tag\<close> share one and are told apart by the
  class they carry), and a context is its own class with its \<open>fallback\<close> and \<open>inherit\<close>
  references.
\<close>

section \<open>Classes and their tags\<close>

text \<open>
  Classes that share their attributes are one datatype each, so that an object can carry the
  class it was built by; a class with attributes of its own is a constructor of \<open>cls\<close>.
\<close>

datatype (plugins only: code size) integer_cls =
    BERInteger | BEREnumerated | LDAPInteger | LDAPAbandonRequest

datatype (plugins only: code size) octet_cls =
    BEROctetString | LDAPString | LDAPAttributeValue | LDAPBindResponse_serverSaslCreds
  | LDAPAttributeDescription | LDAPFilter_substrings_initial | LDAPFilter_substrings_any
  | LDAPFilter_substrings_final | LDAPFilter_present | LDAPMatchingRuleId | LDAPAssertionValue
  | LDAPMatchingRuleAssertion_matchingRule | LDAPMatchingRuleAssertion_type
  | LDAPMatchingRuleAssertion_matchValue | LDAPDelRequest | LDAPModifyDNResponse_newSuperior
  | LDAPOID | LDAPResponseName | LDAPResponse | LDAPPasswordModifyRequest_userIdentity
  | LDAPPasswordModifyRequest_oldPasswd | LDAPPasswordModifyRequest_newPasswd

datatype (plugins only: code size) boolean_cls =
    BERBoolean | LDAPMatchingRuleAssertion_dnAttributes

datatype (plugins only: code size) null_cls =
    BERNull | LDAPUnbindRequest

datatype (plugins only: code size) sequence_cls =
    BERSequence | BERSequenceOf | BERSet | LDAPReferral | LDAPFilter_and | LDAPFilter_or
  | LDAPControls

datatype (plugins only: code size) result_cls =
    LDAPBindResponse | LDAPSearchResultDone | LDAPModifyResponse | LDAPAddResponse
  | LDAPDelResponse | LDAPModifyDNResponse | LDAPCompareResponse

datatype (plugins only: code size) extresp_cls =
    LDAPExtendedResponse | LDAPStartTLSResponse

datatype (plugins only: code size) assertion_cls =
    LDAPAttributeValueAssertion | LDAPFilter_equalityMatch | LDAPFilter_greaterOrEqual
  | LDAPFilter_lessOrEqual | LDAPFilter_approxMatch

datatype (plugins only: code size) rule_cls =
    LDAPMatchingRuleAssertion | LDAPFilter_extensibleMatch

datatype (plugins only: code size) extreq_cls =
    LDAPExtendedRequest | LDAPPasswordModifyRequest | LDAPCancelRequest | LDAPStartTLSRequest

datatype (plugins only: code size) cls =
    CInteger integer_cls | COctetString octet_cls | CBoolean boolean_cls | CNull null_cls
  | CSequence sequence_cls | CResult result_cls | CExtendedResponse extresp_cls
  | CAssertion assertion_cls | CRuleAssertion rule_cls | CExtendedRequest extreq_cls
  | LDAPMessage | LDAPBindRequest | LDAPSearchResultReference | LDAPFilter_not
  | LDAPFilter_substrings | LDAPSearchRequest | LDAPSearchResultEntry | LDAPControl
  | LDAPModifyRequest | LDAPAddRequest | LDAPModifyDNRequest | LDAPCompareRequest
  | LDAPIntermediateResponse

text \<open>The class attribute \<open>tag\<close>, inherited where a class does not set it.\<close>

fun class_tag :: "cls \<Rightarrow> byte" where
  "class_tag (CBoolean BERBoolean) = 0x01"
| "class_tag (CInteger BERInteger) = 0x02"
| "class_tag (COctetString BEROctetString) = 0x04"
| "class_tag (CNull BERNull) = 0x05"
| "class_tag (CInteger BEREnumerated) = 0x0A"
| "class_tag (CSequence BERSequence) = 0x10"
| "class_tag (CSequence BERSequenceOf) = 0x10"
| "class_tag (CSequence BERSet) = 0x11"
| "class_tag (CInteger LDAPInteger) = 0x02"
| "class_tag (COctetString LDAPString) = 0x04"
| "class_tag (COctetString LDAPAttributeValue) = 0x04"
| "class_tag LDAPMessage = 0x10"
| "class_tag LDAPBindRequest = CLASS_APPLICATION OR 0x00"
| "class_tag (CSequence LDAPReferral) = CLASS_CONTEXT OR 0x03"
| "class_tag LDAPSearchResultReference = CLASS_APPLICATION OR 0x13"
| "class_tag (CResult LDAPBindResponse) = CLASS_APPLICATION OR 0x01"
| "class_tag (COctetString LDAPBindResponse_serverSaslCreds) = CLASS_CONTEXT OR 0x07"
| "class_tag (CNull LDAPUnbindRequest) = CLASS_APPLICATION OR 0x02"
| "class_tag (COctetString LDAPAttributeDescription) = 0x04"
| "class_tag (CAssertion LDAPAttributeValueAssertion) = 0x10"
| "class_tag (CSequence LDAPFilter_and) = CLASS_CONTEXT OR 0x00"
| "class_tag (CSequence LDAPFilter_or) = CLASS_CONTEXT OR 0x01"
| "class_tag LDAPFilter_not = CLASS_CONTEXT OR 0x02"
| "class_tag (CAssertion LDAPFilter_equalityMatch) = CLASS_CONTEXT OR 0x03"
| "class_tag (COctetString LDAPFilter_substrings_initial) = CLASS_CONTEXT OR 0x00"
| "class_tag (COctetString LDAPFilter_substrings_any) = CLASS_CONTEXT OR 0x01"
| "class_tag (COctetString LDAPFilter_substrings_final) = CLASS_CONTEXT OR 0x02"
| "class_tag LDAPFilter_substrings = CLASS_CONTEXT OR 0x04"
| "class_tag (CAssertion LDAPFilter_greaterOrEqual) = CLASS_CONTEXT OR 0x05"
| "class_tag (CAssertion LDAPFilter_lessOrEqual) = CLASS_CONTEXT OR 0x06"
| "class_tag (COctetString LDAPFilter_present) = CLASS_CONTEXT OR 0x07"
| "class_tag (CAssertion LDAPFilter_approxMatch) = CLASS_CONTEXT OR 0x08"
| "class_tag (COctetString LDAPMatchingRuleId) = 0x04"
| "class_tag (COctetString LDAPAssertionValue) = 0x04"
| "class_tag (COctetString LDAPMatchingRuleAssertion_matchingRule) = CLASS_CONTEXT OR 0x01"
| "class_tag (COctetString LDAPMatchingRuleAssertion_type) = CLASS_CONTEXT OR 0x02"
| "class_tag (COctetString LDAPMatchingRuleAssertion_matchValue) = CLASS_CONTEXT OR 0x03"
| "class_tag (CBoolean LDAPMatchingRuleAssertion_dnAttributes) = CLASS_CONTEXT OR 0x04"
| "class_tag (CRuleAssertion LDAPMatchingRuleAssertion) = 0x10"
| "class_tag (CRuleAssertion LDAPFilter_extensibleMatch) = CLASS_CONTEXT OR 0x09"
| "class_tag LDAPSearchRequest = CLASS_APPLICATION OR 0x03"
| "class_tag LDAPSearchResultEntry = CLASS_APPLICATION OR 0x04"
| "class_tag (CResult LDAPSearchResultDone) = CLASS_APPLICATION OR 0x05"
| "class_tag (CSequence LDAPControls) = CLASS_CONTEXT OR 0x00"
| "class_tag LDAPControl = 0x10"
| "class_tag LDAPModifyRequest = CLASS_APPLICATION OR 0x06"
| "class_tag (CResult LDAPModifyResponse) = CLASS_APPLICATION OR 0x07"
| "class_tag LDAPAddRequest = CLASS_APPLICATION OR 0x08"
| "class_tag (CResult LDAPAddResponse) = CLASS_APPLICATION OR 0x09"
| "class_tag (COctetString LDAPDelRequest) = CLASS_APPLICATION OR 0x0A"
| "class_tag (CResult LDAPDelResponse) = CLASS_APPLICATION OR 0x0B"
| "class_tag (COctetString LDAPModifyDNResponse_newSuperior) = CLASS_CONTEXT OR 0x00"
| "class_tag LDAPModifyDNRequest = CLASS_APPLICATION OR 12"
| "class_tag (CResult LDAPModifyDNResponse) = CLASS_APPLICATION OR 13"
| "class_tag LDAPCompareRequest = CLASS_APPLICATION OR 14"
| "class_tag (CResult LDAPCompareResponse) = CLASS_APPLICATION OR 15"
| "class_tag (CInteger LDAPAbandonRequest) = CLASS_APPLICATION OR 0x10"
| "class_tag (COctetString LDAPOID) = 0x04"
| "class_tag (COctetString LDAPResponseName) = CLASS_CONTEXT OR 10"
| "class_tag (COctetString LDAPResponse) = CLASS_CONTEXT OR 11"
| "class_tag (CExtendedRequest LDAPExtendedRequest) = CLASS_APPLICATION OR 23"
| "class_tag (COctetString LDAPPasswordModifyRequest_userIdentity) = CLASS_CONTEXT OR 0"
| "class_tag (COctetString LDAPPasswordModifyRequest_oldPasswd) = CLASS_CONTEXT OR 1"
| "class_tag (COctetString LDAPPasswordModifyRequest_newPasswd) = CLASS_CONTEXT OR 2"
| "class_tag (CExtendedRequest LDAPPasswordModifyRequest) = CLASS_APPLICATION OR 23"
| "class_tag (CExtendedRequest LDAPCancelRequest) = CLASS_APPLICATION OR 23"
| "class_tag (CExtendedResponse LDAPExtendedResponse) = CLASS_APPLICATION OR 0x18"
| "class_tag LDAPIntermediateResponse = CLASS_APPLICATION OR 0x19"
| "class_tag (CExtendedRequest LDAPStartTLSRequest) = CLASS_APPLICATION OR 23"
| "class_tag (CExtendedResponse LDAPStartTLSResponse) = CLASS_APPLICATION OR 0x18"

section \<open>Objects\<close>

text \<open>A control as callers spell it: type, criticality, value.\<close>

type_synonym control = "pytext \<times> int option \<times> pytext option"

text \<open>What \<open>auth\<close> of a bind request holds: a password, or a mechanism with its credentials.\<close>

datatype bind_auth = Simple pytext | Sasl pytext "pytext option"

text \<open>The attributes of an \<open>LDAPResult\<close>.\<close>

record ldap_result =
  resultCode :: int
  matchedDN :: pytext
  errorMessage :: pytext
  referral :: "pytext list option"
  serverSaslCreds :: "pytext option"

datatype (plugins only: code size) ber =
    OInteger integer_cls (otag: byte) (ivalue: int)
  | OOctetString octet_cls (otag: byte) (svalue: pytext)
  | OBoolean boolean_cls (otag: byte) (ivalue: int)
  | ONull null_cls (otag: byte)
  | OSequence sequence_cls (otag: byte) (odata: "ber list")
  | OMessage (otag: byte) (msg_id: int) (msg_value: ber) (msg_controls: "control list option")
  | OBindRequest (otag: byte) (bind_version: int) (bind_dn: pytext) (bind_auth: bind_auth)
      (bind_sasl: bool)
  | OSearchResultReference (otag: byte) (ref_uris: "ber list")
  | OResult result_cls (otag: byte) (result: ldap_result)
  | OExtendedResponse extresp_cls (otag: byte) (result: ldap_result) (responseName: "pytext option")
      (response: "pytext option")
  | OAttributeValueAssertion assertion_cls (otag: byte) (attributeDesc: ber) (assertionValue: "ber option")
  | OFilter_not (otag: byte) (not_value: ber)
  | OFilter_substrings (otag: byte) (sub_type: pytext) (substrings: "ber list")
  | OMatchingRuleAssertion rule_cls (otag: byte) (matchingRule: "ber option") (rule_type: "ber option")
      (matchValue: ber) (dnAttributes: "ber option")
  | OSearchRequest (otag: byte) (baseObject: pytext) (scope: int) (derefAliases: int)
      (sizeLimit: int) (timeLimit: int) (typesOnly: int) (search_filter: ber)
      (search_attributes: "pytext list")
  | OSearchResultEntry (otag: byte) (objectName: pytext)
      (entry_attributes: "(pytext \<times> pytext list) list")
  | OControl (otag: byte) (controlType: pytext) (criticality: "int option")
      (controlValue: "pytext option")
  | OModifyRequest (otag: byte) (mod_object: "pytext option") (modification: "ber list option")
  | OAddRequest (otag: byte) (add_entry: "pytext option") (add_attributes: "ber list list option")
  | OModifyDNRequest (otag: byte) (mdn_entry: pytext) (newrdn: pytext) (deleteoldrdn: int)
      (newSuperior: "pytext option")
  | OCompareRequest (otag: byte) (cmp_entry: pytext) (cmp_ava: ber)
  | OExtendedRequest extreq_cls (otag: byte) (requestName: pytext) (requestValue: "pytext option")
  | OIntermediateResponse (otag: byte) (ir_name: "bytes option") (ir_value: "bytes option")

text \<open>
  \<open>isinstance(x, BERSequence)\<close>, and the members iterating over the object gives: a class
  that keeps its attributes elsewhere passes no members to \<open>BERSequence.__init__\<close>.
\<close>

fun seq_data :: "ber \<Rightarrow> ber list option" where
  "seq_data (OSequence c t xs) = Some xs"
| "seq_data (OInteger c t v) = None"
| "seq_data (OOctetString c t v) = None"
| "seq_data (OBoolean c t v) = None"
| "seq_data (ONull c t) = None"
| "seq_data (OFilter_not t v) = None"
| "seq_data _ = Some []"

section \<open>Constructors that change their arguments\<close>

definition truth_value :: "int \<Rightarrow> int" where
  "truth_value v = (if v \<noteq> 0 then 0xFF else v)"

definition mkBoolean :: "boolean_cls \<Rightarrow> byte \<Rightarrow> int \<Rightarrow> ber" where
  "mkBoolean c t v = OBoolean c t (truth_value v)"

section \<open>Decoder contexts\<close>

datatype (plugins only: code size) ctxcls =
    BERDecoderContext
  | LDAPBERDecoderContext_LDAPBindRequest
  | LDAPBERDecoderContext_LDAPResult
  | LDAPBERDecoderContext_LDAPSearchResultReference
  | LDAPBERDecoderContext_BindResponse
  | LDAPBERDecoderContext_Filter_substrings
  | LDAPBERDecoderContext_MatchingRuleAssertion
  | LDAPBERDecoderContext_Filter
  | LDAPBERDecoderContext_LDAPControls
  | LDAPBERDecoderContext_LDAPMessage
  | LDAPBERDecoderContext_TopLevel
  | LDAPBERDecoderContext_ModifyDNRequest
  | LDAPBERDecoderContext_Compare
  | LDAPBERDecoderContext_LDAPExtendedRequest
  | LDAPBERDecoderContext_LDAPPasswordModifyRequest
  | LDAPBERDecoderContext_LDAPExtendedResponse
  | LDAPBERDecoderContext_LDAPIntermediateResponse
  | LDAPBERDecoderContext

datatype (plugins only: code size) ctx = Ctx ctxcls (fallback: "ctx option") (inherit_context: "ctx option")

abbreviation own_tag :: "cls \<Rightarrow> byte \<times> cls" where
  "own_tag c \<equiv> (class_tag c, c)"

text \<open>The class attribute \<open>Identities\<close> of each context class.\<close>

fun Identities :: "ctxcls \<Rightarrow> (byte \<times> cls) list" where
  "Identities BERDecoderContext =
     [own_tag (CBoolean BERBoolean), own_tag (CInteger BERInteger), own_tag (COctetString BEROctetString), own_tag (CNull BERNull),
      own_tag (CInteger BEREnumerated), own_tag (CSequence BERSequence), own_tag (CSequence BERSet)]"
| "Identities LDAPBERDecoderContext_LDAPBindRequest =
     [(CLASS_CONTEXT OR 0x00, (COctetString BEROctetString)), (CLASS_CONTEXT OR 0x03, (CSequence BERSequence))]"
| "Identities LDAPBERDecoderContext_LDAPResult = [own_tag (CSequence LDAPReferral)]"
| "Identities LDAPBERDecoderContext_LDAPSearchResultReference =
     [(class_tag (COctetString BEROctetString), (COctetString LDAPString))]"
| "Identities LDAPBERDecoderContext_BindResponse =
     [own_tag (COctetString LDAPBindResponse_serverSaslCreds), own_tag (CSequence LDAPReferral)]"
| "Identities LDAPBERDecoderContext_Filter_substrings =
     [own_tag (COctetString LDAPFilter_substrings_initial), own_tag (COctetString LDAPFilter_substrings_any),
      own_tag (COctetString LDAPFilter_substrings_final)]"
| "Identities LDAPBERDecoderContext_MatchingRuleAssertion =
     [own_tag (COctetString LDAPMatchingRuleAssertion_matchingRule), own_tag (COctetString LDAPMatchingRuleAssertion_type),
      own_tag (COctetString LDAPMatchingRuleAssertion_matchValue),
      own_tag (CBoolean LDAPMatchingRuleAssertion_dnAttributes)]"
| "Identities LDAPBERDecoderContext_Filter =
     [own_tag (CSequence LDAPFilter_and), own_tag (CSequence LDAPFilter_or), own_tag LDAPFilter_not,
      own_tag (CAssertion LDAPFilter_equalityMatch), own_tag LDAPFilter_substrings,
      own_tag (CAssertion LDAPFilter_greaterOrEqual), own_tag (CAssertion LDAPFilter_lessOrEqual),
      own_tag (COctetString LDAPFilter_present), own_tag (CAssertion LDAPFilter_approxMatch),
      own_tag (CRuleAssertion LDAPFilter_extensibleMatch)]"
| "Identities LDAPBERDecoderContext_LDAPControls = [own_tag LDAPControl]"
| "Identities LDAPBERDecoderContext_LDAPMessage =
     [own_tag (CSequence LDAPControls), own_tag LDAPSearchResultReference, own_tag LDAPIntermediateResponse]"
| "Identities LDAPBERDecoderContext_TopLevel = [(class_tag (CSequence BERSequence), LDAPMessage)]"
| "Identities LDAPBERDecoderContext_ModifyDNRequest = [own_tag (COctetString LDAPModifyDNResponse_newSuperior)]"
| "Identities LDAPBERDecoderContext_Compare =
     [(class_tag (CSequence BERSequence), (CAssertion LDAPAttributeValueAssertion))]"
| "Identities LDAPBERDecoderContext_LDAPExtendedRequest =
     [(CLASS_CONTEXT OR 0x00, (COctetString BEROctetString)), (CLASS_CONTEXT OR 0x01, (COctetString BEROctetString))]"
| "Identities LDAPBERDecoderContext_LDAPPasswordModifyRequest =
     [own_tag (COctetString LDAPPasswordModifyRequest_userIdentity), own_tag (COctetString LDAPPasswordModifyRequest_oldPasswd),
      own_tag (COctetString LDAPPasswordModifyRequest_newPasswd)]"
| "Identities LDAPBERDecoderContext_LDAPExtendedResponse =
     [own_tag (COctetString LDAPResponseName), own_tag (COctetString LDAPResponse), own_tag (CSequence LDAPReferral)]"
| "Identities LDAPBERDecoderContext_LDAPIntermediateResponse =
     [(CLASS_CONTEXT OR 0x00, (COctetString LDAPOID)), (CLASS_CONTEXT OR 0x01, (COctetString BEROctetString))]"
| "Identities LDAPBERDecoderContext =
     [own_tag (CResult LDAPBindResponse), own_tag LDAPBindRequest, own_tag (CNull LDAPUnbindRequest),
      own_tag LDAPSearchRequest, own_tag LDAPSearchResultEntry, own_tag (CResult LDAPSearchResultDone),
      own_tag LDAPSearchResultReference, own_tag (CSequence LDAPReferral), own_tag LDAPModifyRequest,
      own_tag (CResult LDAPModifyResponse), own_tag LDAPAddRequest, own_tag (CResult LDAPAddResponse),
      own_tag (COctetString LDAPDelRequest), own_tag (CResult LDAPDelResponse), own_tag (CExtendedRequest LDAPExtendedRequest),
      own_tag (CExtendedResponse LDAPExtendedResponse), own_tag LDAPModifyDNRequest, own_tag (CResult LDAPModifyDNResponse),
      own_tag (CInteger LDAPAbandonRequest), own_tag LDAPCompareRequest, own_tag (CResult LDAPCompareResponse)]"

fun lookup_id :: "ctx \<Rightarrow> byte \<Rightarrow> cls option" where
  "lookup_id (Ctx c fb inh) i =
     (case map_of (Identities c) i of
        Some k \<Rightarrow> Some k
      | None \<Rightarrow> (case fb of Some f \<Rightarrow> lookup_id f i | None \<Rightarrow> None))"

definition inherit :: "ctx \<Rightarrow> ctx" where
  "inherit c = (case inherit_context c of Some i \<Rightarrow> i | None \<Rightarrow> c)"

lemmas tag_simps [class_simps] = CLASS_APPLICATION_def CLASS_CONTEXT_def STRUCTURED_def

end
