(* ===== verification/LdapWire.thy ===== *)
theory LdapWire
  imports BerObj
begin

text \<open>
  The \<open>toWire\<close> methods of \<open>pureber.py\<close> and \<open>pureldap.py\<close>. A method that builds
  \<open>BERSequence([..], tag).toWire()\<close> is \<open>BERSequence_toWire\<close> applied to the encodings of the
  members it lists. An \<open>assert\<close> that fails on the way is \<open>AssertionError\<close>.
\<close>

section \<open>The primitive objects\<close>

text \<open>Identification octet, length and content, as every \<open>toWire\<close> of \<open>pureber.py\<close> joins them.\<close>

definition tlv :: "byte \<Rightarrow> bytes \<Rightarrow> exn + bytes" where
  "tlv ident content =
     bindE (int2berlen (int (length content))) (\<lambda>l. Inr (ident # l @ content))"

definition BERInteger_toWire :: "byte \<Rightarrow> int \<Rightarrow> exn + bytes" where
  "BERInteger_toWire t v = (let encoded = int2ber v True in tlv t encoded)"

definition BEROctetString_toWire :: "byte \<Rightarrow> pytext \<Rightarrow> exn + bytes" where
  "BEROctetString_toWire t v = tlv t (to_bytes v)"

definition BERNull_toWire :: "byte \<Rightarrow> exn + bytes" where
  "BERNull_toWire t = Inr [t, 0]"

definition BERBoolean_toWire :: "byte \<Rightarrow> int \<Rightarrow> exn + bytes" where
  "BERBoolean_toWire t v =
     bindE (assertE AssertionError (v = 0 \<or> v = 0xFF)) (\<lambda>_.
     bindE (int2berlen 1) (\<lambda>l. Inr (t # l @ [word_of_int v])))"

definition BERSequence_toWire :: "byte \<Rightarrow> (exn + bytes) list \<Rightarrow> exn + bytes" where
  "BERSequence_toWire t ws = bindE (sequenceE ws) (\<lambda>r. tlv (STRUCTURED OR t) (concat r))"

section \<open>Controls, results and other parts\<close>

definition octets :: "pytext \<Rightarrow> exn + bytes" where
  "octets v = BEROctetString_toWire (class_tag (COctetString BEROctetString)) v"

text \<open>\<open>LDAPString(value)\<close> or \<open>LDAPOID(value)\<close> of a value that may be missing.\<close>

fun octets_opt :: "pytext option \<Rightarrow> exn + bytes" where
  "octets_opt None = Inl AssertionError"
| "octets_opt (Some v) = octets v"

definition LDAPControl_toWire ::
    "byte \<Rightarrow> pytext \<Rightarrow> int option \<Rightarrow> pytext option \<Rightarrow> exn + bytes" where
  "LDAPControl_toWire t ty cr val =
     BERSequence_toWire t
       ([octets ty]
        @ (case cr of None \<Rightarrow> []
           | Some c \<Rightarrow> [BERBoolean_toWire (class_tag (CBoolean BERBoolean)) (truth_value c)])
        @ (case val of None \<Rightarrow> [] | Some v \<Rightarrow> [octets v]))"

definition LDAPControls_toWire :: "control list \<Rightarrow> exn + bytes" where
  "LDAPControls_toWire cs =
     BERSequence_toWire (class_tag (CSequence LDAPControls))
       (map (\<lambda>(ty, cr, val). LDAPControl_toWire (class_tag LDAPControl) ty cr val) cs)"

text \<open>\<open>_referral\<close>: no referral field for no URLs at all.\<close>

definition referral_wires :: "pytext list option \<Rightarrow> (exn + bytes) list" where
  "referral_wires uris =
     (case uris of
        None \<Rightarrow> []
      | Some us \<Rightarrow>
          if us = [] then []
          else [BERSequence_toWire (class_tag (CSequence LDAPReferral)) (map octets us)])"

text \<open>The truth of a text: it is not empty.\<close>

fun text_true :: "pytext \<Rightarrow> bool" where
  "text_true (Str s) \<longleftrightarrow> s \<noteq> []"
| "text_true (Byt b) \<longleftrightarrow> b \<noteq> []"

definition result_head :: "ldap_result \<Rightarrow> (exn + bytes) list" where
  "result_head r =
     [BERInteger_toWire (class_tag (CInteger BEREnumerated)) (resultCode r),
      octets (matchedDN r), octets (errorMessage r)] @ referral_wires (referral r)"

definition LDAPResult_toWire :: "byte \<Rightarrow> ldap_result \<Rightarrow> exn + bytes" where
  "LDAPResult_toWire t r =
     BERSequence_toWire t
       (result_head r
        @ (case serverSaslCreds r of
             None \<Rightarrow> []
           | Some v \<Rightarrow>
               if text_true v
               then [BEROctetString_toWire
                       (class_tag (COctetString LDAPBindResponse_serverSaslCreds)) v]
               else []))"

definition LDAPExtendedResponse_toWire ::
    "byte \<Rightarrow> ldap_result \<Rightarrow> pytext option \<Rightarrow> pytext option \<Rightarrow> exn + bytes" where
  "LDAPExtendedResponse_toWire t r rname resp =
     BERSequence_toWire t
       (result_head r
        @ (case rname of None \<Rightarrow> []
           | Some v \<Rightarrow> [BEROctetString_toWire (CLASS_CONTEXT OR 0x0A) v])
        @ (case resp of None \<Rightarrow> []
           | Some v \<Rightarrow> [BEROctetString_toWire (CLASS_CONTEXT OR 0x0B) v]))"

definition bind_auth_wire :: "bind_auth \<Rightarrow> bool \<Rightarrow> exn + bytes" where
  "bind_auth_wire auth sasl =
     (case auth of
        Simple pw \<Rightarrow>
          if sasl then Inl AssertionError else BEROctetString_toWire (CLASS_CONTEXT OR 0) pw
      | Sasl mech creds \<Rightarrow>
          if \<not> sasl then Inl AssertionError
          else BERSequence_toWire (CLASS_CONTEXT OR 3)
                 (octets mech # (case creds of None \<Rightarrow> [] | Some c \<Rightarrow> [octets c])))"

definition LDAPBindRequest_toWire ::
    "byte \<Rightarrow> int \<Rightarrow> pytext \<Rightarrow> bind_auth \<Rightarrow> bool \<Rightarrow> exn + bytes" where
  "LDAPBindRequest_toWire t version dn auth sasl =
     BERSequence_toWire t
       [BERInteger_toWire (class_tag (CInteger BERInteger)) version, octets dn,
        bind_auth_wire auth sasl]"

definition LDAPSearchResultEntry_toWire ::
    "byte \<Rightarrow> pytext \<Rightarrow> (pytext \<times> pytext list) list \<Rightarrow> exn + bytes" where
  "LDAPSearchResultEntry_toWire t name attrs =
     BERSequence_toWire t
       [octets name,
        BERSequence_toWire (class_tag (CSequence BERSequence))
          (map (\<lambda>(key, values).
                  BERSequence_toWire (class_tag (CSequence BERSequence))
                    [octets key,
                     BERSequence_toWire (class_tag (CSequence BERSet)) (map octets values)])
             attrs)]"

definition LDAPModifyDNRequest_toWire ::
    "byte \<Rightarrow> pytext \<Rightarrow> pytext \<Rightarrow> int \<Rightarrow> pytext option \<Rightarrow> exn + bytes" where
  "LDAPModifyDNRequest_toWire t entry rdn delold superior =
     BERSequence_toWire t
       ([octets entry, octets rdn,
         BERBoolean_toWire (class_tag (CBoolean BERBoolean)) (truth_value delold)]
        @ (case superior of None \<Rightarrow> []
           | Some s \<Rightarrow> [BEROctetString_toWire (CLASS_CONTEXT OR 0) s]))"

definition LDAPExtendedRequest_toWire :: "byte \<Rightarrow> pytext \<Rightarrow> pytext option \<Rightarrow> exn + bytes" where
  "LDAPExtendedRequest_toWire t name value =
     BERSequence_toWire t
       (BEROctetString_toWire (CLASS_CONTEXT OR 0) name
        # (case value of None \<Rightarrow> []
           | Some v \<Rightarrow> [BEROctetString_toWire (CLASS_CONTEXT OR 1) (Byt (to_bytes v))]))"

definition LDAPIntermediateResponse_toWire ::
    "byte \<Rightarrow> bytes option \<Rightarrow> bytes option \<Rightarrow> exn + bytes" where
  "LDAPIntermediateResponse_toWire t name value =
     BERSequence_toWire t
       ((case name of None \<Rightarrow> []
         | Some v \<Rightarrow> [BEROctetString_toWire (CLASS_CONTEXT OR 0x00) (Byt v)])
        @ (case value of None \<Rightarrow> []
           | Some v \<Rightarrow> [BEROctetString_toWire (CLASS_CONTEXT OR 0x01) (Byt v)]))"

section \<open>Every object\<close>

fun toWire :: "ber \<Rightarrow> exn + bytes" where
  "toWire (OInteger k t v) = BERInteger_toWire t v"
| "toWire (OOctetString k t v) = BEROctetString_toWire t v"
| "toWire (OBoolean k t v) = BERBoolean_toWire t v"
| "toWire (ONull k t) = BERNull_toWire t"
| "toWire (OSequence k t xs) = BERSequence_toWire t (map toWire xs)"
| "toWire (OMessage t i v controls) =
     BERSequence_toWire (class_tag (CSequence BERSequence))
       ([BERInteger_toWire (class_tag (CInteger BERInteger)) i, toWire v]
        @ (case controls of None \<Rightarrow> [] | Some cs \<Rightarrow> [LDAPControls_toWire cs]))"
| "toWire (OBindRequest t version dn auth sasl) = LDAPBindRequest_toWire t version dn auth sasl"
| "toWire (OSearchResultReference t uris) = BERSequence_toWire t (map toWire uris)"
| "toWire (OResult k t r) = LDAPResult_toWire t r"
| "toWire (OExtendedResponse k t r rname resp) = LDAPExtendedResponse_toWire t r rname resp"
| "toWire (OAttributeValueAssertion k t desc value) =
     (case value of
        None \<Rightarrow> Inl AssertionError
      | Some v \<Rightarrow> BERSequence_toWire t [toWire desc, toWire v])"
| "toWire (OFilter_not t v) = bindE (toWire v) (\<lambda>w. tlv (STRUCTURED OR t) w)"
| "toWire (OFilter_substrings t ty subs) =
     BERSequence_toWire t
       [octets ty, BERSequence_toWire (class_tag (CSequence BERSequence)) (map toWire subs)]"
| "toWire (OMatchingRuleAssertion k t rule ty value dnattrs) =
     BERSequence_toWire t
       ((case rule of None \<Rightarrow> [] | Some x \<Rightarrow> [toWire x])
        @ (case ty of None \<Rightarrow> [] | Some x \<Rightarrow> [toWire x])
        @ [toWire value]
        @ (case dnattrs of None \<Rightarrow> [] | Some x \<Rightarrow> [toWire x]))"
| "toWire (OSearchRequest t base sc deref size_limit time_limit types_only filt attrs) =
     BERSequence_toWire t
       [octets base,
        BERInteger_toWire (class_tag (CInteger BEREnumerated)) sc,
        BERInteger_toWire (class_tag (CInteger BEREnumerated)) deref,
        BERInteger_toWire (class_tag (CInteger BERInteger)) size_limit,
        BERInteger_toWire (class_tag (CInteger BERInteger)) time_limit,
        BERBoolean_toWire (class_tag (CBoolean BERBoolean)) (truth_value types_only),
        toWire filt,
        BERSequence_toWire (class_tag (CSequence BERSequenceOf)) (map octets attrs)]"
| "toWire (OSearchResultEntry t name attrs) = LDAPSearchResultEntry_toWire t name attrs"
| "toWire (OControl t ty cr val) = LDAPControl_toWire t ty cr val"
| "toWire (OModifyRequest t obj mods) =
     BERSequence_toWire t
       (octets_opt obj
        # (case mods of None \<Rightarrow> []
           | Some xs \<Rightarrow> [BERSequence_toWire (class_tag (CSequence BERSequence)) (map toWire xs)]))"
| "toWire (OAddRequest t entry attrs) =
     (case attrs of
        None \<Rightarrow> Inl AssertionError
      | Some pairs \<Rightarrow>
          BERSequence_toWire t
            [octets_opt entry,
             BERSequence_toWire (class_tag (CSequence BERSequence))
               (map (\<lambda>pair. BERSequence_toWire (class_tag (CSequence BERSequence))
                              (map toWire pair)) pairs)])"
| "toWire (OModifyDNRequest t entry rdn delold superior) =
     LDAPModifyDNRequest_toWire t entry rdn delold superior"
| "toWire (OCompareRequest t entry ava) = BERSequence_toWire t [octets entry, toWire ava]"
| "toWire (OExtendedRequest k t name value) = LDAPExtendedRequest_toWire t name value"
| "toWire (OIntermediateResponse t name value) = LDAPIntermediateResponse_toWire t name value"

section \<open>Constructors of the extended requests\<close>

definition oid_PasswordModify :: bytes where
  "oid_PasswordModify = lit ''1.3.6.1.4.1.4203.1.11.1''"

definition oid_Cancel :: bytes where
  "oid_Cancel = lit ''1.3.6.1.1.8''"

definition oid_StartTLS :: bytes where
  "oid_StartTLS = lit ''1.3.6.1.4.1.1466.20037''"

definition mkPasswordModifyRequest ::
    "pytext option \<Rightarrow> pytext option \<Rightarrow> pytext option \<Rightarrow> pytext option \<Rightarrow> exn + ber" where
  "mkPasswordModifyRequest rname userIdentity oldPasswd newPasswd =
     bindE (assertE AssertionError (rname = None \<or> rname = Some (Byt oid_PasswordModify))) (\<lambda>_.
     let member = (\<lambda>k v. case v of None \<Rightarrow> []
                     | Some x \<Rightarrow> [toWire (OOctetString k (class_tag (COctetString k)) x)]);
         l = member LDAPPasswordModifyRequest_userIdentity userIdentity
             @ member LDAPPasswordModifyRequest_oldPasswd oldPasswd
             @ member LDAPPasswordModifyRequest_newPasswd newPasswd
     in bindE (BERSequence_toWire (class_tag (CSequence BERSequence)) l) (\<lambda>v.
          Inr (OExtendedRequest LDAPPasswordModifyRequest
                 (class_tag (CExtendedRequest LDAPPasswordModifyRequest))
                 (Byt oid_PasswordModify) (Some (Byt v)))))"

definition mkCancelRequest :: "pytext option \<Rightarrow> int option \<Rightarrow> exn + ber" where
  "mkCancelRequest rname cancelID =
     bindE (assertE AssertionError (rname = None \<or> rname = Some (Byt oid_Cancel))) (\<lambda>_.
     case cancelID of
       None \<Rightarrow> Inl AssertionError
     | Some i \<Rightarrow>
         bindE (BERSequence_toWire (class_tag (CSequence BERSequence))
                  [BERInteger_toWire (class_tag (CInteger BERInteger)) i]) (\<lambda>v.
           Inr (OExtendedRequest LDAPCancelRequest (class_tag (CExtendedRequest LDAPCancelRequest))
                  (Byt oid_Cancel) (Some (Byt v)))))"

definition mkStartTLSRequest :: "pytext option \<Rightarrow> exn + ber" where
  "mkStartTLSRequest rname =
     bindE (assertE AssertionError (rname = None \<or> rname = Some (Byt oid_StartTLS))) (\<lambda>_.
       Inr (OExtendedRequest LDAPStartTLSRequest
              (class_tag (CExtendedRequest LDAPStartTLSRequest)) (Byt oid_StartTLS) None))"

end
