(* ===== verification/LdapDecode.thy ===== *)
theory LdapDecode
  imports LdapWire
begin

text \<open>
  The decoder: the \<open>fromBER\<close> class methods of \<open>pureber.py\<close> and \<open>pureldap.py\<close>, and
  \<open>berDecodeObject\<close> and \<open>berDecodeMultiple\<close>, which call them and are called by them.
  A \<open>fromBER\<close> that decodes members is split in two: the context it decodes them in
  (\<open>member_ctx\<close>) and what it makes of the list (\<open>build\<close>), so that the recursion is one
  short function.
\<close>

section \<open>Taking members apart\<close>

definition nthE :: "'a list \<Rightarrow> nat \<Rightarrow> exn + 'a" where
  "nthE xs i = (if i < length xs then Inr (xs ! i) else Inl IndexError)"

text \<open>\<open>_octetString(x).value\<close>, and the other narrowing assertions.\<close>

fun as_octets :: "ber \<Rightarrow> exn + pytext" where
  "as_octets (OOctetString k t v) = Inr v"
| "as_octets _ = Inl AssertionError"

fun as_integer :: "ber \<Rightarrow> exn + int" where
  "as_integer (OInteger k t v) = Inr v"
| "as_integer _ = Inl AssertionError"

fun as_boolean :: "ber \<Rightarrow> exn + int" where
  "as_boolean (OBoolean k t v) = Inr v"
| "as_boolean _ = Inl AssertionError"

definition as_sequence :: "ber \<Rightarrow> exn + ber list" where
  "as_sequence x = (case seq_data x of Some xs \<Rightarrow> Inr xs | None \<Rightarrow> Inl AssertionError)"

fun is_octets :: "ber \<Rightarrow> bool" where
  "is_octets (OOctetString k t v) = True"
| "is_octets _ = False"

fun is_octets_of :: "octet_cls \<Rightarrow> ber \<Rightarrow> bool" where
  "is_octets_of c (OOctetString k t v) = (k = c)"
| "is_octets_of c _ = False"

fun as_control :: "ber \<Rightarrow> exn + control" where
  "as_control (OControl t ty cr val) = Inr (ty, cr, val)"
| "as_control _ = Inl AssertionError"

definition referral_uris :: "ber \<Rightarrow> exn + pytext list" where
  "referral_uris x =
     (case x of
        OSequence LDAPReferral t uris \<Rightarrow>
          mapE (\<lambda>uri. bindE (as_octets uri) (\<lambda>v. Inr (Byt (to_bytes v)))) uris
      | _ \<Rightarrow> Inl AssertionError)"

section \<open>The second half of each \<open>fromBER\<close>\<close>

definition build_LDAPMessage :: "byte \<Rightarrow> ber list \<Rightarrow> exn + ber" where
  "build_LDAPMessage t l =
     bindE (nthE l 0) (\<lambda>x. bindE (as_integer x) (\<lambda>i.
     bindE (nthE l 1) (\<lambda>v.
     bindE (if drop 2 l \<noteq> [] then
              (case l ! 2 of
                 OSequence LDAPControls _ cs \<Rightarrow> bindE (mapE as_control cs) (\<lambda>cs'. Inr (Some cs'))
               | _ \<Rightarrow> Inl AssertionError)
            else Inr None) (\<lambda>controls.
     bindE (assertE AssertionError (drop 3 l = [])) (\<lambda>_.
       Inr (OMessage t i v controls))))))"

definition build_LDAPBindRequest :: "byte \<Rightarrow> ber list \<Rightarrow> exn + ber" where
  "build_LDAPBindRequest t l =
     bindE (nthE l 0) (\<lambda>version. bindE (nthE l 1) (\<lambda>dn. bindE (nthE l 2) (\<lambda>credentials.
     bindE (as_integer version) (\<lambda>version'. bindE (as_octets dn) (\<lambda>dn'.
     (case credentials of
        OOctetString _ _ pw \<Rightarrow> Inr (OBindRequest t version' dn' (Simple pw) False)
      | _ \<Rightarrow>
         (case seq_data credentials of
            Some xs \<Rightarrow>
              bindE (nthE xs 0) (\<lambda>mechanism. bindE (as_octets mechanism) (\<lambda>mech.
              if length xs = 2 then
                bindE (nthE xs 1) (\<lambda>secret. bindE (as_octets secret) (\<lambda>s.
                  Inr (OBindRequest t version' dn' (Sasl mech (Some s)) True)))
              else Inr (OBindRequest t version' dn' (Sasl mech None) True)))
          | None \<Rightarrow> Inr (OBindRequest t version' dn' (Simple (Str [])) False))))))))"

text \<open>\<open>LDAPSearchResultReference.fromBER\<close> drops the tag it is handed.\<close>

definition build_LDAPSearchResultReference :: "ber list \<Rightarrow> exn + ber" where
  "build_LDAPSearchResultReference l =
     Inr (OSearchResultReference (class_tag LDAPSearchResultReference) l)"

definition build_LDAPResult :: "result_cls \<Rightarrow> byte \<Rightarrow> ber list \<Rightarrow> exn + ber" where
  "build_LDAPResult k t l =
     bindE (assertE AssertionError (3 \<le> length l \<and> length l \<le> 4)) (\<lambda>_.
     bindE (as_integer (l ! 0)) (\<lambda>rc.
     bindE (as_octets (l ! 1)) (\<lambda>mdn.
     bindE (as_octets (l ! 2)) (\<lambda>msg.
     bindE (if drop 3 l \<noteq> [] then bindE (referral_uris (l ! 3)) (\<lambda>us. Inr (Some us)) else Inr None)
       (\<lambda>refs.
        Inr (OResult k t \<lparr>resultCode = rc, matchedDN = mdn, errorMessage = msg,
               referral = refs, serverSaslCreds = None\<rparr>))))))"

text \<open>The loop of \<open>LDAPBindResponse.fromBER\<close> over the optional members.\<close>

fun bind_response_optional ::
    "ber list \<Rightarrow> pytext option \<times> pytext list option \<Rightarrow> exn + (pytext option \<times> pytext list option)"
where
  "bind_response_optional [] st = Inr st"
| "bind_response_optional (x # xs) (creds, refs) =
     (case x of
        OOctetString LDAPBindResponse_serverSaslCreds _ v \<Rightarrow>
          bind_response_optional xs (Some v, refs)
      | _ \<Rightarrow> bindE (referral_uris x) (\<lambda>us. bind_response_optional xs (creds, Some us)))"

text \<open>\<open>LDAPBindResponse.__init__\<close> takes a tag and does not pass it on.\<close>

definition build_LDAPBindResponse :: "ber list \<Rightarrow> exn + ber" where
  "build_LDAPBindResponse l =
     bindE (assertE AssertionError (3 \<le> length l \<and> length l \<le> 5)) (\<lambda>_.
     bindE (bind_response_optional (drop 3 l) (None, None)) (\<lambda>(creds, refs).
     bindE (as_integer (l ! 0)) (\<lambda>rc.
     bindE (as_octets (l ! 1)) (\<lambda>mdn.
     bindE (as_octets (l ! 2)) (\<lambda>msg.
        Inr (OResult LDAPBindResponse (class_tag (CResult LDAPBindResponse))
               \<lparr>resultCode = rc, matchedDN = mdn, errorMessage = msg,
                referral = refs, serverSaslCreds = creds\<rparr>))))))"

fun extended_response_optional ::
    "ber list \<Rightarrow> pytext list option \<times> pytext option \<times> pytext option \<Rightarrow>
     exn + (pytext list option \<times> pytext option \<times> pytext option)" where
  "extended_response_optional [] st = Inr st"
| "extended_response_optional (x # xs) (refs, rname, resp) =
     (case x of
        OOctetString LDAPResponseName _ v \<Rightarrow> extended_response_optional xs (refs, Some v, resp)
      | OOctetString LDAPResponse _ v \<Rightarrow> extended_response_optional xs (refs, rname, Some v)
      | OSequence LDAPReferral _ _ \<Rightarrow>
          bindE (referral_uris x) (\<lambda>us. extended_response_optional xs (Some us, rname, resp))
      | _ \<Rightarrow> Inl AssertionError)"

definition build_LDAPExtendedResponse :: "extresp_cls \<Rightarrow> byte \<Rightarrow> ber list \<Rightarrow> exn + ber" where
  "build_LDAPExtendedResponse k t l =
     bindE (assertE AssertionError (3 \<le> length l \<and> length l \<le> 6)) (\<lambda>_.
     bindE (extended_response_optional (drop 3 l) (None, None, None)) (\<lambda>(refs, rname, resp).
     bindE (as_integer (l ! 0)) (\<lambda>rc.
     bindE (as_octets (l ! 1)) (\<lambda>mdn.
     bindE (as_octets (l ! 2)) (\<lambda>msg.
        Inr (OExtendedResponse k t
               \<lparr>resultCode = rc, matchedDN = mdn, errorMessage = msg,
                referral = refs, serverSaslCreds = None\<rparr> rname resp))))))"

definition build_LDAPAttributeValueAssertion ::
    "assertion_cls \<Rightarrow> byte \<Rightarrow> ber list \<Rightarrow> exn + ber" where
  "build_LDAPAttributeValueAssertion k t l =
     bindE (assertE AssertionError (length l = 2)) (\<lambda>_.
     bindE (assertE AssertionError (is_octets (l ! 0))) (\<lambda>_.
     bindE (assertE AssertionError (is_octets (l ! 1))) (\<lambda>_.
       Inr (OAttributeValueAssertion k t (l ! 0) (Some (l ! 1))))))"

definition build_LDAPFilter_substrings :: "byte \<Rightarrow> ber list \<Rightarrow> exn + ber" where
  "build_LDAPFilter_substrings t l =
     bindE (assertE AssertionError (length l = 2)) (\<lambda>_.
     bindE (as_octets (l ! 0)) (\<lambda>ty.
     bindE (as_sequence (l ! 1)) (\<lambda>subs.
     bindE (assertE AssertionError (length subs \<ge> 1)) (\<lambda>_.
       Inr (OFilter_substrings t ty subs)))))"

text \<open>The optional members of an assertion on a matching rule are taken off in order.\<close>

definition take_octets :: "octet_cls \<Rightarrow> ber list \<Rightarrow> ber option \<times> ber list" where
  "take_octets c l =
     (case l of x # xs \<Rightarrow> if is_octets_of c x then (Some x, xs) else (None, l) | [] \<Rightarrow> (None, l))"

definition take_dnAttributes :: "ber list \<Rightarrow> ber option" where
  "take_dnAttributes l =
     (case l of
        OBoolean LDAPMatchingRuleAssertion_dnAttributes t v # xs \<Rightarrow>
          Some (OBoolean LDAPMatchingRuleAssertion_dnAttributes t v)
      | _ \<Rightarrow> None)"

definition build_LDAPMatchingRuleAssertion :: "rule_cls \<Rightarrow> byte \<Rightarrow> ber list \<Rightarrow> exn + ber" where
  "build_LDAPMatchingRuleAssertion k t l =
     bindE (assertE AssertionError (1 \<le> length l \<and> length l \<le> 4)) (\<lambda>_.
     let (rule, l1) = take_octets LDAPMatchingRuleAssertion_matchingRule l;
         (atype, l2) = take_octets LDAPMatchingRuleAssertion_type l1;
         (value, l3) = take_octets LDAPMatchingRuleAssertion_matchValue l2;
         dnattrs = take_dnAttributes l3
     in case value of
          None \<Rightarrow> Inl AssertionError
        | Some v \<Rightarrow> Inr (OMatchingRuleAssertion k t rule atype v dnattrs))"

definition build_LDAPSearchRequest :: "byte \<Rightarrow> ber list \<Rightarrow> exn + ber" where
  "build_LDAPSearchRequest t l =
     bindE (assertE AssertionError (8 \<le> length l \<and> length l \<le> 8)) (\<lambda>_.
     bindE (as_octets (l ! 0)) (\<lambda>base.
     bindE (as_integer (l ! 1)) (\<lambda>sc.
     bindE (as_integer (l ! 2)) (\<lambda>deref.
     bindE (as_integer (l ! 3)) (\<lambda>size_limit.
     bindE (as_integer (l ! 4)) (\<lambda>time_limit.
     bindE (as_boolean (l ! 5)) (\<lambda>types_only.
     bindE (as_sequence (l ! 7)) (\<lambda>attributes.
     bindE (mapE as_octets attributes) (\<lambda>attrs.
       Inr (OSearchRequest t base sc deref size_limit time_limit types_only (l ! 6) attrs))))))))))"

text \<open>\<open>attr, li = _sequence(pair)\<close> refuses a pair of any other length.\<close>

definition unpack2 :: "'a list \<Rightarrow> exn + ('a \<times> 'a)" where
  "unpack2 xs = (case xs of [a, b] \<Rightarrow> Inr (a, b) | _ \<Rightarrow> Inl ValueError)"

definition build_LDAPSearchResultEntry :: "byte \<Rightarrow> ber list \<Rightarrow> exn + ber" where
  "build_LDAPSearchResultEntry t l =
     bindE (nthE l 0) (\<lambda>x. bindE (nthE l 1) (\<lambda>y.
     bindE (as_octets x) (\<lambda>name. bindE (as_sequence y) (\<lambda>entries.
     bindE (mapE (\<lambda>pair.
              bindE (as_sequence pair) (\<lambda>p. bindE (unpack2 p) (\<lambda>(attr, li).
              bindE (as_octets attr) (\<lambda>key.
              bindE (as_sequence li) (\<lambda>vals.
              bindE (mapE as_octets vals) (\<lambda>values. Inr (key, values)))))))
            entries) (\<lambda>attributes.
       Inr (OSearchResultEntry t name attributes))))))"

definition build_LDAPControl :: "byte \<Rightarrow> ber list \<Rightarrow> exn + ber" where
  "build_LDAPControl t l =
     bindE (assertE AssertionError (1 \<le> length l \<and> length l \<le> 3)) (\<lambda>_.
     bindE (if length l = 2 then
              (case l ! 1 of
                 OBoolean _ _ c \<Rightarrow> Inr (Some c, None)
               | OOctetString _ _ v \<Rightarrow> Inr (None, Some v)
               | _ \<Rightarrow> Inr (None, None))
            else if length l = 3 then
              bindE (as_boolean (l ! 1)) (\<lambda>c. bindE (as_octets (l ! 2)) (\<lambda>v.
                Inr (Some c, Some v)))
            else Inr (None, None)) (\<lambda>(cr, val).
     bindE (as_octets (l ! 0)) (\<lambda>ty.
       Inr (OControl t ty cr val))))"

definition build_LDAPModifyRequest :: "byte \<Rightarrow> ber list \<Rightarrow> exn + ber" where
  "build_LDAPModifyRequest t l =
     bindE (assertE AssertionError (length l = 2)) (\<lambda>_.
     bindE (as_sequence (l ! 1)) (\<lambda>mods.
     bindE (as_octets (l ! 0)) (\<lambda>obj.
       Inr (OModifyRequest t (Some obj) (Some mods)))))"

definition build_LDAPAddRequest :: "byte \<Rightarrow> ber list \<Rightarrow> exn + ber" where
  "build_LDAPAddRequest t l =
     bindE (nthE l 1) (\<lambda>x. bindE (as_sequence x) (\<lambda>attributes.
     bindE (nthE l 0) (\<lambda>y. bindE (as_octets y) (\<lambda>entry.
     bindE (mapE as_sequence attributes) (\<lambda>pairs.
       Inr (OAddRequest t (Some entry) (Some pairs)))))))"

definition build_LDAPModifyDNRequest :: "byte \<Rightarrow> ber list \<Rightarrow> exn + ber" where
  "build_LDAPModifyDNRequest t l =
     bindE (case nthE l 3 of
              Inl _ \<Rightarrow> Inr None
            | Inr x \<Rightarrow> bindE (as_octets x) (\<lambda>v. Inr (Some (Byt (to_bytes v))))) (\<lambda>superior.
     bindE (nthE l 2) (\<lambda>d. bindE (as_boolean d) (\<lambda>delold.
     bindE (nthE l 0) (\<lambda>x. bindE (as_octets x) (\<lambda>entry.
     bindE (nthE l 1) (\<lambda>y. bindE (as_octets y) (\<lambda>rdn.
       Inr (OModifyDNRequest t (Byt (to_bytes entry)) (Byt (to_bytes rdn)) delold superior))))))))"

definition build_LDAPCompareRequest :: "byte \<Rightarrow> ber list \<Rightarrow> exn + ber" where
  "build_LDAPCompareRequest t l =
     bindE (nthE l 1) (\<lambda>ava.
     (case ava of
        OAttributeValueAssertion k t' d v \<Rightarrow>
          bindE (as_octets (l ! 0)) (\<lambda>entry. Inr (OCompareRequest t entry ava))
      | _ \<Rightarrow> Inl AssertionError))"

text \<open>
  The subclasses of \<open>LDAPExtendedRequest\<close> inherit its \<open>fromBER\<close>, but their constructors take
  no \<open>requestValue\<close>.
\<close>

definition build_LDAPExtendedRequest :: "extreq_cls \<Rightarrow> byte \<Rightarrow> ber list \<Rightarrow> exn + ber" where
  "build_LDAPExtendedRequest k t l =
     bindE (case nthE l 1 of
              Inl _ \<Rightarrow> Inr None
            | Inr x \<Rightarrow> bindE (as_octets x) (\<lambda>v. Inr (Some v))) (\<lambda>value.
     bindE (nthE l 0) (\<lambda>x. bindE (as_octets x) (\<lambda>name.
     if k = LDAPExtendedRequest then Inr (OExtendedRequest k t name value)
     else Inl TypeError)))"

fun intermediate_response_loop ::
    "ber list \<Rightarrow> bytes option \<times> bytes option \<Rightarrow> exn + (bytes option \<times> bytes option)" where
  "intermediate_response_loop [] st = Inr st"
| "intermediate_response_loop (x # xs) (name, value) =
     bindE (as_octets x) (\<lambda>v.
       if otag x = CLASS_CONTEXT OR 0x00
       then intermediate_response_loop xs (Some (to_bytes v), value)
       else intermediate_response_loop xs (name, Some (to_bytes v)))"

definition build_LDAPIntermediateResponse :: "byte \<Rightarrow> ber list \<Rightarrow> exn + ber" where
  "build_LDAPIntermediateResponse t l =
     bindE (intermediate_response_loop l (None, None)) (\<lambda>(name, value).
       Inr (OIntermediateResponse t name value))"

fun build :: "cls \<Rightarrow> byte \<Rightarrow> ber list \<Rightarrow> exn + ber" where
  "build (CSequence k) t l = Inr (OSequence k t l)"
| "build LDAPMessage t l = build_LDAPMessage t l"
| "build LDAPBindRequest t l = build_LDAPBindRequest t l"
| "build LDAPSearchResultReference t l = build_LDAPSearchResultReference l"
| "build (CResult k) t l =
     (if k = LDAPBindResponse then build_LDAPBindResponse l else build_LDAPResult k t l)"
| "build (CExtendedResponse k) t l = build_LDAPExtendedResponse k t l"
| "build (CAssertion k) t l = build_LDAPAttributeValueAssertion k t l"
| "build LDAPFilter_substrings t l = build_LDAPFilter_substrings t l"
| "build (CRuleAssertion k) t l = build_LDAPMatchingRuleAssertion k t l"
| "build LDAPSearchRequest t l = build_LDAPSearchRequest t l"
| "build LDAPSearchResultEntry t l = build_LDAPSearchResultEntry t l"
| "build LDAPControl t l = build_LDAPControl t l"
| "build LDAPModifyRequest t l = build_LDAPModifyRequest t l"
| "build LDAPAddRequest t l = build_LDAPAddRequest t l"
| "build LDAPModifyDNRequest t l = build_LDAPModifyDNRequest t l"
| "build LDAPCompareRequest t l = build_LDAPCompareRequest t l"
| "build (CExtendedRequest k) t l = build_LDAPExtendedRequest k t l"
| "build LDAPIntermediateResponse t l = build_LDAPIntermediateResponse t l"
| "build _ t l = Inl TypeError"

section \<open>The contexts members are decoded in\<close>

fun member_ctx :: "cls \<Rightarrow> ctx \<Rightarrow> ctx" where
  "member_ctx LDAPBindRequest b = Ctx LDAPBERDecoderContext_LDAPBindRequest (Some b) None"
| "member_ctx LDAPSearchResultReference b =
     Ctx LDAPBERDecoderContext_LDAPSearchResultReference (Some b) None"
| "member_ctx (CResult k) b =
     Ctx (if k = LDAPBindResponse then LDAPBERDecoderContext_BindResponse
          else LDAPBERDecoderContext_LDAPResult) (Some b) None"
| "member_ctx (CExtendedResponse k) b =
     Ctx LDAPBERDecoderContext_LDAPExtendedResponse (Some b) None"
| "member_ctx (CSequence k) b =
     (if k = LDAPFilter_and \<or> k = LDAPFilter_or
      then Ctx LDAPBERDecoderContext_Filter (Some b) None
      else if k = LDAPControls then Ctx LDAPBERDecoderContext_LDAPControls None (Some b)
      else b)"
| "member_ctx LDAPFilter_not b = Ctx LDAPBERDecoderContext_Filter (Some b) (Some b)"
| "member_ctx LDAPFilter_substrings b =
     Ctx LDAPBERDecoderContext_Filter_substrings (Some b) None"
| "member_ctx (CRuleAssertion k) b =
     Ctx LDAPBERDecoderContext_MatchingRuleAssertion (Some b) (Some b)"
| "member_ctx LDAPSearchRequest b = Ctx LDAPBERDecoderContext_Filter (Some b) (Some b)"
| "member_ctx LDAPSearchResultEntry b = Ctx LDAPBERDecoderContext_Filter (Some b) (Some b)"
| "member_ctx LDAPModifyDNRequest b = Ctx LDAPBERDecoderContext_ModifyDNRequest (Some b) None"
| "member_ctx LDAPCompareRequest b = Ctx LDAPBERDecoderContext_Compare (Some b) (Some b)"
| "member_ctx (CExtendedRequest k) b =
     Ctx LDAPBERDecoderContext_LDAPExtendedRequest (Some b) None"
| "member_ctx LDAPIntermediateResponse b =
     Ctx LDAPBERDecoderContext_LDAPIntermediateResponse (Some b) None"
| "member_ctx _ b = b"

section \<open>The decoder\<close>

text \<open>
  \<open>fromBER c t content b\<close> is \<open>c.fromBER(t, content, b)\<close>; \<open>decode_body ctx i content\<close> is the
  second half of \<open>berDecodeObject\<close>, after the header, with \<open>None\<close> for a tag the context does
  not know. The two uses of \<open>berDecodeObject\<close> inside the recursion are written as header and
  body, whose progress the header alone shows; \<open>berDecodeMultiple_eq\<close> and
  \<open>fromBER_not\<close> below restore the calls.
\<close>

function fromBER :: "cls \<Rightarrow> byte \<Rightarrow> bytes \<Rightarrow> ctx \<Rightarrow> exn + ber"
  and decode_body :: "ctx \<Rightarrow> byte \<Rightarrow> bytes \<Rightarrow> exn + ber option"
  and berDecodeMultiple :: "bytes \<Rightarrow> ctx \<Rightarrow> exn + ber list"
where
  "fromBER c t content b =
     (case c of
        CInteger k \<Rightarrow>
          bindE (assertE AssertionError (content \<noteq> [])) (\<lambda>_.
          bindE (ber2int content True) (\<lambda>v. Inr (OInteger k t v)))
      | COctetString k \<Rightarrow> Inr (OOctetString k t (Byt content))
      | CNull k \<Rightarrow> bindE (assertE AssertionError (content = [])) (\<lambda>_. Inr (ONull k t))
      | CBoolean k \<Rightarrow>
          bindE (assertE AssertionError (content \<noteq> [])) (\<lambda>_.
          bindE (ber2int content True) (\<lambda>v. Inr (mkBoolean k t v)))
      | LDAPFilter_not \<Rightarrow>
          if content = [] then Inl AssertionError
          else
            bindE (ber_header content) (\<lambda>(i, m2, used).
            bindE (decode_body (member_ctx LDAPFilter_not b) i m2) (\<lambda>value.
            bindE (assertE AssertionError (used = int (length content))) (\<lambda>_.
              (case value of None \<Rightarrow> Inl AssertionError | Some v \<Rightarrow> Inr (OFilter_not t v)))))
      | _ \<Rightarrow> bindE (berDecodeMultiple content (member_ctx c b)) (build c t))"
| "decode_body ctx i content =
     (case lookup_id ctx i of
        None \<Rightarrow> Inr None
      | Some c \<Rightarrow> bindE (fromBER c i content (inherit ctx)) (\<lambda>r. Inr (Some r)))"
| "berDecodeMultiple content ctx =
     (if content = [] then Inr []
      else
        bindE (ber_header content) (\<lambda>(i, m2, used).
        bindE (decode_body ctx i m2) (\<lambda>n.
        bindE (assertE AssertionError (used \<le> int (length content))) (\<lambda>_.
        bindE (berDecodeMultiple (drop (nat used) content) ctx) (\<lambda>l.
          Inr (case n of None \<Rightarrow> l | Some x \<Rightarrow> x # l))))))"
  by pat_completeness auto
termination
proof (relation "measures
    [\<lambda>x. case x of Inl (c, t, content, b) \<Rightarrow> length content
       | Inr (Inl (ctx, i, content)) \<Rightarrow> length content
       | Inr (Inr (content, ctx)) \<Rightarrow> length content,
     \<lambda>x. case x of Inl _ \<Rightarrow> 1 | Inr (Inl _) \<Rightarrow> 2 | Inr (Inr _) \<Rightarrow> 0]", goal_cases)
qed (auto dest: ber_header_bounds)

definition berDecodeObject :: "ctx \<Rightarrow> bytes \<Rightarrow> exn + (ber option \<times> int)" where
  "berDecodeObject ctx m =
     (if m = [] then Inr (None, 0)
      else
        bindE (ber_header m) (\<lambda>(i, m2, used).
        bindE (decode_body ctx i m2) (\<lambda>r. Inr (r, used))))"

declare fromBER.simps [simp del] decode_body.simps [simp del] berDecodeMultiple.simps [simp del]

section \<open>Lemmas: one equation per kind of class\<close>

lemma fromBER_leaf [decode_simps]:
  "fromBER (CInteger ki) t content b =
     bindE (assertE AssertionError (content \<noteq> [])) (\<lambda>_.
     bindE (ber2int content True) (\<lambda>v. Inr (OInteger ki t v)))"
  "fromBER (COctetString ko) t content b = Inr (OOctetString ko t (Byt content))"
  "fromBER (CNull kn) t content b =
     bindE (assertE AssertionError (content = [])) (\<lambda>_. Inr (ONull kn t))"
  "fromBER (CBoolean kb) t content b =
     bindE (assertE AssertionError (content \<noteq> [])) (\<lambda>_.
     bindE (ber2int content True) (\<lambda>v. Inr (mkBoolean kb t v)))"
  by (simp_all add: fromBER.simps)

fun has_members :: "cls \<Rightarrow> bool" where
  "has_members (CInteger k) = False"
| "has_members (COctetString k) = False"
| "has_members (CNull k) = False"
| "has_members (CBoolean k) = False"
| "has_members LDAPFilter_not = False"
| "has_members _ = True"

lemma fromBER_members:
  "has_members c \<Longrightarrow>
   fromBER c t content b = bindE (berDecodeMultiple content (member_ctx c b)) (build c t)"
  by (cases c) (simp_all add: fromBER.simps)

text \<open>The call of \<open>berDecodeObject\<close> in \<open>LDAPFilter_not.fromBER\<close>, and in \<open>berDecodeMultiple\<close>.\<close>

lemma fromBER_not:
  "fromBER LDAPFilter_not t content b =
     bindE (berDecodeObject (Ctx LDAPBERDecoderContext_Filter (Some b) (Some b)) content)
       (\<lambda>(value, used).
        bindE (assertE AssertionError (used = int (length content))) (\<lambda>_.
          (case value of None \<Rightarrow> Inl AssertionError | Some v \<Rightarrow> Inr (OFilter_not t v))))"
  by (cases "ber_header content") (auto simp: fromBER.simps berDecodeObject_def bindE_assoc)

lemma berDecodeMultiple_eq:
  "berDecodeMultiple content ctx =
     (if content = [] then Inr []
      else
        bindE (berDecodeObject ctx content) (\<lambda>(n, used).
        bindE (assertE AssertionError (used \<le> int (length content))) (\<lambda>_.
        bindE (berDecodeMultiple (drop (nat used) content) ctx) (\<lambda>l.
          Inr (case n of None \<Rightarrow> l | Some x \<Rightarrow> x # l)))))"
  by (cases "ber_header content")
    (auto simp: berDecodeMultiple.simps[of content] berDecodeObject_def bindE_assoc)

lemma berDecodeObject_Nil [simp]: "berDecodeObject ctx [] = Inr (None, 0)"
  by (simp add: berDecodeObject_def)

lemma berDecodeMultiple_Nil [simp]: "berDecodeMultiple [] ctx = Inr []"
  by (simp add: berDecodeMultiple.simps)

section \<open>Lemmas: progress and stability of the decoder\<close>

lemma berDecodeObject_bounds:
  assumes "berDecodeObject ctx m = Inr (r, used)"
  shows "0 \<le> used \<and> used \<le> int (length m) \<and> (m \<noteq> [] \<longrightarrow> 2 \<le> used) \<and> (r \<noteq> None \<longrightarrow> m \<noteq> [])"
  using assms
  by (auto simp: berDecodeObject_def split: if_splits dest!: ber_header_bounds)

lemma berDecodeObject_append:
  assumes "berDecodeObject ctx m = Inr (r, used)" and "m \<noteq> []"
  shows "berDecodeObject ctx (m @ rest) = Inr (r, used)"
proof -
  obtain i m2 where "ber_header m = Inr (i, m2, used)" "decode_body ctx i m2 = Inr r"
    using assms by (auto simp: berDecodeObject_def)
  then show ?thesis using assms(2) by (simp add: berDecodeObject_def ber_header_append)
qed

lemma berDecodeObject_error_cases:
  assumes "berDecodeObject ctx m = Inl e"
  obtains d where "0 < d" "e = BERExceptionInsufficientData d" "ber_header m = Inl e"
  | i m2 used where "ber_header m = Inr (i, m2, used)" "decode_body ctx i m2 = Inl e"
proof (cases "ber_header m")
  case (Inl e')
  then have "e' = e" using assms by (auto simp: berDecodeObject_def split: if_splits)
  with Inl that(1) ber_header_error[OF Inl] show ?thesis by auto
next
  case (Inr h)
  then show ?thesis using assms that(2)
    by (cases h) (auto simp: berDecodeObject_def bindE_eq_Inl split: if_splits)
qed

text \<open>An error found inside a complete object stays whatever arrives behind the object.\<close>

lemma berDecodeObject_body_error_append:
  assumes "ber_header m = Inr (i, m2, used)" and "decode_body ctx i m2 = Inl e"
  shows "berDecodeObject ctx (m @ rest) = Inl e"
proof -
  have "m \<noteq> []" using ber_header_bounds[OF assms(1)] by auto
  then show ?thesis using assms by (simp add: berDecodeObject_def ber_header_append)
qed

lemma berDecodeObject_error_append:
  assumes "berDecodeObject ctx m = Inl e" and "\<And>d. e \<noteq> BERExceptionInsufficientData d"
  shows "berDecodeObject ctx (m @ rest) = Inl e"
  using assms by (metis berDecodeObject_error_cases berDecodeObject_body_error_append)

section \<open>Lemmas: what an encoding decodes to\<close>

text \<open>\<open>w\<close> is one complete object that \<open>ctx\<close> decodes to \<open>x\<close>.\<close>

definition decodes :: "ctx \<Rightarrow> bytes \<Rightarrow> ber \<Rightarrow> bool" where
  "decodes ctx w x \<longleftrightarrow>
     (\<exists>t lw content. w = t # lw @ content \<and> int2berlen (int (length content)) = Inr lw \<and>
        decode_body ctx (t AND 0xDF) content = Inr (Some x))"

lemma decodes_nonempty: "decodes ctx w x \<Longrightarrow> w \<noteq> []"
  by (auto simp: decodes_def)

lemma decodes_tlv:
  assumes "tlv t content = Inr w" and "decode_body ctx (t AND 0xDF) content = Inr (Some x)"
  shows "decodes ctx w x"
  using assms by (auto simp: decodes_def tlv_def)

lemma berDecodeObject_decodes:
  assumes "decodes ctx w x"
  shows "berDecodeObject ctx (w @ rest) = Inr (Some x, int (length w))"
  using assms by (auto simp: decodes_def berDecodeObject_def ber_header_wire)

lemma berDecodeMultiple_decodes:
  "list_all2 (decodes ctx) ws xs \<Longrightarrow> berDecodeMultiple (concat ws) ctx = Inr xs"
proof (induction ws xs rule: list_all2_induct)
  case (Cons w ws x xs)
  then show ?case
    using decodes_nonempty[of ctx w x]
    by (subst berDecodeMultiple_eq) (simp add: berDecodeObject_decodes)
qed simp

text \<open>A sequence of members that decode, whose list \<open>build\<close> accepts, decodes.\<close>

lemma structured_and: "(STRUCTURED OR t) AND 0xDF = t AND 0xDF"
  by (simp add: STRUCTURED_def bit.conj_disj_distrib2)

lemma decodes_sequence:
  assumes w: "BERSequence_toWire t ws = Inr w"
    and c: "lookup_id ctx (t AND 0xDF) = Some c" "has_members c"
    and members: "\<And>ws'. ws = map Inr ws' \<Longrightarrow> list_all2 (decodes (member_ctx c (inherit ctx))) ws' xs"
    and x: "build c (t AND 0xDF) xs = Inr x"
  shows "decodes ctx w x"
proof -
  obtain ws' where ws': "sequenceE ws = Inr ws'" and tlv: "tlv (STRUCTURED OR t) (concat ws') = Inr w"
    using w by (auto simp: BERSequence_toWire_def)
  have "ws = map Inr ws'" using ws'
    by (induction ws arbitrary: ws') auto
  then have "berDecodeMultiple (concat ws') (member_ctx c (inherit ctx)) = Inr xs"
    by (intro berDecodeMultiple_decodes members)
  then have "decode_body ctx (t AND 0xDF) (concat ws') = Inr (Some x)"
    using c x by (simp add: decode_body.simps fromBER_members)
  then show ?thesis by (intro decodes_tlv[OF tlv]) (simp add: structured_and)
qed

end
