(* ===== verification/LdapRoundtrip.thy ===== *)
theory LdapRoundtrip
  imports LdapDecode
begin

text \<open>
  What the encoder writes, the decoder reads back: a rule per encoder, in the form "if it
  encodes, it decodes" (\<open>decodesE\<close>), then search filters of any depth, then every protocol
  operation, then whole messages in the context of the server and the client.
\<close>

section \<open>If it encodes, it decodes\<close>

definition decodesE :: "ctx \<Rightarrow> exn + bytes \<Rightarrow> ber \<Rightarrow> bool" where
  "decodesE ctx w x \<longleftrightarrow> (\<forall>w'. w = Inr w' \<longrightarrow> decodes ctx w' x)"

named_theorems roundtrip \<open>introduction rules of decodesE\<close>

lemma decodesE_tlv:
  "decode_body ctx (t AND 0xDF) content = Inr (Some x) \<Longrightarrow> decodesE ctx (tlv t content) x"
  by (auto simp: decodesE_def intro: decodes_tlv)

lemma decodesE_octets [roundtrip]:
  "lookup_id ctx (t AND 0xDF) = Some (COctetString k) \<Longrightarrow> x = OOctetString k (t AND 0xDF) (canon v) \<Longrightarrow>
   decodesE ctx (BEROctetString_toWire t v) x"
  by (simp add: BEROctetString_toWire_def)
    (rule decodesE_tlv, simp add: decode_body.simps decode_simps)

lemma decodesE_integer [roundtrip]:
  "lookup_id ctx (t AND 0xDF) = Some (CInteger k) \<Longrightarrow> x = OInteger k (t AND 0xDF) v \<Longrightarrow>
   decodesE ctx (BERInteger_toWire t v) x"
  by (simp add: BERInteger_toWire_def)
    (rule decodesE_tlv, simp add: decode_body.simps decode_simps ber2int_int2ber_signed)

lemma int2berlen_small: "0 \<le> n \<Longrightarrow> n \<le> 127 \<Longrightarrow> int2berlen n = Inr [word_of_int n]"
  by (simp add: int2berlen_def int2ber_small)

lemma decodesE_boolean [roundtrip]:
  "lookup_id ctx (t AND 0xDF) = Some (CBoolean k) \<Longrightarrow> x = OBoolean k (t AND 0xDF) v \<Longrightarrow>
   decodesE ctx (BERBoolean_toWire t v) x"
proof -
  assume *: "lookup_id ctx (t AND 0xDF) = Some (CBoolean k)" "x = OBoolean k (t AND 0xDF) v"
  have "decodesE ctx (tlv t [word_of_int v]) x" if "v = 0 \<or> v = 0xFF"
    using that * 
    by (intro decodesE_tlv)
      (auto simp: decode_body.simps decode_simps ber2int_signed mkBoolean_def truth_value_def)
  then show ?thesis
    by (auto simp: BERBoolean_toWire_def decodesE_def tlv_def int2berlen_small)
qed

lemma decodesE_null [roundtrip]:
  "lookup_id ctx (t AND 0xDF) = Some (CNull k) \<Longrightarrow> x = ONull k (t AND 0xDF) \<Longrightarrow>
   decodesE ctx (BERNull_toWire t) x"
proof -
  assume *: "lookup_id ctx (t AND 0xDF) = Some (CNull k)" "x = ONull k (t AND 0xDF)"
  then have "decodesE ctx (tlv t []) x"
    by (intro decodesE_tlv) (simp add: decode_body.simps decode_simps)
  then show ?thesis by (simp add: BERNull_toWire_def tlv_def int2berlen_small)
qed

lemma list_all2_decodes:
  "list_all2 (decodesE ctx) (map Inr ws) xs \<longleftrightarrow> list_all2 (decodes ctx) ws xs"
  by (simp add: list_all2_map1 decodesE_def)

lemma decodesE_sequence:
  assumes "lookup_id ctx (t AND 0xDF) = Some c" and "has_members c"
    and "list_all2 (decodesE (member_ctx c (inherit ctx))) ws xs"
    and "build c (t AND 0xDF) xs = Inr x"
  shows "decodesE ctx (BERSequence_toWire t ws) x"
  unfolding decodesE_def
proof (intro allI impI)
  fix w assume "BERSequence_toWire t ws = Inr w"
  then show "decodes ctx w x"
    using assms by (elim decodes_sequence) (auto simp: list_all2_decodes)
qed

lemma decodesE_Inl [simp]: "decodesE ctx (Inl e) x"
  by (simp add: decodesE_def)

lemma decodesE_not:
  assumes "lookup_id ctx (t AND 0xDF) = Some LDAPFilter_not"
    and "decodesE (Ctx LDAPBERDecoderContext_Filter (Some (inherit ctx)) (Some (inherit ctx))) w x"
  shows "decodesE ctx (bindE w (\<lambda>w. tlv (STRUCTURED OR t) w)) (OFilter_not (t AND 0xDF) x)"
proof (cases w)
  case (Inr v)
  then have d: "decodes (Ctx LDAPBERDecoderContext_Filter (Some (inherit ctx)) (Some (inherit ctx))) v x"
    using assms(2) by (simp add: decodesE_def)
  have "decode_body ctx (t AND 0xDF) v = Inr (Some (OFilter_not (t AND 0xDF) x))"
    using assms(1) berDecodeObject_decodes[OF d, of "[]"]
    by (simp add: decode_body.simps fromBER_not)
  then have "decodesE ctx (tlv (STRUCTURED OR t) v) (OFilter_not (t AND 0xDF) x)"
    by (intro decodesE_tlv) (simp add: structured_and)
  then show ?thesis using Inr by simp
qed simp

section \<open>Filters\<close>

text \<open>
  The filters that the code builds (in \<open>ldapfilter.py\<close>, in \<open>_fetch.py\<close> or by decoding):
  every object has the tag of its class, an assertion has its value, a substrings filter has a
  substring.
\<close>

definition plain_octets :: "ber \<Rightarrow> bool" where
  "plain_octets x = (case x of OOctetString k t v \<Rightarrow> t = 0x04 | _ \<Rightarrow> False)"

definition octets_of :: "octet_cls \<Rightarrow> ber \<Rightarrow> bool" where
  "octets_of k x = (case x of OOctetString k' t v \<Rightarrow> k' = k \<and> t = class_tag (COctetString k) | _ \<Rightarrow> False)"

definition dn_flag :: "ber \<Rightarrow> bool" where
  "dn_flag x = (case x of OBoolean k t v \<Rightarrow> k = LDAPMatchingRuleAssertion_dnAttributes \<and> t = 0x84 \<and> v \<in> {0, 0xFF} | _ \<Rightarrow> False)"

definition substring_part :: "ber \<Rightarrow> bool" where
  "substring_part x \<longleftrightarrow>
     octets_of LDAPFilter_substrings_initial x \<or> octets_of LDAPFilter_substrings_any x \<or>
     octets_of LDAPFilter_substrings_final x"

fun opt_all :: "('a \<Rightarrow> bool) \<Rightarrow> 'a option \<Rightarrow> bool" where
  "opt_all P None = True"
| "opt_all P (Some x) = P x"

definition wf_assertion :: "byte \<Rightarrow> ber \<Rightarrow> ber option \<Rightarrow> bool" where
  "wf_assertion t d v \<longleftrightarrow> plain_octets d \<and> (case v of None \<Rightarrow> False | Some y \<Rightarrow> plain_octets y)"

fun wf_filter :: "ber \<Rightarrow> bool" where
  "wf_filter (OSequence k t xs) \<longleftrightarrow>
     (k = LDAPFilter_and \<or> k = LDAPFilter_or) \<and> t = class_tag (CSequence k) \<and>
     (\<forall>x \<in> set xs. wf_filter x)"
| "wf_filter (OFilter_not t x) \<longleftrightarrow> t = class_tag LDAPFilter_not \<and> wf_filter x"
| "wf_filter (OAttributeValueAssertion k t d v) \<longleftrightarrow>
     k \<noteq> LDAPAttributeValueAssertion \<and> t = class_tag (CAssertion k) \<and> wf_assertion t d v"
| "wf_filter (OFilter_substrings t ty subs) \<longleftrightarrow>
     t = class_tag LDAPFilter_substrings \<and> subs \<noteq> [] \<and> list_all substring_part subs"
| "wf_filter (OOctetString k t v) \<longleftrightarrow> k = LDAPFilter_present \<and> t = class_tag (COctetString k)"
| "wf_filter (OMatchingRuleAssertion k t rule ty v d) \<longleftrightarrow>
     k = LDAPFilter_extensibleMatch \<and> t = class_tag (CRuleAssertion k) \<and>
     opt_all (octets_of LDAPMatchingRuleAssertion_matchingRule) rule \<and>
     opt_all (octets_of LDAPMatchingRuleAssertion_type) ty \<and>
     octets_of LDAPMatchingRuleAssertion_matchValue v \<and> opt_all dn_flag d"
| "wf_filter _ \<longleftrightarrow> False"

text \<open>What a decoded filter is: the same, with every text as the bytes it was sent as.\<close>

definition canon_octets :: "octet_cls \<Rightarrow> ber \<Rightarrow> ber" where
  "canon_octets k x = OOctetString k (otag x) (canon (svalue x))"

fun canon_part :: "ber \<Rightarrow> ber" where
  "canon_part (OOctetString k t v) = OOctetString k t (canon v)"
| "canon_part x = x"

fun canon_filter :: "ber \<Rightarrow> ber" where
  "canon_filter (OSequence k t xs) = OSequence k t (map canon_filter xs)"
| "canon_filter (OFilter_not t x) = OFilter_not t (canon_filter x)"
| "canon_filter (OAttributeValueAssertion k t d v) =
     OAttributeValueAssertion k t (canon_octets BEROctetString d)
       (map_option (canon_octets BEROctetString) v)"
| "canon_filter (OFilter_substrings t ty subs) =
     OFilter_substrings t (canon ty) (map canon_part subs)"
| "canon_filter (OOctetString k t v) = OOctetString k t (canon v)"
| "canon_filter (OMatchingRuleAssertion k t rule ty v d) =
     OMatchingRuleAssertion k t (map_option canon_part rule) (map_option canon_part ty)
       (canon_part v) d"
| "canon_filter x = x"

text \<open>A context that knows filters, and whose members are plain BER.\<close>

definition base_ctx :: "ctx \<Rightarrow> bool" where
  "base_ctx b \<longleftrightarrow> lookup_id b 0x04 = Some (COctetString BEROctetString) \<and>
     lookup_id b 0x10 = Some (CSequence BERSequence)"

definition filter_ctx :: "ctx \<Rightarrow> bool" where
  "filter_ctx ctx \<longleftrightarrow> base_ctx (inherit ctx) \<and>
     (\<forall>t c. map_of (Identities LDAPBERDecoderContext_Filter) t = Some c \<longrightarrow> lookup_id ctx t = Some c)"

lemma filter_ctxI: "base_ctx b \<Longrightarrow> inh = None \<or> inh = Some b \<Longrightarrow>
  filter_ctx (Ctx LDAPBERDecoderContext_Filter (Some b) inh)"
  by (auto simp: filter_ctx_def base_ctx_def inherit_def class_simps)

lemma filter_ctx_base: "filter_ctx ctx \<Longrightarrow> base_ctx (inherit ctx)"
  by (simp add: filter_ctx_def)

lemma filter_ctx_lookup:
  assumes "filter_ctx ctx"
  shows "lookup_id ctx 0x80 = Some (CSequence LDAPFilter_and)"
    "lookup_id ctx 0x81 = Some (CSequence LDAPFilter_or)"
    "lookup_id ctx 0x82 = Some LDAPFilter_not"
    "lookup_id ctx 0x83 = Some (CAssertion LDAPFilter_equalityMatch)"
    "lookup_id ctx 0x84 = Some LDAPFilter_substrings"
    "lookup_id ctx 0x85 = Some (CAssertion LDAPFilter_greaterOrEqual)"
    "lookup_id ctx 0x86 = Some (CAssertion LDAPFilter_lessOrEqual)"
    "lookup_id ctx 0x87 = Some (COctetString LDAPFilter_present)"
    "lookup_id ctx 0x88 = Some (CAssertion LDAPFilter_approxMatch)"
    "lookup_id ctx 0x89 = Some (CRuleAssertion LDAPFilter_extensibleMatch)"
  using assms by (simp_all add: filter_ctx_def class_simps)

lemma base_ctx_lookup:
  assumes "base_ctx b"
  shows "lookup_id b 0x04 = Some (COctetString BEROctetString)"
    "lookup_id b 0x10 = Some (CSequence BERSequence)"
  using assms by (simp_all add: base_ctx_def)

lemma decodesE_plain:
  "plain_octets x \<Longrightarrow> base_ctx b \<Longrightarrow> decodesE b (toWire x) (canon_octets BEROctetString x)"
  by (auto simp: plain_octets_def base_ctx_def canon_octets_def split: ber.splits intro!: roundtrip)

lemma decodesE_assertion:
  assumes "wf_assertion t d (Some v)" and "base_ctx (inherit ctx)"
    and "lookup_id ctx (t AND 0xDF) = Some (CAssertion k)"
  shows "decodesE ctx (BERSequence_toWire t [toWire d, toWire v])
    (OAttributeValueAssertion k (t AND 0xDF) (canon_octets BEROctetString d)
      (Some (canon_octets BEROctetString v)))"
  using assms
  by (intro decodesE_sequence[where xs = "[canon_octets BEROctetString d, canon_octets BEROctetString v]"])
    (auto simp: wf_assertion_def build_LDAPAttributeValueAssertion_def canon_octets_def
      intro: decodesE_plain[unfolded canon_octets_def])

lemma decodesE_octet_string [roundtrip]: 
  "base_ctx b \<Longrightarrow> decodesE b (octets v) (OOctetString BEROctetString 0x04 (canon v))"
  by (auto simp: octets_def base_ctx_def intro!: roundtrip)

lemma decodesE_substring_part:
  assumes "substring_part x"
  shows "decodesE (Ctx LDAPBERDecoderContext_Filter_substrings fb inh) (toWire x) (canon_part x)"
  using assms
  by (auto simp: substring_part_def octets_of_def class_simps split: ber.splits intro!: roundtrip)

lemma decodesE_substrings:
  assumes subs: "list_all substring_part subs" "subs \<noteq> []" and "base_ctx (inherit ctx)"
    and "lookup_id ctx (t AND 0xDF) = Some LDAPFilter_substrings"
  shows "decodesE ctx (BERSequence_toWire t
      [octets ty, BERSequence_toWire (class_tag (CSequence BERSequence)) (map toWire subs)])
    (OFilter_substrings (t AND 0xDF) (canon ty) (map canon_part subs))"
proof -
  let ?m = "Ctx LDAPBERDecoderContext_Filter_substrings (Some (inherit ctx)) None"
  have base: "base_ctx ?m" using assms(3) by (simp add: base_ctx_def class_simps)
  have "list_all2 (decodesE ?m) (map toWire subs) (map canon_part subs)"
    using subs(1) by (auto simp: list_all2_conv_all_nth list_all_length intro: decodesE_substring_part)
  then have "decodesE ?m (BERSequence_toWire 0x10 (map toWire subs))
      (OSequence BERSequence 0x10 (map canon_part subs))"
    using base by (intro decodesE_sequence) (auto simp: base_ctx_def inherit_def)
  then show ?thesis
    using assms base
    by (intro decodesE_sequence[where xs = "[OOctetString BEROctetString 0x04 (canon ty),
          OSequence BERSequence 0x10 (map canon_part subs)]"])
      (auto simp: build_LDAPFilter_substrings_def as_sequence_def Suc_le_eq intro!: roundtrip)
qed

lemma decodesE_option_part:
  assumes "opt_all (octets_of k) x" and "lookup_id ctx (class_tag (COctetString k)) = Some (COctetString k)"
    and "class_tag (COctetString k) AND 0xDF = class_tag (COctetString k)"
  shows "list_all2 (decodesE ctx) (case x of None \<Rightarrow> [] | Some y \<Rightarrow> [toWire y])
     (case map_option canon_part x of None \<Rightarrow> [] | Some y \<Rightarrow> [y])"
  using assms by (cases x) (auto simp: octets_of_def split: ber.splits intro!: roundtrip)

lemma build_LDAPMatchingRuleAssertion_members:
  assumes "opt_all (octets_of LDAPMatchingRuleAssertion_matchingRule) rule"
    and "opt_all (octets_of LDAPMatchingRuleAssertion_type) ty"
    and "octets_of LDAPMatchingRuleAssertion_matchValue v" and "opt_all dn_flag d"
  shows "build_LDAPMatchingRuleAssertion k t
      ((case map_option canon_part rule of None \<Rightarrow> [] | Some y \<Rightarrow> [y]) @
       (case map_option canon_part ty of None \<Rightarrow> [] | Some y \<Rightarrow> [y]) @
       [canon_part v] @ (case d of None \<Rightarrow> [] | Some y \<Rightarrow> [y])) =
    Inr (OMatchingRuleAssertion k t (map_option canon_part rule) (map_option canon_part ty)
       (canon_part v) d)"
  using assms
  by (cases rule; cases ty; cases d)
    (auto simp: build_LDAPMatchingRuleAssertion_def octets_of_def dn_flag_def take_octets_def
      take_dnAttributes_def split: ber.splits)

lemma decodesE_extensible:
  assumes parts: "opt_all (octets_of LDAPMatchingRuleAssertion_matchingRule) rule"
      "opt_all (octets_of LDAPMatchingRuleAssertion_type) ty"
      "octets_of LDAPMatchingRuleAssertion_matchValue v" "opt_all dn_flag d"
    and "lookup_id ctx (t AND 0xDF) = Some (CRuleAssertion k)"
  shows "decodesE ctx (toWire (OMatchingRuleAssertion k t rule ty v d))
    (OMatchingRuleAssertion k (t AND 0xDF) (map_option canon_part rule) (map_option canon_part ty)
       (canon_part v) d)"
proof -
  let ?m = "Ctx LDAPBERDecoderContext_MatchingRuleAssertion (Some (inherit ctx)) (Some (inherit ctx))"
  have "decodesE ?m (toWire v) (canon_part v)"
    using parts(3) by (auto simp: octets_of_def class_simps split: ber.splits intro!: roundtrip)
  moreover have "list_all2 (decodesE ?m) (case d of None \<Rightarrow> [] | Some y \<Rightarrow> [toWire y])
     (case d of None \<Rightarrow> [] | Some y \<Rightarrow> [y])"
    using parts(4) by (cases d) (auto simp: dn_flag_def class_simps split: ber.splits intro!: roundtrip)
  moreover note decodesE_option_part[OF parts(1), of ?m] decodesE_option_part[OF parts(2), of ?m]
  ultimately show ?thesis
    using assms(5) build_LDAPMatchingRuleAssertion_members[OF parts, of k "t AND 0xDF"]
    by (auto simp: class_simps intro!: decodesE_sequence list_all2_appendI)
qed

text \<open>A filter of any depth, in any context a filter can stand in.\<close>

lemma decodesE_filter:
  "wf_filter f \<Longrightarrow> filter_ctx ctx \<Longrightarrow> decodesE ctx (toWire f) (canon_filter f)"
proof (induction f arbitrary: ctx rule: wf_filter.induct)
  case (1 k t xs)
  let ?m = "Ctx LDAPBERDecoderContext_Filter (Some (inherit ctx)) None"
  have "filter_ctx ?m" using 1(3) by (intro filter_ctxI) (auto dest: filter_ctx_base)
  then have "list_all2 (decodesE ?m) (map toWire xs) (map canon_filter xs)"
    using 1 by (auto simp: list_all2_conv_all_nth)
  then show ?case
    using 1(2,3) by (auto simp: class_simps filter_ctx_lookup intro!: decodesE_sequence)
next
  case (2 t x)
  have "filter_ctx (Ctx LDAPBERDecoderContext_Filter (Some (inherit ctx)) (Some (inherit ctx)))"
    using 2(3) by (intro filter_ctxI) (auto dest: filter_ctx_base)
  then have "decodesE (Ctx LDAPBERDecoderContext_Filter (Some (inherit ctx)) (Some (inherit ctx)))
      (toWire x) (canon_filter x)" using 2 by simp
  from decodesE_not[OF _ this, of t] show ?case
    using 2(2,3) by (auto simp: class_simps filter_ctx_lookup)
next
  case (3 k t d v)
  then obtain y where "v = Some y" by (cases v) (auto simp: wf_assertion_def)
  with 3 decodesE_assertion[of t d y ctx k] show ?case
    by (cases k) (auto simp: class_simps filter_ctx_lookup dest: filter_ctx_base)
next
  case (4 t ty subs)
  with decodesE_substrings[of subs ctx t ty] show ?case
    by (auto simp: class_simps filter_ctx_lookup dest: filter_ctx_base)
next
  case (5 k t v)
  then show ?case by (auto simp: class_simps filter_ctx_lookup intro!: roundtrip)
next
  case (6 k t rule ty v d)
  with decodesE_extensible[of rule ty v d ctx t k] show ?case
    by (auto simp: class_simps filter_ctx_lookup)
qed auto

section \<open>The contexts of the server and the client\<close>

definition ber_ctx :: ctx where
  "ber_ctx = Ctx BERDecoderContext None None"

definition protocol_ctx :: ctx where
  "protocol_ctx = Ctx LDAPBERDecoderContext (Some ber_ctx) None"

definition message_ctx :: ctx where
  "message_ctx = Ctx LDAPBERDecoderContext_LDAPMessage (Some protocol_ctx) (Some protocol_ctx)"

text \<open>\<open>BaseLDAPServer.berdecoder\<close>, which is also \<open>LDAPClient.berdecoder\<close>.\<close>

definition berdecoder :: ctx where
  "berdecoder = Ctx LDAPBERDecoderContext_TopLevel None (Some message_ctx)"

lemma inherit_simps [simp]:
  "inherit protocol_ctx = protocol_ctx" "inherit message_ctx = protocol_ctx"
  "inherit berdecoder = message_ctx"
  by (simp_all add: inherit_def protocol_ctx_def message_ctx_def berdecoder_def)

lemmas ctx_defs = ber_ctx_def protocol_ctx_def message_ctx_def berdecoder_def

lemma protocol_lookup [simp]:
  "lookup_id protocol_ctx 0x01 = Some (CBoolean BERBoolean)"
  "lookup_id protocol_ctx 0x02 = Some (CInteger BERInteger)"
  "lookup_id protocol_ctx 0x04 = Some (COctetString BEROctetString)"
  "lookup_id protocol_ctx 0x05 = Some (CNull BERNull)"
  "lookup_id protocol_ctx 0x0A = Some (CInteger BEREnumerated)"
  "lookup_id protocol_ctx 0x10 = Some (CSequence BERSequence)"
  "lookup_id protocol_ctx 0x11 = Some (CSequence BERSet)"
  by (simp_all add: ctx_defs class_simps)

lemma message_lookup [simp]:
  "lookup_id message_ctx 0x02 = Some (CInteger BERInteger)"
  "lookup_id message_ctx 0x80 = Some (CSequence LDAPControls)"
  "lookup_id message_ctx 0x40 = Some LDAPBindRequest"
  "lookup_id message_ctx 0x41 = Some (CResult LDAPBindResponse)"
  "lookup_id message_ctx 0x42 = Some (CNull LDAPUnbindRequest)"
  "lookup_id message_ctx 0x43 = Some LDAPSearchRequest"
  "lookup_id message_ctx 0x44 = Some LDAPSearchResultEntry"
  "lookup_id message_ctx 0x45 = Some (CResult LDAPSearchResultDone)"
  "lookup_id message_ctx 0x46 = Some LDAPModifyRequest"
  "lookup_id message_ctx 0x47 = Some (CResult LDAPModifyResponse)"
  "lookup_id message_ctx 0x48 = Some LDAPAddRequest"
  "lookup_id message_ctx 0x49 = Some (CResult LDAPAddResponse)"
  "lookup_id message_ctx 0x4A = Some (COctetString LDAPDelRequest)"
  "lookup_id message_ctx 0x4B = Some (CResult LDAPDelResponse)"
  "lookup_id message_ctx 0x4C = Some LDAPModifyDNRequest"
  "lookup_id message_ctx 0x4D = Some (CResult LDAPModifyDNResponse)"
  "lookup_id message_ctx 0x4E = Some LDAPCompareRequest"
  "lookup_id message_ctx 0x4F = Some (CResult LDAPCompareResponse)"
  "lookup_id message_ctx 0x50 = Some (CInteger LDAPAbandonRequest)"
  "lookup_id message_ctx 0x53 = Some LDAPSearchResultReference"
  "lookup_id message_ctx 0x57 = Some (CExtendedRequest LDAPExtendedRequest)"
  "lookup_id message_ctx 0x58 = Some (CExtendedResponse LDAPExtendedResponse)"
  "lookup_id message_ctx 0x59 = Some LDAPIntermediateResponse"
  by (simp_all add: ctx_defs class_simps)

lemma berdecoder_lookup [simp]: "lookup_id berdecoder 0x10 = Some LDAPMessage"
  by (simp add: ctx_defs class_simps)

lemma protocol_base [simp]: "base_ctx protocol_ctx"
  by (simp add: base_ctx_def)

lemma extended_base [simp]:
  "map_of (Identities c) 0x04 = None \<Longrightarrow> map_of (Identities c) 0x10 = None \<Longrightarrow>
   base_ctx b \<Longrightarrow> base_ctx (Ctx c (Some b) inh)"
  by (simp add: base_ctx_def)

section \<open>Plain BER trees\<close>

text \<open>Objects of the universal classes, as modifications and attribute lists are made of.\<close>

fun wf_tree :: "ber \<Rightarrow> bool" where
  "wf_tree (OInteger k t v) \<longleftrightarrow> k \<in> {BERInteger, BEREnumerated} \<and> t = class_tag (CInteger k)"
| "wf_tree (OOctetString k t v) \<longleftrightarrow> t = 0x04"
| "wf_tree (OBoolean k t v) \<longleftrightarrow> k = BERBoolean \<and> t = 0x01 \<and> v \<in> {0, 0xFF}"
| "wf_tree (ONull k t) \<longleftrightarrow> k = BERNull \<and> t = 0x05"
| "wf_tree (OSequence k t xs) \<longleftrightarrow>
     k \<in> {BERSequence, BERSet} \<and> t = class_tag (CSequence k) \<and> (\<forall>x \<in> set xs. wf_tree x)"
| "wf_tree _ \<longleftrightarrow> False"

fun canon_tree :: "ber \<Rightarrow> ber" where
  "canon_tree (OOctetString k t v) = OOctetString BEROctetString t (canon v)"
| "canon_tree (OSequence k t xs) = OSequence k t (map canon_tree xs)"
| "canon_tree x = x"

lemma decodesE_tree:
  "wf_tree x \<Longrightarrow> decodesE protocol_ctx (toWire x) (canon_tree x)"
proof (induction x rule: wf_tree.induct)
  case (5 k t xs)
  then have "list_all2 (decodesE protocol_ctx) (map toWire xs) (map canon_tree xs)"
    by (auto simp: list_all2_conv_all_nth)
  then show ?case using 5(2) by (auto intro!: decodesE_sequence)
qed (auto intro!: roundtrip)

lemma decodesE_trees:
  "\<forall>x \<in> set xs. wf_tree x \<Longrightarrow>
   list_all2 (decodesE protocol_ctx) (map toWire xs) (map canon_tree xs)"
  by (auto simp: list_all2_conv_all_nth intro: decodesE_tree)

section \<open>Controls\<close>

fun canon_control :: "control \<Rightarrow> control" where
  "canon_control (ty, cr, val) = (canon ty, map_option truth_value cr, map_option canon val)"

fun control_object :: "control \<Rightarrow> ber" where
  "control_object (ty, cr, val) = OControl 0x10 ty cr val"

lemma decodesE_control:
  assumes "inherit ctx = protocol_ctx" and "lookup_id ctx 0x10 = Some LDAPControl"
  shows "decodesE ctx (LDAPControl_toWire 0x10 ty cr val) (control_object (canon_control (ty, cr, val)))"
proof -
  let ?o = "OOctetString BEROctetString 0x04"
  let ?xs = "[?o (canon ty)]
    @ (case cr of None \<Rightarrow> [] | Some c \<Rightarrow> [OBoolean BERBoolean 0x01 (truth_value c)])
    @ (case val of None \<Rightarrow> [] | Some v \<Rightarrow> [?o (canon v)])"
  show ?thesis
    unfolding LDAPControl_toWire_def
    by (rule decodesE_sequence[where xs = ?xs and c = LDAPControl])
      (use assms in \<open>cases cr; cases val;
        auto simp: build_LDAPControl_def class_simps intro!: roundtrip\<close>)+
qed

lemma decodesE_controls:
  "decodesE message_ctx (LDAPControls_toWire cs)
     (OSequence LDAPControls 0x80 (map (\<lambda>c. control_object (canon_control c)) cs))"
proof -
  let ?m = "Ctx LDAPBERDecoderContext_LDAPControls None (Some protocol_ctx)"
  have "list_all2 (decodesE ?m)
      (map (\<lambda>(ty, cr, val). LDAPControl_toWire (class_tag LDAPControl) ty cr val) cs)
      (map (\<lambda>c. control_object (canon_control c)) cs)"
    by (auto simp: list_all2_map1 list_all2_map2 list_all2_same class_simps inherit_def
        simp del: canon_control.simps control_object.simps intro!: decodesE_control)
  then show ?thesis
    unfolding LDAPControls_toWire_def
    by (intro decodesE_sequence) (auto simp: class_simps)
qed

section \<open>Protocol operations\<close>

text \<open>
  The operations the constructors of \<open>pureldap.py\<close> build: each with the tag of its class, and
  with members of the kinds the wire format has room for.
\<close>

definition wf_auth :: "bind_auth \<Rightarrow> bool \<Rightarrow> bool" where
  "wf_auth auth sasl \<longleftrightarrow> (case auth of Simple _ \<Rightarrow> \<not> sasl | Sasl _ _ \<Rightarrow> sasl)"

fun canon_auth :: "bind_auth \<Rightarrow> bind_auth" where
  "canon_auth (Simple pw) = Simple (canon pw)"
| "canon_auth (Sasl m c) = Sasl (canon m) (map_option canon c)"

text \<open>Empty referrals and empty credentials are not sent.\<close>

definition canon_referral :: "pytext list option \<Rightarrow> pytext list option" where
  "canon_referral r =
     (case r of None \<Rightarrow> None | Some us \<Rightarrow> if us = [] then None else Some (map canon us))"

definition canon_creds :: "pytext option \<Rightarrow> pytext option" where
  "canon_creds c = (case c of None \<Rightarrow> None | Some v \<Rightarrow> if text_true v then Some (canon v) else None)"

definition canon_result :: "ldap_result \<Rightarrow> ldap_result" where
  "canon_result r =
     \<lparr>resultCode = resultCode r, matchedDN = canon (matchedDN r),
      errorMessage = canon (errorMessage r), referral = canon_referral (referral r),
      serverSaslCreds = canon_creds (serverSaslCreds r)\<rparr>"

fun wf_op :: "ber \<Rightarrow> bool" where
  "wf_op (OBindRequest t version dn auth sasl) \<longleftrightarrow> t = 0x40 \<and> wf_auth auth sasl"
| "wf_op (OResult k t r) \<longleftrightarrow>
     t = class_tag (CResult k) \<and> (k = LDAPBindResponse \<or> serverSaslCreds r = None)"
| "wf_op (ONull k t) \<longleftrightarrow> k = LDAPUnbindRequest \<and> t = 0x42"
| "wf_op (OSearchRequest t base sc deref slim tlim types_only filt attrs) \<longleftrightarrow> t = 0x43 \<and> wf_filter filt"
| "wf_op (OSearchResultEntry t name attrs) \<longleftrightarrow> t = 0x44"
| "wf_op (OSearchResultReference t uris) \<longleftrightarrow> t = 0x53 \<and> list_all plain_octets uris"
| "wf_op (OModifyRequest t obj mods) \<longleftrightarrow>
     t = 0x46 \<and> obj \<noteq> None \<and> (case mods of None \<Rightarrow> False | Some xs \<Rightarrow> list_all wf_tree xs)"
| "wf_op (OAddRequest t entry attrs) \<longleftrightarrow>
     t = 0x48 \<and> entry \<noteq> None \<and>
     (case attrs of None \<Rightarrow> False | Some ps \<Rightarrow> list_all (list_all wf_tree) ps)"
| "wf_op (OOctetString k t v) \<longleftrightarrow> k = LDAPDelRequest \<and> t = 0x4A"
| "wf_op (OModifyDNRequest t entry rdn delold superior) \<longleftrightarrow> t = 0x4C"
| "wf_op (OCompareRequest t entry ava) \<longleftrightarrow>
     t = 0x4E \<and>
     (case ava of OAttributeValueAssertion k t' d v \<Rightarrow> t' = 0x10 \<and> wf_assertion t' d v | _ \<Rightarrow> False)"
| "wf_op (OInteger k t v) \<longleftrightarrow> k = LDAPAbandonRequest \<and> t = 0x50"
| "wf_op (OExtendedRequest k t name value) \<longleftrightarrow> t = 0x57"
| "wf_op (OExtendedResponse k t r rname resp) \<longleftrightarrow> t = 0x58 \<and> serverSaslCreds r = None"
| "wf_op (OIntermediateResponse t name value) \<longleftrightarrow> t = 0x59"
| "wf_op _ \<longleftrightarrow> False"

fun canon_op :: "ber \<Rightarrow> ber" where
  "canon_op (OBindRequest t version dn auth sasl) =
     OBindRequest t version (canon dn) (canon_auth auth) sasl"
| "canon_op (OResult k t r) = OResult k t (canon_result r)"
| "canon_op (OSearchRequest t base sc deref slim tlim types_only filt attrs) =
     OSearchRequest t (canon base) sc deref slim tlim (truth_value types_only) (canon_filter filt)
       (map canon attrs)"
| "canon_op (OSearchResultEntry t name attrs) =
     OSearchResultEntry t (canon name) (map (\<lambda>(key, vs). (canon key, map canon vs)) attrs)"
| "canon_op (OSearchResultReference t uris) =
     OSearchResultReference t (map (canon_octets LDAPString) uris)"
| "canon_op (OModifyRequest t obj mods) =
     OModifyRequest t (map_option canon obj) (map_option (map canon_tree) mods)"
| "canon_op (OAddRequest t entry attrs) =
     OAddRequest t (map_option canon entry) (map_option (map (map canon_tree)) attrs)"
| "canon_op (OOctetString k t v) = OOctetString k t (canon v)"
| "canon_op (OModifyDNRequest t entry rdn delold superior) =
     OModifyDNRequest t (canon entry) (canon rdn) (truth_value delold) (map_option canon superior)"
| "canon_op (OCompareRequest t entry ava) =
     OCompareRequest t (canon entry)
       (case ava of
          OAttributeValueAssertion k t' d v \<Rightarrow>
            OAttributeValueAssertion LDAPAttributeValueAssertion t' (canon_octets BEROctetString d)
              (map_option (canon_octets BEROctetString) v)
        | _ \<Rightarrow> ava)"
| "canon_op (OExtendedRequest k t name value) =
     OExtendedRequest LDAPExtendedRequest t (canon name) (map_option canon value)"
| "canon_op (OExtendedResponse k t r rname resp) =
     OExtendedResponse LDAPExtendedResponse t (canon_result r) (map_option canon rname)
       (map_option canon resp)"
| "canon_op x = x"

lemma decodesE_octets_map:
  "base_ctx ctx \<Longrightarrow>
   list_all2 (decodesE ctx) (map octets vs) (map (\<lambda>v. OOctetString BEROctetString 0x04 (canon v)) vs)"
  by (auto simp: list_all2_map1 list_all2_map2 list_all2_same intro!: roundtrip)

lemma decodesE_octets_seq:
  assumes "t \<in> {0x10, 0x11}"
  shows "decodesE protocol_ctx (BERSequence_toWire t (map octets vs))
     (OSequence (if t = 0x10 then BERSequence else BERSet) t
       (map (\<lambda>v. OOctetString BEROctetString 0x04 (canon v)) vs))"
  using assms by (auto intro!: decodesE_sequence decodesE_octets_map)

lemma mapE_octets [simp]:
  "mapE as_octets (map (\<lambda>v. OOctetString k t (f v)) vs) = Inr (map f vs)"
  by (induction vs) auto

lemma decodesE_bind:
  assumes "wf_auth auth sasl"
  shows "decodesE message_ctx (LDAPBindRequest_toWire 0x40 version dn auth sasl)
     (OBindRequest 0x40 version (canon dn) (canon_auth auth) sasl)"
proof -
  let ?m = "Ctx LDAPBERDecoderContext_LDAPBindRequest (Some protocol_ctx) None"
  let ?o = "OOctetString BEROctetString"
  let ?cred = "case auth of Simple pw \<Rightarrow> ?o 0x80 (canon pw)
    | Sasl mech c \<Rightarrow> OSequence BERSequence 0x83
        (?o 0x04 (canon mech) # (case c of None \<Rightarrow> [] | Some v \<Rightarrow> [?o 0x04 (canon v)]))"
  have "decodesE ?m (bind_auth_wire auth sasl) ?cred"
  proof (cases auth)
    case (Simple pw)
    then show ?thesis
      using assms by (auto simp: bind_auth_wire_def wf_auth_def class_simps intro!: roundtrip)
  next
    case (Sasl mech c)
    have "list_all2 (decodesE ?m) (octets mech # (case c of None \<Rightarrow> [] | Some v \<Rightarrow> [octets v]))
      (?o 0x04 (canon mech) # (case c of None \<Rightarrow> [] | Some v \<Rightarrow> [?o 0x04 (canon v)]))"
      by (cases c) (auto simp: class_simps intro!: roundtrip)
    then show ?thesis
      using assms Sasl
      by (auto simp: bind_auth_wire_def wf_auth_def class_simps inherit_def intro!: decodesE_sequence)
  qed
  then show ?thesis
    unfolding LDAPBindRequest_toWire_def
    using assms
    by (intro decodesE_sequence[where
          xs = "[OInteger BERInteger 0x02 version, ?o 0x04 (canon dn), ?cred]"])
      (auto simp: build_LDAPBindRequest_def nthE_def wf_auth_def class_simps
        split: bind_auth.splits option.splits intro!: roundtrip)
qed

section \<open>One rule per operation\<close>

lemma decodesE_sequence_in:
  assumes "list_all2 (decodesE m) ws xs"
    and "lookup_id ctx (t AND 0xDF) = Some c" "has_members c" "m = member_ctx c (inherit ctx)"
    and "build c (t AND 0xDF) xs = Inr x"
  shows "decodesE ctx (BERSequence_toWire t ws) x"
  using assms decodesE_sequence by blast

lemma decodesE_referral:
  assumes "lookup_id ctx 0x83 = Some (CSequence LDAPReferral)" and "inherit ctx = ctx" and "base_ctx ctx"
  shows "list_all2 (decodesE ctx) (referral_wires r)
    (case canon_referral r of None \<Rightarrow> []
     | Some us \<Rightarrow> [OSequence LDAPReferral 0x83 (map (OOctetString BEROctetString 0x04) us)])"
  using assms decodesE_octets_map[of ctx]
  by (auto simp: referral_wires_def canon_referral_def class_simps comp_def split: option.splits
      intro!: decodesE_sequence)

lemma referral_uris_canon [simp]:
  "referral_uris (OSequence LDAPReferral t (map (\<lambda>v. OOctetString k t' (canon v)) us)) =
     Inr (map canon us)"
  by (simp add: referral_uris_def mapE_map mapE_pure)

lemma canon_referral_Some:
  "canon_referral r = Some us \<Longrightarrow> \<exists>vs. us = map canon vs"
  by (auto simp: canon_referral_def split: option.splits if_splits)

lemma result_ctx_lookup:
  assumes "map_of (Identities c) 0x83 = Some (CSequence LDAPReferral)"
    and "map_of (Identities c) 0x04 = None" "map_of (Identities c) 0x0A = None"
      "map_of (Identities c) 0x10 = None"
  shows "list_all2 (decodesE (Ctx c (Some protocol_ctx) None)) (result_head r)
    ([OInteger BEREnumerated 0x0A (resultCode r), OOctetString BEROctetString 0x04 (canon (matchedDN r)),
      OOctetString BEROctetString 0x04 (canon (errorMessage r))] @
     (case canon_referral (referral r) of None \<Rightarrow> []
      | Some us \<Rightarrow> [OSequence LDAPReferral 0x83 (map (OOctetString BEROctetString 0x04) us)]))"
  using assms
  by (auto simp: result_head_def inherit_def intro!: decodesE_referral roundtrip)

lemma decodesE_result:
  assumes "k \<noteq> LDAPBindResponse" and "serverSaslCreds r = None"
    and t: "lookup_id message_ctx t = Some (CResult k)" "t AND 0xDF = t"
  shows "decodesE message_ctx (LDAPResult_toWire t r) (OResult k t (canon_result r))"
  unfolding LDAPResult_toWire_def
  by (rule decodesE_sequence_in[where c = "CResult k",
        OF list_all2_appendI[OF result_ctx_lookup[of LDAPBERDecoderContext_LDAPResult r]]])
    (use assms in \<open>auto simp: class_simps build_LDAPResult_def canon_result_def canon_creds_def comp_def
      dest!: canon_referral_Some split: option.splits\<close>)

lemma decodesE_bind_response:
  "decodesE message_ctx (LDAPResult_toWire 0x41 r) (OResult LDAPBindResponse 0x41 (canon_result r))"
proof -
  let ?m = "Ctx LDAPBERDecoderContext_BindResponse (Some protocol_ctx) None"
  have creds: "list_all2 (decodesE ?m)
      (case serverSaslCreds r of None \<Rightarrow> [] | Some v \<Rightarrow> if text_true v
         then [BEROctetString_toWire (class_tag (COctetString LDAPBindResponse_serverSaslCreds)) v]
         else [])
      (case canon_creds (serverSaslCreds r) of None \<Rightarrow> []
       | Some v \<Rightarrow> [OOctetString LDAPBindResponse_serverSaslCreds 0x87 v])"
    by (auto simp: canon_creds_def class_simps split: option.splits intro!: roundtrip)
  show ?thesis
    unfolding LDAPResult_toWire_def
    by (rule decodesE_sequence_in[where c = "CResult LDAPBindResponse",
          OF list_all2_appendI[OF result_ctx_lookup[of LDAPBERDecoderContext_BindResponse r] creds]])
      (auto simp: class_simps build_LDAPBindResponse_def canon_result_def comp_def
        dest!: canon_referral_Some split: option.splits)
qed

lemma decodesE_extended_response:
  assumes "serverSaslCreds r = None"
  shows "decodesE message_ctx (LDAPExtendedResponse_toWire 0x58 r rname resp)
    (OExtendedResponse LDAPExtendedResponse 0x58 (canon_result r) (map_option canon rname)
      (map_option canon resp))"
proof -
  let ?m = "Ctx LDAPBERDecoderContext_LDAPExtendedResponse (Some protocol_ctx) None"
  have "list_all2 (decodesE ?m)
      ((case rname of None \<Rightarrow> [] | Some v \<Rightarrow> [BEROctetString_toWire (CLASS_CONTEXT OR 0x0A) v])
       @ (case resp of None \<Rightarrow> [] | Some v \<Rightarrow> [BEROctetString_toWire (CLASS_CONTEXT OR 0x0B) v]))
      ((case rname of None \<Rightarrow> [] | Some v \<Rightarrow> [OOctetString LDAPResponseName 0x8A (canon v)])
       @ (case resp of None \<Rightarrow> [] | Some v \<Rightarrow> [OOctetString LDAPResponse 0x8B (canon v)]))"
    by (cases rname; cases resp) (auto simp: class_simps intro!: roundtrip)
  note tail = list_all2_appendI[OF result_ctx_lookup[of LDAPBERDecoderContext_LDAPExtendedResponse r] this]
  show ?thesis
    unfolding LDAPExtendedResponse_toWire_def
    by (rule decodesE_sequence_in[where c = "CExtendedResponse LDAPExtendedResponse", OF tail])
      (use assms in \<open>auto simp: class_simps build_LDAPExtendedResponse_def canon_result_def
        canon_creds_def comp_def dest!: canon_referral_Some split: option.splits\<close>)
qed

lemma decodesE_extended_request:
  "decodesE message_ctx (LDAPExtendedRequest_toWire 0x57 name value)
     (OExtendedRequest LDAPExtendedRequest 0x57 (canon name) (map_option canon value))"
proof -
  let ?o = "OOctetString BEROctetString"
  show ?thesis
    unfolding LDAPExtendedRequest_toWire_def
    by (rule decodesE_sequence[where c = "CExtendedRequest LDAPExtendedRequest" and
          xs = "?o 0x80 (canon name) # (case value of None \<Rightarrow> [] | Some v \<Rightarrow> [?o 0x81 (canon v)])"])
      (auto simp: class_simps build_LDAPExtendedRequest_def nthE_def
        split: option.splits intro!: roundtrip)
qed

lemma decodesE_intermediate:
  "decodesE message_ctx (LDAPIntermediateResponse_toWire 0x59 name value)
     (OIntermediateResponse 0x59 name value)"
proof -
  show ?thesis
    unfolding LDAPIntermediateResponse_toWire_def
    by (rule decodesE_sequence[where c = LDAPIntermediateResponse and
          xs = "(case name of None \<Rightarrow> [] | Some v \<Rightarrow> [OOctetString LDAPOID 0x80 (Byt v)])
            @ (case value of None \<Rightarrow> [] | Some v \<Rightarrow> [OOctetString BEROctetString 0x81 (Byt v)])"])
      (auto simp: class_simps build_LDAPIntermediateResponse_def
        split: option.splits intro!: roundtrip)
qed

lemma decodesE_modify_dn:
  "decodesE message_ctx (LDAPModifyDNRequest_toWire 0x4C entry rdn delold superior)
     (OModifyDNRequest 0x4C (canon entry) (canon rdn) (truth_value delold) (map_option canon superior))"
proof -
  let ?o = "OOctetString BEROctetString 0x04"
  show ?thesis
    unfolding LDAPModifyDNRequest_toWire_def
    by (rule decodesE_sequence[where c = LDAPModifyDNRequest and
          xs = "[?o (canon entry), ?o (canon rdn), OBoolean BERBoolean 0x01 (truth_value delold)]
            @ (case superior of None \<Rightarrow> []
               | Some v \<Rightarrow> [OOctetString LDAPModifyDNResponse_newSuperior 0x80 (canon v)])"])
      (auto simp: class_simps build_LDAPModifyDNRequest_def nthE_def
        split: option.splits intro!: roundtrip)
qed

lemma protocol_filter_ctx:
  "filter_ctx (Ctx LDAPBERDecoderContext_Filter (Some protocol_ctx) (Some protocol_ctx))"
  by (intro filter_ctxI) auto

lemma decodesE_search_request:
  assumes "wf_filter f"
  shows "decodesE message_ctx (toWire (OSearchRequest 0x43 base sc deref slim tlim types_only f attrs))
     (OSearchRequest 0x43 (canon base) sc deref slim tlim (truth_value types_only) (canon_filter f)
       (map canon attrs))"
proof -
  let ?m = "Ctx LDAPBERDecoderContext_Filter (Some protocol_ctx) (Some protocol_ctx)"
  let ?o = "OOctetString BEROctetString 0x04"
  have attrs: "decodesE ?m (BERSequence_toWire 0x10 (map octets attrs))
      (OSequence BERSequence 0x10 (map (\<lambda>v. ?o (canon v)) attrs))"
    by (auto simp: class_simps inherit_def intro!: decodesE_sequence decodesE_octets_map)
  show ?thesis
    unfolding toWire.simps
    by (rule decodesE_sequence[where c = LDAPSearchRequest and xs = "[?o (canon base),
          OInteger BEREnumerated 0x0A sc, OInteger BEREnumerated 0x0A deref,
          OInteger BERInteger 0x02 slim, OInteger BERInteger 0x02 tlim,
          OBoolean BERBoolean 0x01 (truth_value types_only), canon_filter f,
          OSequence BERSequence 0x10 (map (\<lambda>v. ?o (canon v)) attrs)]"])
      (use attrs decodesE_filter[OF assms protocol_filter_ctx] in
        \<open>auto simp: class_simps build_LDAPSearchRequest_def as_sequence_def intro!: roundtrip\<close>)
qed

lemma decodesE_entry_pair:
  "decodesE protocol_ctx
     (BERSequence_toWire 0x10 [octets key, BERSequence_toWire 0x11 (map octets vs)])
     (OSequence BERSequence 0x10 [OOctetString BEROctetString 0x04 (canon key),
        OSequence BERSet 0x11 (map (\<lambda>v. OOctetString BEROctetString 0x04 (canon v)) vs)])"
  by (auto intro!: decodesE_sequence decodesE_octets_map roundtrip)

lemma mapE_entries:
  "mapE (\<lambda>pair. bindE (as_sequence pair) (\<lambda>p. bindE (unpack2 p) (\<lambda>(attr, li).
          bindE (as_octets attr) (\<lambda>key. bindE (as_sequence li) (\<lambda>vals.
          bindE (mapE as_octets vals) (\<lambda>values. Inr (key, values)))))))
     (map (\<lambda>(key, vs). OSequence BERSequence 0x10 [OOctetString BEROctetString 0x04 (canon key),
        OSequence BERSet 0x11 (map (\<lambda>v. OOctetString BEROctetString 0x04 (canon v)) vs)]) attrs)
   = Inr (map (\<lambda>(key, vs). (canon key, map canon vs)) attrs)"
  by (induction attrs) (auto simp: as_sequence_def unpack2_def)

lemma decodesE_search_result_entry:
  "decodesE message_ctx (LDAPSearchResultEntry_toWire 0x44 name attrs)
     (OSearchResultEntry 0x44 (canon name) (map (\<lambda>(key, vs). (canon key, map canon vs)) attrs))"
proof -
  let ?m = "Ctx LDAPBERDecoderContext_Filter (Some protocol_ctx) (Some protocol_ctx)"
  let ?pairs = "map (\<lambda>(key, vs). OSequence BERSequence 0x10 [OOctetString BEROctetString 0x04 (canon key),
        OSequence BERSet 0x11 (map (\<lambda>v. OOctetString BEROctetString 0x04 (canon v)) vs)]) attrs"
  have pairs: "decodesE ?m (BERSequence_toWire 0x10 (map (\<lambda>(key, vs). BERSequence_toWire 0x10
      [octets key, BERSequence_toWire 0x11 (map octets vs)]) attrs)) (OSequence BERSequence 0x10 ?pairs)"
    by (auto simp: class_simps inherit_def list_all2_map1 list_all2_map2 list_all2_same
        intro!: decodesE_sequence decodesE_entry_pair)
  show ?thesis
    unfolding LDAPSearchResultEntry_toWire_def
    by (rule decodesE_sequence[where c = LDAPSearchResultEntry and
          xs = "[OOctetString BEROctetString 0x04 (canon name), OSequence BERSequence 0x10 ?pairs]"])
      (use pairs in \<open>auto simp: class_simps build_LDAPSearchResultEntry_def nthE_def
        as_sequence_def[of "OSequence _ _ ?pairs"] mapE_entries intro!: roundtrip\<close>)
qed

lemma plain_octets_iff: "plain_octets x \<longleftrightarrow> (\<exists>k v. x = OOctetString k 0x04 v)"
  by (cases x) (auto simp: plain_octets_def)

lemma decodesE_reference:
  assumes "list_all plain_octets uris"
  shows "decodesE message_ctx (BERSequence_toWire 0x53 (map toWire uris))
     (OSearchResultReference 0x53 (map (canon_octets LDAPString) uris))"
proof -
  let ?m = "Ctx LDAPBERDecoderContext_LDAPSearchResultReference (Some protocol_ctx) None"
  have "list_all2 (decodesE ?m) (map toWire uris) (map (canon_octets LDAPString) uris)"
    using assms
    by (fastforce simp: list_all2_map1 list_all2_map2 list_all2_same list_all_iff plain_octets_iff
        canon_octets_def intro: roundtrip)
  then show ?thesis
    by (intro decodesE_sequence_in[where c = LDAPSearchResultReference])
      (auto simp: build_LDAPSearchResultReference_def class_simps)
qed

lemma decodesE_modify:
  assumes "list_all wf_tree mods"
  shows "decodesE message_ctx (toWire (OModifyRequest 0x46 (Some obj) (Some mods)))
     (OModifyRequest 0x46 (Some (canon obj)) (Some (map canon_tree mods)))"
proof -
  have "decodesE protocol_ctx (BERSequence_toWire 0x10 (map toWire mods))
      (OSequence BERSequence 0x10 (map canon_tree mods))"
    using assms by (auto simp: list_all_iff intro!: decodesE_sequence decodesE_trees)
  then show ?thesis
    by (auto simp: build_LDAPModifyRequest_def as_sequence_def
        intro!: decodesE_sequence_in[where c = LDAPModifyRequest and m = protocol_ctx and
          xs = "[OOctetString BEROctetString 0x04 (canon obj), OSequence BERSequence 0x10 (map canon_tree mods)]"]
          roundtrip)
qed

lemma mapE_as_sequence [simp]:
  "mapE as_sequence (map (\<lambda>x. OSequence k t (f x)) xs) = Inr (map f xs)"
  by (induction xs) (auto simp: as_sequence_def)

lemma decodesE_add:
  assumes "list_all (list_all wf_tree) pairs"
  shows "decodesE message_ctx (toWire (OAddRequest 0x48 (Some entry) (Some pairs)))
     (OAddRequest 0x48 (Some (canon entry)) (Some (map (map canon_tree) pairs)))"
proof -
  let ?ps = "map (\<lambda>p. OSequence BERSequence 0x10 (map canon_tree p)) pairs"
  have "decodesE protocol_ctx (BERSequence_toWire 0x10 (map toWire p))
      (OSequence BERSequence 0x10 (map canon_tree p))" if "p \<in> set pairs" for p
    using assms that by (auto simp: list_all_iff intro!: decodesE_sequence decodesE_trees)
  then have "decodesE protocol_ctx
      (BERSequence_toWire 0x10 (map (\<lambda>p. BERSequence_toWire 0x10 (map toWire p)) pairs))
      (OSequence BERSequence 0x10 ?ps)"
    by (auto simp: list_all2_map1 list_all2_map2 list_all2_same intro!: decodesE_sequence)
  then show ?thesis
    by (auto simp: build_LDAPAddRequest_def as_sequence_def[of "OSequence _ _ ?ps"] nthE_def
        intro!: decodesE_sequence_in[where c = LDAPAddRequest and m = protocol_ctx and
          xs = "[OOctetString BEROctetString 0x04 (canon entry), OSequence BERSequence 0x10 ?ps]"]
          roundtrip)
qed

lemma decodesE_compare:
  assumes "wf_assertion 0x10 d (Some v)"
  shows "decodesE message_ctx (BERSequence_toWire 0x4E [octets entry, BERSequence_toWire 0x10 [toWire d, toWire v]])
     (OCompareRequest 0x4E (canon entry) (OAttributeValueAssertion LDAPAttributeValueAssertion 0x10
        (canon_octets BEROctetString d) (Some (canon_octets BEROctetString v))))"
proof -
  let ?m = "Ctx LDAPBERDecoderContext_Compare (Some protocol_ctx) (Some protocol_ctx)"
  have ava: "decodesE ?m (BERSequence_toWire 0x10 [toWire d, toWire v])
      (OAttributeValueAssertion LDAPAttributeValueAssertion 0x10
        (canon_octets BEROctetString d) (Some (canon_octets BEROctetString v)))"
    using decodesE_assertion[OF assms, of ?m LDAPAttributeValueAssertion] by (simp add: inherit_def class_simps)
  show ?thesis
    by (rule decodesE_sequence[where c = LDAPCompareRequest and
          xs = "[OOctetString BEROctetString 0x04 (canon entry), OAttributeValueAssertion LDAPAttributeValueAssertion 0x10
        (canon_octets BEROctetString d) (Some (canon_octets BEROctetString v))]"])
      (use ava in \<open>auto simp: build_LDAPCompareRequest_def nthE_def octets_def class_simps intro!: roundtrip\<close>)
qed

section \<open>Operations and messages\<close>

lemma decodesE_op: "wf_op x \<Longrightarrow> decodesE message_ctx (toWire x) (canon_op x)"
proof (induction x rule: wf_op.induct)
  case (2 k t r)
  then show ?case
    using decodesE_bind_response[of r] decodesE_result[of k r t]
    by (cases "k = LDAPBindResponse"; cases k) (auto simp: class_simps)
next
  case (4 t base sc deref slim tlim types_only filt attrs)
  then show ?case using decodesE_search_request[of filt] by simp
next
  case (7 t obj mods)
  then show ?case using decodesE_modify by (auto split: option.splits simp del: toWire.simps)
next
  case (8 t entry attrs)
  then show ?case using decodesE_add by (auto split: option.splits simp del: toWire.simps)
next
  case (11 t entry ava)
  then obtain k d v where "ava = OAttributeValueAssertion k 0x10 d (Some v)" "wf_assertion 0x10 d (Some v)"
    by (auto simp: wf_assertion_def split: ber.splits option.splits)
  then show ?case using 11 decodesE_compare[of d v entry] by simp
qed (auto intro!: roundtrip decodesE_bind decodesE_search_result_entry decodesE_reference
      decodesE_modify_dn decodesE_extended_request decodesE_extended_response decodesE_intermediate)

definition canon_message :: "ber \<Rightarrow> ber" where
  "canon_message m =
     OMessage 0x10 (msg_id m) (canon_op (msg_value m))
       (map_option (map canon_control) (msg_controls m))"

lemma as_control_object [simp]:
  "mapE as_control (map (\<lambda>c. control_object (f c)) cs) = Inr (map f cs)"
proof -
  have "as_control (control_object x) = Inr x" for x by (cases x) simp
  then show ?thesis by (induction cs) auto
qed

lemma decodesE_message:
  assumes "wf_op v"
  shows "decodesE berdecoder (toWire (OMessage t i v controls)) (canon_message (OMessage t i v controls))"
proof -
  let ?cs = "case controls of None \<Rightarrow> []
    | Some cs \<Rightarrow> [OSequence LDAPControls 0x80 (map (\<lambda>c. control_object (canon_control c)) cs)]"
  show ?thesis
    unfolding toWire.simps
    by (rule decodesE_sequence[where c = LDAPMessage and
          xs = "[OInteger BERInteger 0x02 i, canon_op v] @ ?cs"])
      (use decodesE_op[OF assms] in \<open>auto simp: build_LDAPMessage_def canon_message_def nthE_def
        split: option.splits intro!: roundtrip decodesE_controls simp del: toWire.simps\<close>)
qed

section \<open>Encoding what was decoded\<close>

lemma truth_value_idem [simp]: "truth_value (truth_value v) = truth_value v"
  by (simp add: truth_value_def)

lemma BEROctetString_toWire_canon [simp]:
  "BEROctetString_toWire t (canon v) = BEROctetString_toWire t v"
  by (simp add: BEROctetString_toWire_def)

lemma octets_canon [simp]: "octets (canon v) = octets v"
  by (simp add: octets_def)

lemma to_bytes_empty [simp]: "to_bytes v = [] \<longleftrightarrow> \<not> text_true v"
proof (cases v)
  case (Str s)
  have "utf8_char c \<noteq> []" for c by (simp add: utf8_char_def Let_def)
  then show ?thesis using Str by (cases s) auto
qed simp

lemma text_true_canon [simp]: "text_true (canon v) = text_true v"
  by simp

lemma toWire_canon_octets [simp]:
  "plain_octets x \<Longrightarrow> toWire (canon_octets k x) = toWire x"
  by (cases x) (simp_all add: plain_octets_def canon_octets_def)

lemma toWire_canon_part [simp]: "toWire (canon_part x) = toWire x"
  by (cases x) simp_all

lemma toWire_canon_filter [simp]: "wf_filter x \<Longrightarrow> toWire (canon_filter x) = toWire x"
proof (induction x rule: wf_filter.induct)
  case (1 k t xs)
  then have "map (\<lambda>x. toWire (canon_filter x)) xs = map toWire xs" by simp
  then show ?case by (simp only: canon_filter.simps canon_tree.simps toWire.simps map_map comp_def)
next
  case (6 k t rule ty v d)
  then show ?case by (cases rule; cases ty; cases d) simp_all
qed (auto simp: wf_assertion_def comp_def split: option.splits)

lemma toWire_canon_tree [simp]: "toWire (canon_tree x) = toWire x"
proof (induction x rule: canon_tree.induct)
  case (2 k t xs)
  then have "map (\<lambda>x. toWire (canon_tree x)) xs = map toWire xs" by simp
  then show ?case by (simp only: canon_filter.simps canon_tree.simps toWire.simps map_map comp_def)
qed auto

lemma LDAPControl_toWire_canon [simp]:
  "(\<lambda>(ty, cr, val). LDAPControl_toWire t ty cr val) (canon_control c) =
   (\<lambda>(ty, cr, val). LDAPControl_toWire t ty cr val) c"
  by (cases c) (simp add: LDAPControl_toWire_def split: option.split)

lemma result_canon [simp]:
  "result_head (canon_result r) = result_head r"
  "LDAPResult_toWire t (canon_result r) = LDAPResult_toWire t r"
  "LDAPExtendedResponse_toWire t (canon_result r) (map_option canon n) (map_option canon v) =
   LDAPExtendedResponse_toWire t r n v"
proof -
  show *: "result_head (canon_result r) = result_head r"
    by (simp add: result_head_def canon_result_def referral_wires_def canon_referral_def comp_def
        split: option.split)
  show "LDAPResult_toWire t (canon_result r) = LDAPResult_toWire t r"
    unfolding LDAPResult_toWire_def *
    by (simp add: canon_result_def canon_creds_def split: option.split)
  show "LDAPExtendedResponse_toWire t (canon_result r) (map_option canon n) (map_option canon v) =
   LDAPExtendedResponse_toWire t r n v"
    unfolding LDAPExtendedResponse_toWire_def * by (simp split: option.split)
qed

lemma toWire_canon_op: "wf_op x \<Longrightarrow> toWire (canon_op x) = toWire x"
proof (induction x rule: wf_op.induct)
  case (1 t version dn auth sasl)
  then show ?case
    by (cases auth) (auto simp: LDAPBindRequest_toWire_def bind_auth_wire_def split: option.split)
next
  case (6 t uris)
  then have "map (\<lambda>x. toWire (canon_octets LDAPString x)) uris = map toWire uris"
    by (auto simp: list_all_iff)
  then show ?case by (simp only: canon_op.simps toWire.simps map_map comp_def)
next
  case (7 t obj mods)
  then show ?case by (cases obj; cases mods) (simp_all add: comp_def)
next
  case (8 t entry attrs)
  then show ?case by (cases entry; cases attrs) (simp_all add: comp_def)
next
  case (10 t entry rdn delold superior)
  then show ?case by (simp add: LDAPModifyDNRequest_toWire_def split: option.split)
next
  case (11 t entry ava)
  then obtain k d v where "ava = OAttributeValueAssertion k 0x10 d (Some v)" "wf_assertion 0x10 d (Some v)"
    by (auto simp: wf_assertion_def split: ber.splits option.splits)
  then show ?case by (simp add: wf_assertion_def)
next
  case (13 k t nm val)
  then show ?case by (simp add: LDAPExtendedRequest_toWire_def split: option.split)
qed (auto simp: LDAPSearchResultEntry_toWire_def comp_def case_prod_unfold)

lemma toWire_canon_message:
  "wf_op v \<Longrightarrow> toWire (canon_message (OMessage t i v c)) = toWire (OMessage t i v c)"
  by (simp add: canon_message_def toWire_canon_op LDAPControls_toWire_def comp_def del: canon_control.simps
      split: option.split)

end
