(* ===== verification/LdapSize.thy ===== *)
theory LdapSize
  imports LdapRoundtrip
begin

text \<open>
  The encoder is total in practice. All that can stop it on a well-formed operation is a content
  of \<open>256 ^ 127\<close> bytes or more, whose length has no length field. \<open>fits n w\<close> says that an
  encoding succeeds within \<open>n\<close> bytes, \<open>wire_size\<close> bounds the bytes of an object, and a header
  takes at most 129 of them.
\<close>

section \<open>Encodings that fit\<close>

definition fits :: "nat \<Rightarrow> exn + bytes \<Rightarrow> bool" where
  "fits n w \<longleftrightarrow> (\<exists>w'. w = Inr w' \<and> length w' \<le> n)"

definition hdr :: nat where "hdr = 129"
definition limit :: nat where "limit = 256 ^ 127"

lemma int2ber_loop_unsigned_length:
  "0 \<le> i \<Longrightarrow> i < 256 ^ Suc n \<Longrightarrow> length (int2ber_loop False i enc) \<le> Suc n + length enc"
proof (induction n arbitrary: i enc)
  case 0
  then show ?case by (simp add: int2ber_loop.simps[of False i])
next
  case (Suc n)
  have "drop_bit 8 i = i div 256" by (simp add: drop_bit_int_def)
  moreover have "0 \<le> i div 256" "i div 256 < 256 ^ Suc n"
    using Suc.prems by (simp_all add: pos_imp_zdiv_nonneg_iff div_less_iff_less_mult)
  ultimately show ?case
    using Suc.IH[of "i div 256" "word_of_int (i mod 256) # enc"]
    by (simp add: int2ber_loop.simps[of False i])
qed

lemma fits_tlv:
  assumes "length content \<le> n" "n < limit"
  shows "fits (n + hdr) (tlv t content)"
proof -
  let ?i = "int (length content)"
  have "length content < 256 ^ 127" using assms by (simp add: limit_def)
  then have "?i < 256 ^ 127" by (metis of_nat_less_iff of_nat_numeral of_nat_power)
  then have l: "length (int2ber ?i False) \<le> 127"
    using int2ber_loop_unsigned_length[of ?i 126 "[]"] by (simp add: int2ber_def)
  then obtain ws where "int2berlen ?i = Inr ws" "length ws \<le> 128"
    by (cases "length content \<le> 127") (auto simp: int2berlen_def Let_def)
  then show ?thesis using assms by (simp add: fits_def tlv_def hdr_def)
qed

lemma fits_mono: "fits m w \<Longrightarrow> m \<le> n \<Longrightarrow> fits n w"
  by (auto simp: fits_def)

definition seq_size :: "nat list \<Rightarrow> nat" where
  "seq_size ns = sum_list ns + hdr"

lemma fits_sequenceE:
  "list_all2 fits ns ws \<Longrightarrow> \<exists>r. sequenceE ws = Inr r \<and> length (concat r) \<le> sum_list ns"
  by (induction ns ws rule: list_all2_induct) (fastforce simp: fits_def)+

lemma fits_sequence:
  "list_all2 fits ns ws \<Longrightarrow> seq_size ns < limit \<Longrightarrow> fits (seq_size ns) (BERSequence_toWire t ws)"
  using fits_sequenceE[of ns ws] fits_tlv[of _ "sum_list ns"]
  by (force simp: BERSequence_toWire_def seq_size_def)

section \<open>A bound on the size of an object\<close>

definition text_size :: "pytext \<Rightarrow> nat" where
  "text_size v = length (to_bytes v) + hdr"

definition int_size :: "int \<Rightarrow> nat" where
  "int_size i = length (int2ber i True) + hdr"

definition opt_size :: "('a \<Rightarrow> nat) \<Rightarrow> 'a option \<Rightarrow> nat list" where
  "opt_size f x = (case x of None \<Rightarrow> [] | Some v \<Rightarrow> [f v])"

lemma opt_size_cong [fundef_cong]:
  "x = y \<Longrightarrow> (\<And>v. y = Some v \<Longrightarrow> f v = g v) \<Longrightarrow> opt_size f x = opt_size g y"
  by (simp add: opt_size_def split: option.split)

definition control_size :: "control \<Rightarrow> nat" where
  "control_size c =
     (case c of (ty, cr, val) \<Rightarrow>
        seq_size ([text_size ty] @ opt_size (\<lambda>_. hdr) cr @ opt_size text_size val))"

definition result_size :: "ldap_result \<Rightarrow> nat list" where
  "result_size r =
     [int_size (resultCode r), text_size (matchedDN r), text_size (errorMessage r)]
     @ (case referral r of None \<Rightarrow> []
        | Some us \<Rightarrow> if us = [] then [] else [seq_size (map text_size us)])"

definition auth_size :: "bind_auth \<Rightarrow> nat" where
  "auth_size a =
     (case a of Simple pw \<Rightarrow> text_size pw
      | Sasl m c \<Rightarrow> seq_size (text_size m # opt_size text_size c))"

fun wire_size :: "ber \<Rightarrow> nat" where
  "wire_size (OInteger k t v) = int_size v"
| "wire_size (OOctetString k t v) = text_size v"
| "wire_size (OSequence k t xs) = seq_size (map wire_size xs)"
| "wire_size (OMessage t i v cs) =
     seq_size ([int_size i, wire_size v] @ opt_size (\<lambda>cs. seq_size (map control_size cs)) cs)"
| "wire_size (OBindRequest t version dn auth sasl) =
     seq_size [int_size version, text_size dn, auth_size auth]"
| "wire_size (OSearchResultReference t uris) = seq_size (map wire_size uris)"
| "wire_size (OResult k t r) = 
     seq_size (result_size r
       @ (case serverSaslCreds r of None \<Rightarrow> []
          | Some v \<Rightarrow> if text_true v then [text_size v] else []))"
| "wire_size (OExtendedResponse k t r rname resp) =
     seq_size (result_size r @ opt_size text_size rname @ opt_size text_size resp)"
| "wire_size (OAttributeValueAssertion k t d v) = seq_size (wire_size d # opt_size wire_size v)"
| "wire_size (OFilter_not t v) = wire_size v + hdr"
| "wire_size (OFilter_substrings t ty subs) = seq_size [text_size ty, seq_size (map wire_size subs)]"
| "wire_size (OMatchingRuleAssertion k t rule ty v d) =
     seq_size (opt_size wire_size rule @ opt_size wire_size ty @ [wire_size v] @ opt_size (\<lambda>_. hdr) d)"
| "wire_size (OSearchRequest t base sc deref slim tlim types_only filt attrs) =
     seq_size [text_size base, int_size sc, int_size deref, int_size slim, int_size tlim, hdr,
       wire_size filt, seq_size (map text_size attrs)]"
| "wire_size (OSearchResultEntry t name attrs) =
     seq_size [text_size name,
       seq_size (map (\<lambda>(k, vs). seq_size [text_size k, seq_size (map text_size vs)]) attrs)]"
| "wire_size (OModifyRequest t obj mods) =
     seq_size (opt_size text_size obj @ opt_size (\<lambda>xs. seq_size (map wire_size xs)) mods)"
| "wire_size (OAddRequest t entry attrs) =
     seq_size (opt_size text_size entry
       @ opt_size (\<lambda>ps. seq_size (map (\<lambda>p. seq_size (map wire_size p)) ps)) attrs)"
| "wire_size (OModifyDNRequest t entry rdn delold superior) =
     seq_size ([text_size entry, text_size rdn, hdr] @ opt_size text_size superior)"
| "wire_size (OCompareRequest t entry ava) = seq_size [text_size entry, wire_size ava]"
| "wire_size (OExtendedRequest k t name val) =
     seq_size (text_size name # opt_size text_size val)"
| "wire_size (OIntermediateResponse t name val) =
     seq_size (opt_size (\<lambda>b. text_size (Byt b)) name @ opt_size (\<lambda>b. text_size (Byt b)) val)"
| "wire_size _ = hdr"

named_theorems fit \<open>introduction rules of fits\<close>

lemma fits_text [fit]: "text_size v < limit \<Longrightarrow> fits (text_size v) (BEROctetString_toWire t v)"
  unfolding text_size_def BEROctetString_toWire_def by (intro fits_tlv) simp_all

lemma fits_octets [fit]: "text_size v < limit \<Longrightarrow> fits (text_size v) (octets v)"
  unfolding octets_def by (rule fits_text)

lemma fits_integer [fit]: "int_size v < limit \<Longrightarrow> fits (int_size v) (BERInteger_toWire t v)"
  unfolding int_size_def BERInteger_toWire_def Let_def by (intro fits_tlv) simp_all

lemma fits_boolean [fit]: "fits hdr (BERBoolean_toWire t (truth_value v))"
  by (simp add: BERBoolean_toWire_def truth_value_def fits_def int2berlen_small hdr_def)

lemma fits_null [fit]: "fits hdr (BERNull_toWire t)"
  by (simp add: BERNull_toWire_def fits_def hdr_def)

text \<open>A sequence fits when its members do, which need only be shown below the limit.\<close>

lemma in_seq_size: "n \<in> set ns \<Longrightarrow> n \<le> seq_size ns"
  by (auto simp: seq_size_def dest: member_le_sum_list)

lemma fits_sequence_in [fit]:
  assumes "seq_size ns < limit"
    and "(\<And>n. n \<in> set ns \<Longrightarrow> n < limit) \<Longrightarrow> list_all2 fits ns ws"
  shows "fits (seq_size ns) (BERSequence_toWire t ws)"
  using assms in_seq_size fits_sequence by (meson le_less_trans)


lemma fits_Cons [fit]: "fits n w \<Longrightarrow> list_all2 fits ns ws \<Longrightarrow> list_all2 fits (n # ns) (w # ws)"
  by simp

lemma fits_map [fit]:
  "(\<And>x. x \<in> set xs \<Longrightarrow> fits (f x) (g x)) \<Longrightarrow> list_all2 fits (map f xs) (map g xs)"
  by (auto simp: list_all2_map1 list_all2_map2 list_all2_same)

lemma fits_opt [fit]:
  "(\<And>v. x = Some v \<Longrightarrow> fits (f v) (g v)) \<Longrightarrow>
   list_all2 fits (opt_size f x) (case x of None \<Rightarrow> [] | Some v \<Rightarrow> [g v])"
  by (simp add: opt_size_def split: option.split)

lemma fits_append [fit]:
  "list_all2 fits ms vs \<Longrightarrow> list_all2 fits ns ws \<Longrightarrow> list_all2 fits (ms @ ns) (vs @ ws)"
  by (rule list_all2_appendI)

lemma opt_size_mem: "x = Some v \<Longrightarrow> f v \<in> set (opt_size f x)"
  by (simp add: opt_size_def)

lemma opt_size_Some [simp]: "opt_size f (Some v) = [f v]"
  by (simp add: opt_size_def)

lemma opt_size_None [simp]: "opt_size f None = []"
  by (simp add: opt_size_def)

lemma fits_octets_object: "is_octets x \<Longrightarrow> wire_size x < limit \<Longrightarrow> fits (wire_size x) (toWire x)"
  by (cases x) (auto intro: fit)

lemma octets_kinds:
  "plain_octets x \<Longrightarrow> is_octets x" "octets_of k x \<Longrightarrow> is_octets x" "substring_part x \<Longrightarrow> is_octets x"
  by (cases x; simp add: plain_octets_def octets_of_def substring_part_def)+

lemma fits_flag: "dn_flag x \<Longrightarrow> fits hdr (toWire x)"
  using fits_boolean[where v = 0] fits_boolean[where v = 255]
  by (cases x) (auto simp: dn_flag_def truth_value_def)

lemma opt_all_iff: "opt_all P x \<longleftrightarrow> (\<forall>v. x = Some v \<longrightarrow> P v)"
  by (cases x) auto

section \<open>Objects below the limit encode\<close>

lemma fits_filter: "wf_filter x \<Longrightarrow> wire_size x < limit \<Longrightarrow> fits (wire_size x) (toWire x)"
proof (induction x rule: wf_filter.induct)
  case (1 k t xs)
  then show ?case by (auto intro!: fit)
next
  case (2 t x)
  then have "fits (wire_size x) (toWire x)" "wire_size x < limit" by auto
  then show ?case by (auto simp: fits_def intro!: fits_tlv[unfolded fits_def])
next
  case (3 k t d v)
  then show ?case
    by (auto simp: wf_assertion_def split: option.splits intro!: fit fits_octets_object octets_kinds(1))
next
  case (4 t ty subs)
  then show ?case
    by (auto simp: list_all_iff intro!: fit fits_octets_object octets_kinds(3))
next
  case (6 k t rule ty v d)
  then show ?case
    by (auto simp: opt_all_iff intro!: fit fits_flag fits_octets_object dest: octets_kinds opt_size_mem[of _ _ wire_size])
qed (auto intro!: fit)


lemma fits_tree: "wf_tree x \<Longrightarrow> wire_size x < limit \<Longrightarrow> fits (wire_size x) (toWire x)"
proof (induction x rule: wf_tree.induct)
  case (3 k t v)
  then show ?case
    using fits_boolean[where v = 0] fits_boolean[where v = 255] by (auto simp: truth_value_def)
qed (auto intro!: fit)

lemma fits_control [fit]:
  "control_size (ty, cr, val) < limit \<Longrightarrow>
   fits (control_size (ty, cr, val)) (LDAPControl_toWire t ty cr val)"
  by (auto simp: control_size_def LDAPControl_toWire_def intro!: fit dest: opt_size_mem[of val _ text_size])

lemma fits_controls [fit]:
  "seq_size (map control_size cs) < limit \<Longrightarrow>
   fits (seq_size (map control_size cs)) (LDAPControls_toWire cs)"
  unfolding LDAPControls_toWire_def by (auto intro!: fit)

lemma fits_result_head:
  "(\<And>n. n \<in> set (result_size r) \<Longrightarrow> n < limit) \<Longrightarrow> list_all2 fits (result_size r) (result_head r)"
  by (auto simp: result_size_def result_head_def referral_wires_def split: option.split intro!: fit)

lemma fits_auth:
  "wf_auth auth sasl \<Longrightarrow> auth_size auth < limit \<Longrightarrow> fits (auth_size auth) (bind_auth_wire auth sasl)"
  by (cases auth)
    (auto simp: wf_auth_def auth_size_def bind_auth_wire_def intro!: fit dest: opt_size_mem[of _ _ text_size])

lemma fits_op: "wf_op x \<Longrightarrow> wire_size x < limit \<Longrightarrow> fits (wire_size x) (toWire x)"
proof (induction x rule: wf_op.induct)
  case (1 t version dn auth sasl)
  then show ?case by (auto simp: LDAPBindRequest_toWire_def intro!: fit fits_auth)
next
  case (2 k t r)
  then show ?case
    by (auto simp: LDAPResult_toWire_def split: option.split intro!: fit fits_result_head)
next
  case (4 t base sc deref slim tlim types_only filt attrs)
  then show ?case by (auto intro!: fit fits_filter)
next
  case (5 t nm attrs)
  then show ?case by (force simp: LDAPSearchResultEntry_toWire_def intro!: fit)
next
  case (6 t uris)
  then show ?case by (auto simp: list_all_iff intro!: fit fits_octets_object octets_kinds(1))
next
  case (7 t obj mods)
  then obtain y xs where "obj = Some y" "mods = Some xs" by (auto split: option.splits)
  with 7 show ?case by (auto simp: list_all_iff intro!: fit fits_tree)
next
  case (8 t entry attrs)
  then obtain y ps where "entry = Some y" "attrs = Some ps" by (auto split: option.splits)
  with 8 show ?case by (auto simp: list_all_iff intro!: fit fits_tree)
next
  case (10 t entry rdn delold superior)
  then show ?case
    by (auto simp: LDAPModifyDNRequest_toWire_def intro!: fit dest: opt_size_mem[of _ _ text_size])
next
  case (11 t entry ava)
  then obtain k d v where "ava = OAttributeValueAssertion k 0x10 d (Some v)" "wf_assertion 0x10 d (Some v)"
    by (auto simp: wf_assertion_def split: ber.splits option.splits)
  with 11 show ?case
    by (auto simp: wf_assertion_def intro!: fit fits_octets_object octets_kinds(1))
next
  case (13 k t nm val)
  then show ?case
    by (auto simp: LDAPExtendedRequest_toWire_def intro!: fit dest: opt_size_mem[of _ _ text_size])
next
  case (14 k t r rname resp)
  then show ?case
    by (auto simp: LDAPExtendedResponse_toWire_def intro!: fit fits_result_head dest: opt_size_mem[of _ _ text_size])
next
  case (15 t nm val)
  then show ?case
    by (auto simp: LDAPIntermediateResponse_toWire_def intro!: fit
        dest: opt_size_mem[where f = "\<lambda>b. text_size (Byt b)"])
qed (auto intro!: fit)

lemma fits_message:
  assumes "wf_op v" "wire_size (OMessage t i v cs) < limit"
  shows "fits (wire_size (OMessage t i v cs)) (toWire (OMessage t i v cs))"
  using assms
  by (auto intro!: fit fits_op dest: opt_size_mem[where f = "\<lambda>cs. seq_size (map control_size cs)"])

end
