(* ===== verification/Collections.thy ===== *)
theory Collections
  imports PyText "HOL-Library.List_Lexorder" "HOL-Library.Char_ord"
begin

text \<open>
  Python's dictionaries, as association lists in insertion order with one pair per key, and the
  two case-insensitive mappings of the program, \<open>InsensitiveDict\<close> (\<open>_collections.py\<close>) and
  \<open>cidict\<close> (\<open>ldap/cidict.py\<close>). The laws of a mapping are the locale \<open>folding_map\<close>; both
  mappings are interpreted as one. What they differ in, the spelling a key keeps, is stated per
  class.
\<close>

section \<open>Dictionaries\<close>

type_synonym ('k, 'v) dict = "('k \<times> 'v) list"

text \<open>A stored key stays where it is; a new one goes to the end.\<close>

fun dict_set :: "'k \<Rightarrow> 'v \<Rightarrow> ('k, 'v) dict \<Rightarrow> ('k, 'v) dict" where
  "dict_set k v [] = [(k, v)]"
| "dict_set k v (kv # d) = (if fst kv = k then (k, v) # d else kv # dict_set k v d)"

definition dict_del :: "'k \<Rightarrow> ('k, 'v) dict \<Rightarrow> exn + ('k, 'v) dict" where
  "dict_del k d =
     (if map_of d k = None then Inl KeyError else Inr (filter (\<lambda>kv. fst kv \<noteq> k) d))"

definition dict_get :: "'k \<Rightarrow> ('k, 'v) dict \<Rightarrow> exn + 'v" where
  "dict_get k d = (case map_of d k of None \<Rightarrow> Inl KeyError | Some v \<Rightarrow> Inr v)"

definition dict_ok :: "('k, 'v) dict \<Rightarrow> bool" where
  "dict_ok d \<longleftrightarrow> distinct (map fst d)"

lemma map_of_dict_set [simp]: "map_of (dict_set k v d) = (map_of d)(k \<mapsto> v)"
  by (induction d) auto

lemma set_dict_set: "fst ` set (dict_set k v d) = insert k (fst ` set d)"
  by (induction d) auto

lemma dict_ok_set [simp]: "dict_ok d \<Longrightarrow> dict_ok (dict_set k v d)"
proof (induction d)
  case (Cons kv d)
  then show ?case using set_dict_set[of k v d] by (auto simp: dict_ok_def image_iff)
qed (simp add: dict_ok_def)

lemma dict_ok_Nil [simp]: "dict_ok []"
  by (simp add: dict_ok_def)

lemma map_of_filter_neq: "map_of (filter (\<lambda>kv. fst kv \<noteq> k) d) = (map_of d)(k := None)"
  by (induction d) (auto simp: fun_eq_iff)

lemma dict_ok_filter [simp]: "dict_ok d \<Longrightarrow> dict_ok (filter P d)"
  by (induction d) (auto simp: dict_ok_def)

lemma dict_set_new: "map_of d k = None \<Longrightarrow> dict_set k v d = d @ [(k, v)]"
  by (induction d) (auto split: if_splits)

lemma map_fst_dict_set:
  "map fst (dict_set k v d) = (if map_of d k = None then map fst d @ [k] else map fst d)"
  by (induction d) auto

section \<open>The mapping whose keys ignore case\<close>

type_synonym 'v insensitive = "(pytext, pytext \<times> 'v) dict"

text \<open>\<open>_normalize\<close>; both kinds of key have a \<open>lower\<close>.\<close>

definition normalize_key :: "pytext \<Rightarrow> pytext" where
  "normalize_key key = text_lower key"

definition id_empty :: "'v insensitive" where
  "id_empty = []"

definition id_getitem :: "'v insensitive \<Rightarrow> pytext \<Rightarrow> exn + 'v" where
  "id_getitem self key = bindE (dict_get (normalize_key key) self) (\<lambda>kv. Inr (snd kv))"

definition id_setitem :: "'v insensitive \<Rightarrow> pytext \<Rightarrow> 'v \<Rightarrow> 'v insensitive" where
  "id_setitem self key v = dict_set (normalize_key key) (key, v) self"

definition id_delitem :: "'v insensitive \<Rightarrow> pytext \<Rightarrow> exn + 'v insensitive" where
  "id_delitem self key = dict_del (normalize_key key) self"

definition id_contains :: "'v insensitive \<Rightarrow> pytext \<Rightarrow> bool" where
  "id_contains self key = (map_of self (normalize_key key) \<noteq> None)"

definition id_get :: "'v insensitive \<Rightarrow> pytext \<Rightarrow> 'v \<Rightarrow> 'v" where
  "id_get self key dflt =
     (case map_of self (normalize_key key) of None \<Rightarrow> dflt | Some item \<Rightarrow> snd item)"

definition id_items :: "'v insensitive \<Rightarrow> (pytext \<times> 'v) list" where
  "id_items self = map snd self"

definition id_keys :: "'v insensitive \<Rightarrow> pytext list" where
  "id_keys self = map (\<lambda>item. fst (snd item)) self"

definition id_values :: "'v insensitive \<Rightarrow> 'v list" where
  "id_values self = map (\<lambda>item. snd (snd item)) self"

definition id_len :: "'v insensitive \<Rightarrow> nat" where
  "id_len self = length self"

text \<open>\<open>MutableMapping.update\<close>, which \<open>__init__\<close> calls.\<close>

definition id_update :: "'v insensitive \<Rightarrow> (pytext \<times> 'v) list \<Rightarrow> 'v insensitive" where
  "id_update self kvs = foldl (\<lambda>d (k, v). id_setitem d k v) self kvs"

section \<open>The dictionary of attribute types\<close>

type_synonym 'v cidict = "(string, string \<times> 'v) dict"

definition ci_getitem :: "'v cidict \<Rightarrow> string \<Rightarrow> exn + 'v" where
  "ci_getitem self key = bindE (dict_get (lower key) self) (\<lambda>kv. Inr (snd kv))"

definition ci_setitem :: "'v cidict \<Rightarrow> string \<Rightarrow> 'v \<Rightarrow> 'v cidict" where
  "ci_setitem self key v =
     (let lowered = lower key;
          spelling = (case map_of self lowered of Some item \<Rightarrow> fst item | None \<Rightarrow> key)
      in dict_set lowered (spelling, v) self)"

definition ci_delitem :: "'v cidict \<Rightarrow> string \<Rightarrow> exn + 'v cidict" where
  "ci_delitem self key = dict_del (lower key) self"

definition ci_iter :: "'v cidict \<Rightarrow> string list" where
  "ci_iter self = map (\<lambda>item. fst (snd item)) self"

definition ci_len :: "'v cidict \<Rightarrow> nat" where
  "ci_len self = length self"

definition ci_has_key :: "'v cidict \<Rightarrow> string \<Rightarrow> bool" where
  "ci_has_key self key = (map_of self (lower key) \<noteq> None)"

section \<open>The contract of a mapping that folds its keys\<close>

locale folding_map =
  fixes fold_key :: "'k \<Rightarrow> 'f" and empty :: 'm
    and getitem :: "'m \<Rightarrow> 'k \<Rightarrow> exn + 'v" and setitem :: "'m \<Rightarrow> 'k \<Rightarrow> 'v \<Rightarrow> 'm"
    and delitem :: "'m \<Rightarrow> 'k \<Rightarrow> exn + 'm" and has_key :: "'m \<Rightarrow> 'k \<Rightarrow> bool"
    and keys :: "'m \<Rightarrow> 'k list" and inv :: "'m \<Rightarrow> bool"
  assumes inv_empty: "inv empty"
    and inv_setitem: "inv m \<Longrightarrow> inv (setitem m k v)"
    and inv_delitem: "inv m \<Longrightarrow> delitem m k = Inr m' \<Longrightarrow> inv m'"
    and has_empty: "\<not> has_key empty k"
    and has_setitem: "has_key (setitem m k v) k' \<longleftrightarrow> fold_key k' = fold_key k \<or> has_key m k'"
    and has_fold: "fold_key k = fold_key k' \<Longrightarrow> has_key m k = has_key m k'"
    and getitem_has: "(\<exists>v. getitem m k = Inr v) \<longleftrightarrow> has_key m k"
    and getitem_KeyError: "\<not> has_key m k \<Longrightarrow> getitem m k = Inl KeyError"
    and getitem_setitem:
      "getitem (setitem m k v) k' = (if fold_key k' = fold_key k then Inr v else getitem m k')"
    and delitem_missing: "\<not> has_key m k \<Longrightarrow> delitem m k = Inl KeyError"
    and delitem_present: "has_key m k \<Longrightarrow> \<exists>m'. delitem m k = Inr m'"
    and getitem_delitem:
      "delitem m k = Inr m' \<Longrightarrow>
       getitem m' k' = (if fold_key k' = fold_key k then Inl KeyError else getitem m k')"
    and keys_has: "inv m \<Longrightarrow> has_key m k \<longleftrightarrow> fold_key k \<in> fold_key ` set (keys m)"
    and keys_distinct: "inv m \<Longrightarrow> distinct (map fold_key (keys m))"
begin

text \<open>A key answers to every spelling.\<close>

lemma getitem_fold: "fold_key k = fold_key k' \<Longrightarrow> getitem (setitem m k v) k' = Inr v"
  by (simp add: getitem_setitem)

lemma setitem_same: "fold_key k = fold_key k' \<Longrightarrow>
    getitem (setitem (setitem m k v) k' w) = getitem (setitem m k' w)"
  by (auto simp: getitem_setitem fun_eq_iff)

lemma setitem_commute: "fold_key k \<noteq> fold_key k' \<Longrightarrow>
    getitem (setitem (setitem m k v) k' w) = getitem (setitem (setitem m k' w) k v)"
  by (auto simp: getitem_setitem fun_eq_iff)

lemma delitem_setitem:
  assumes "\<not> has_key m k" and "delitem (setitem m k v) k = Inr m'"
  shows "getitem m' k' = getitem m k'"
proof (cases "fold_key k' = fold_key k")
  case True
  then have "\<not> has_key m k'" using assms(1) has_fold by metis
  then show ?thesis using True by (simp add: getitem_delitem[OF assms(2)] getitem_KeyError)
qed (simp add: getitem_delitem[OF assms(2)] getitem_setitem)

text \<open>Setting many pairs, the last one of a key wins.\<close>

definition update :: "'m \<Rightarrow> ('k \<times> 'v) list \<Rightarrow> 'm" where
  "update m kvs = foldl (\<lambda>d (k, v). setitem d k v) m kvs"

lemma inv_update: "inv m \<Longrightarrow> inv (update m kvs)"
  unfolding update_def by (induction kvs arbitrary: m) (auto simp: inv_setitem)

lemma getitem_update:
  "getitem (update m kvs) k =
     (case map_of (rev (map (\<lambda>(k, v). (fold_key k, v)) kvs)) (fold_key k) of
        Some v \<Rightarrow> Inr v | None \<Rightarrow> getitem m k)"
  unfolding update_def
proof (induction kvs arbitrary: m)
  case (Cons kv kvs)
  then show ?case
    by (cases kv) (auto simp: getitem_setitem map_add_def split: option.split)
qed simp

end

section \<open>The mappings meet the contract\<close>

text \<open>Every stored pair stands under its own folded key.\<close>

definition folded :: "('k \<Rightarrow> 'f) \<Rightarrow> ('f, 'k \<times> 'v) dict \<Rightarrow> bool" where
  "folded fd d \<longleftrightarrow> dict_ok d \<and> (\<forall>(f, k, v) \<in> set d. f = fd k)"

lemma folded_keys: "folded fd d \<Longrightarrow> map fd (map (\<lambda>item. fst (snd item)) d) = map fst d"
  by (auto simp: folded_def)

lemma folded_set: "folded fd d \<Longrightarrow> fd k = f \<Longrightarrow> folded fd (dict_set f (k, v) d)"
proof -
  assume a: "folded fd d" "fd k = f"
  have "set (dict_set f (k, v) d) \<subseteq> insert (f, k, v) (set d)" by (induction d) auto
  then show ?thesis using a by (auto simp: folded_def)
qed

lemma folded_filter [simp]: "folded fd d \<Longrightarrow> folded fd (filter P d)"
  by (auto simp: folded_def)

lemma has_map_of_keys: "map_of d f \<noteq> None \<longleftrightarrow> f \<in> set (map fst d)"
  by (simp add: map_of_eq_None_iff)

lemma folded_has:
  assumes "folded fd d"
  shows "map_of d (fd k) \<noteq> None \<longleftrightarrow> fd k \<in> fd ` set (map (\<lambda>item. fst (snd item)) d)"
  unfolding has_map_of_keys folded_keys[OF assms, symmetric] by (simp add: image_image)

lemma folded_distinct: "folded fd d \<Longrightarrow> distinct (map fd (map (\<lambda>item. fst (snd item)) d))"
  by (simp only: folded_keys) (simp add: folded_def dict_ok_def)

lemma folded_Nil [simp]: "folded fd []"
  by (simp add: folded_def)

lemmas dict_laws = dict_get_def dict_del_def map_of_filter_neq

lemmas id_defs = id_empty_def id_setitem_def id_delitem_def id_getitem_def id_contains_def

interpretation insensitive: folding_map normalize_key id_empty id_getitem id_setitem id_delitem
    id_contains id_keys "folded normalize_key"
proof (unfold_locales, goal_cases)
  case (13 m k)
  then show ?case by (simp only: id_contains_def id_keys_def folded_has)
next
  case (14 m)
  then show ?case by (simp only: id_keys_def folded_distinct)
qed (auto simp: id_defs dict_laws folded_set split: option.split if_splits)

lemmas ci_defs = ci_setitem_def ci_delitem_def ci_getitem_def ci_has_key_def Let_def

lemma ci_folded_set:
  assumes "folded lower m"
  shows "folded lower (ci_setitem m k v)"
proof -
  have "lower (fst item) = lower k" if "map_of m (lower k) = Some item" for item
    using assms map_of_SomeD[OF that] by (auto simp: folded_def)
  then show ?thesis using assms by (auto simp: ci_setitem_def Let_def intro!: folded_set split: option.split)
qed

interpretation cidict: folding_map lower "[]" ci_getitem ci_setitem ci_delitem ci_has_key ci_iter
    "folded lower"
proof (unfold_locales, goal_cases)
  case (2 m k v)
  then show ?case by (rule ci_folded_set)
next
  case (13 m k)
  then show ?case by (simp only: ci_has_key_def ci_iter_def folded_has)
next
  case (14 m)
  then show ?case by (simp only: ci_iter_def folded_distinct)
qed (auto simp: ci_defs dict_laws split: option.split if_splits)

section \<open>Lemmas: the spelling a key keeps\<close>

lemma ci_setitem_spelling:
  "ci_has_key m k \<Longrightarrow> ci_iter (ci_setitem m k v) = ci_iter m"
proof -
  assume "ci_has_key m k"
  then obtain item where item: "map_of m (lower k) = Some item" by (auto simp: ci_has_key_def)
  have "map_of m f = Some item \<Longrightarrow>
      map (\<lambda>item. fst (snd item)) (dict_set f (fst item, v) m) = map (\<lambda>item. fst (snd item)) m" for f
    by (induction m) auto
  with item show ?thesis by (simp add: ci_setitem_def ci_iter_def)
qed

lemma ci_setitem_new: "\<not> ci_has_key m k \<Longrightarrow> ci_iter (ci_setitem m k v) = ci_iter m @ [k]"
proof -
  assume "\<not> ci_has_key m k"
  then have none: "map_of m (lower k) = None" unfolding ci_has_key_def not_not .
  have "map_of m f = None \<Longrightarrow>
      map (\<lambda>item. fst (snd item)) (dict_set f (k, v) m) = map (\<lambda>item. fst (snd item)) m @ [k]" for f
    by (induction m) auto
  with none show ?thesis by (simp add: ci_setitem_def ci_iter_def)
qed

lemma id_setitem_mem: "k \<in> set (id_keys (id_setitem m k v))"
  unfolding id_keys_def id_setitem_def by (induction m) auto

end
