(* ===== verification/AttributeSet.thy ===== *)
theory AttributeSet
  imports Collections
begin

text \<open>
  \<open>attributeset.py\<close>: the values of one attribute. A Python set is a list without duplicates, in
  the order it is iterated in; since that order is the interpreter's, no claim rests on it
  except where the code sorts. Sorting text and bytes together is Python's \<open>TypeError\<close>.
\<close>

section \<open>The order of texts\<close>

text \<open>Within a kind the order of the code; across kinds, which the code never gets to, text first.\<close>

instantiation pytext :: linorder
begin

fun less_eq_pytext :: "pytext \<Rightarrow> pytext \<Rightarrow> bool" where
  "less_eq_pytext (Str s) (Str t) = (s \<le> t)"
| "less_eq_pytext (Byt b) (Byt c) = (b \<le> c)"
| "less_eq_pytext (Str s) (Byt b) = True"
| "less_eq_pytext (Byt b) (Str s) = False"

definition less_pytext :: "pytext \<Rightarrow> pytext \<Rightarrow> bool" where
  "less_pytext x y \<longleftrightarrow> x \<le> y \<and> \<not> y \<le> x"

instance
proof
  fix x y z :: pytext
  show "(x < y) = (x \<le> y \<and> \<not> y \<le> x)" by (simp add: less_pytext_def)
  show "x \<le> x" by (cases x) simp_all
  show "x \<le> y \<Longrightarrow> y \<le> z \<Longrightarrow> x \<le> z" by (cases x; cases y; cases z) auto
  show "x \<le> y \<Longrightarrow> y \<le> x \<Longrightarrow> x = y" by (cases x; cases y) auto
  show "x \<le> y \<or> y \<le> x" by (cases x; cases y) auto
qed

end

fun is_str :: "pytext \<Rightarrow> bool" where
  "is_str (Str s) = True"
| "is_str (Byt b) = False"

text \<open>\<open>list.sort()\<close> and \<open>sorted\<close> of texts.\<close>

definition one_kind :: "pytext list \<Rightarrow> bool" where
  "one_kind xs \<longleftrightarrow> list_all is_str xs \<or> list_all (\<lambda>x. \<not> is_str x) xs"

definition py_sort :: "pytext list \<Rightarrow> exn + pytext list" where
  "py_sort xs = (if one_kind xs \<or> length xs < 2 then Inr (sort xs) else Inl TypeError)"

section \<open>Sets of values\<close>

record attrset =
  akey :: pytext
  avals :: "pytext list"

definition mkAttributeSet :: "pytext \<Rightarrow> pytext list \<Rightarrow> attrset" where
  "mkAttributeSet key vals = \<lparr>akey = key, avals = rev (remdups (rev vals))\<rparr>"

definition attrset_eq :: "attrset \<Rightarrow> attrset \<Rightarrow> bool" where
  "attrset_eq self other \<longleftrightarrow>
     (if akey self \<noteq> akey other then False else set (avals self) = set (avals other))"

text \<open>The comparison with any other iterable of values.\<close>

definition attrset_eq_values :: "attrset \<Rightarrow> pytext list \<Rightarrow> exn + bool" where
  "attrset_eq_values self other =
     bindE (py_sort (avals self)) (\<lambda>me. bindE (py_sort other) (\<lambda>him. Inr (me = him)))"

definition attrset_add :: "attrset \<Rightarrow> pytext \<Rightarrow> exn + attrset" where
  "attrset_add self key =
     bindE (get_strings key) (\<lambda>ks.
       if \<exists>k \<in> set ks. k \<in> set (avals self) then Inr self
       else Inr (self\<lparr>avals := avals self @ [key]\<rparr>))"

text \<open>The loop of \<open>remove\<close>: the first value that is a spelling of the key goes.\<close>

fun remove_first :: "pytext list \<Rightarrow> pytext list \<Rightarrow> exn + pytext list" where
  "remove_first spellings [] = Inl KeyError"
| "remove_first spellings (v # vs) =
     (if v \<in> set spellings then Inr vs
      else bindE (remove_first spellings vs) (\<lambda>vs'. Inr (v # vs')))"

definition attrset_remove :: "attrset \<Rightarrow> pytext \<Rightarrow> exn + attrset" where
  "attrset_remove self key =
     bindE (get_strings key) (\<lambda>spellings.
     bindE (remove_first spellings (avals self)) (\<lambda>vs. Inr (self\<lparr>avals := vs\<rparr>)))"

text \<open>\<open>set.update\<close>, which \<open>LDAPAttributeSet\<close> does not override.\<close>

definition attrset_update :: "attrset \<Rightarrow> pytext list \<Rightarrow> attrset" where
  "attrset_update self vs =
     self\<lparr>avals := avals self @ filter (\<lambda>v. v \<notin> set (avals self)) (rev (remdups (rev vs)))\<rparr>"

definition attrset_copy :: "attrset \<Rightarrow> attrset" where
  "attrset_copy self = attrset_update (mkAttributeSet (akey self) []) (avals self)"

section \<open>Lemmas\<close>

definition attrset_ok :: "attrset \<Rightarrow> bool" where
  "attrset_ok a \<longleftrightarrow> distinct (avals a)"

lemma set_mk [simp]: "set (avals (mkAttributeSet k vs)) = set vs"
  and akey_mk [simp]: "akey (mkAttributeSet k vs) = k"
  and ok_mk [simp]: "attrset_ok (mkAttributeSet k vs)"
  by (simp_all add: mkAttributeSet_def attrset_ok_def)

lemma set_update [simp]: "set (avals (attrset_update a vs)) = set (avals a) \<union> set vs"
  and akey_update [simp]: "akey (attrset_update a vs) = akey a"
  by (auto simp: attrset_update_def)

lemma ok_update [simp]: "attrset_ok a \<Longrightarrow> attrset_ok (attrset_update a vs)"
  by (auto simp: attrset_ok_def attrset_update_def)

lemma attrset_eq_copy: "attrset_eq (attrset_copy a) a"
  by (simp add: attrset_eq_def attrset_copy_def)

lemma attrset_eq_refl [simp]: "attrset_eq a a"
  and attrset_eq_sym: "attrset_eq a b \<Longrightarrow> attrset_eq b a"
  and attrset_eq_trans: "attrset_eq a b \<Longrightarrow> attrset_eq b c \<Longrightarrow> attrset_eq a c"
  by (auto simp: attrset_eq_def split: if_splits)

lemma remove_first_KeyError:
  "remove_first ks vs = Inl e \<longleftrightarrow> set ks \<inter> set vs = {} \<and> e = KeyError"
  by (induction vs) (auto simp: bindE_eq_Inl)

lemma remove_first_only:
  "distinct vs \<Longrightarrow> set ks \<inter> set vs = {v} \<Longrightarrow> remove_first ks vs = Inr (filter (\<lambda>x. x \<noteq> v) vs)"
proof (induction vs)
  case (Cons x vs)
  show ?case
  proof (cases "x \<in> set ks")
    case True
    then have "x = v" using Cons.prems(2) by auto
    then show ?thesis using True Cons.prems(1) by (auto intro!: filter_True[symmetric])
  next
    case False
    then have "set ks \<inter> set vs = {v}" using Cons.prems(2) by auto
    then show ?thesis using Cons False by auto
  qed
qed simp

lemma remove_first_set:
  "distinct vs \<Longrightarrow> remove_first ks vs = Inr vs' \<Longrightarrow>
   \<exists>v \<in> set ks. v \<in> set vs \<and> set vs' = set vs - {v} \<and> distinct vs'"
proof (induction vs arbitrary: vs')
  case (Cons x vs)
  show ?case
  proof (cases "x \<in> set ks")
    case False
    then obtain ws where ws: "remove_first ks vs = Inr ws" "vs' = x # ws" using Cons.prems by auto
    with Cons obtain v where "v \<in> set ks" "v \<in> set vs" "set ws = set vs - {v}" "distinct ws" by auto
    then show ?thesis using ws(2) Cons.prems(1) False by (intro bexI[of _ v]) auto
  qed (use Cons.prems in auto)
qed simp

text \<open>The two spellings of a text, and no more.\<close>

lemma get_strings_mem: "get_strings k = Inr ks \<Longrightarrow> k \<in> set ks"
  by (cases k) auto

end
