(* ===== verification/DistinguishedName.thy ===== *)
theory DistinguishedName
  imports PyText "HOL-Library.List_Lexorder" "HOL-Library.Char_ord"
begin

text \<open>
  \<open>protocols/ldap/distinguishedname.py\<close>: attribute values, relative distinguished names and
  distinguished names, with their escaping, their text form and its parser, their comparisons
  and the containment test of the tree. What parsing relies on is the interface \<open>separated\<close>,
  met by the two levels of the text form.
\<close>

section \<open>Escaping\<close>

abbreviation backslash :: char where "backslash \<equiv> CHR 0x5C"

definition escapedChars :: string where
  "escapedChars = [CHR '','', CHR ''+'', CHR 0x22, backslash, CHR ''<'', CHR ''>'', CHR '';'', CHR ''='']"

definition escapedChars_leading :: string where
  "escapedChars_leading = '' #''"

definition escapedChars_trailing :: string where
  "escapedChars_trailing = '' #''"

text \<open>One digit of Python's \<open>%02X\<close>.\<close>

definition hex_upper :: "nat \<Rightarrow> char" where
  "hex_upper n = ''0123456789ABCDEF'' ! n"

definition escape_char :: "char \<Rightarrow> string" where
  "escape_char c =
     (if c \<in> set escapedChars then [backslash, c]
      else if (of_char c :: nat) \<le> 31
      then [backslash, hex_upper (of_char c div 16), hex_upper (of_char c mod 16)]
      else [c])"

definition escape :: "string \<Rightarrow> string" where
  "escape s =
     (let (r, s1) = (if s \<noteq> [] \<and> hd s \<in> set escapedChars_leading
                     then ([backslash, hd s], tl s) else ([], s));
          (r_trailer, s2) = (if s1 \<noteq> [] \<and> last s1 \<in> set escapedChars_trailing
                     then ([backslash, last s1], butlast s1) else ([], s1))
      in r @ concat (map escape_char s2) @ r_trailer)"

text \<open>
  \<open>int(s, 16)\<close> of one or two characters, the first of them a digit: Python strips white space
  around the number.
\<close>

definition hex_value :: "char \<Rightarrow> nat option" where
  "hex_value c =
     (let n = of_char c :: nat in
      if 48 \<le> n \<and> n \<le> 57 then Some (n - 48)
      else if 65 \<le> n \<and> n \<le> 70 then Some (n - 55)
      else if 97 \<le> n \<and> n \<le> 102 then Some (n - 87)
      else None)"

definition py_space :: "char \<Rightarrow> bool" where
  "py_space c =
     (let n = of_char c :: nat in 9 \<le> n \<and> n \<le> 13 \<or> 28 \<le> n \<and> n \<le> 32 \<or> n = 133 \<or> n = 160)"

fun int16 :: "string \<Rightarrow> exn + nat" where
  "int16 [a] = (case hex_value a of Some x \<Rightarrow> Inr x | None \<Rightarrow> Inl ValueError)"
| "int16 [a, b] =
     (case (hex_value a, hex_value b) of
        (Some x, Some y) \<Rightarrow> Inr (16 * x + y)
      | (Some x, None) \<Rightarrow> if py_space b then Inr x else Inl ValueError
      | _ \<Rightarrow> Inl ValueError)"
| "int16 _ = Inl ValueError"

fun unescape :: "string \<Rightarrow> exn + string" where
  "unescape [] = Inr []"
| "unescape (c # s) =
     (if c = backslash then
        (case s of
           [] \<Rightarrow> Inl IndexError
         | d # t \<Rightarrow>
             if d \<in> set ''0123456789abcdef''
             then bindE (int16 (take 2 s)) (\<lambda>n.
                  bindE (unescape (drop 1 t)) (\<lambda>r. Inr (char_of n # r)))
             else bindE (unescape t) (\<lambda>r. Inr (d # r)))
      else bindE (unescape s) (\<lambda>r. Inr (c # r)))"

section \<open>Splitting\<close>

definition append_last :: "string list \<Rightarrow> string \<Rightarrow> string list" where
  "append_last r t = butlast r @ [last r @ t]"

function split_loop :: "char \<Rightarrow> string \<Rightarrow> string list \<Rightarrow> string list" where
  "split_loop separator [] r = r"
| "split_loop separator (first # s) r =
     (if first = backslash then split_loop separator (drop 1 s) (append_last r (first # take 1 s))
      else if first = separator
      then split_loop separator (dropWhile (\<lambda>c. c = CHR '' '') s) (r @ [[]])
      else split_loop separator s (append_last r [first]))"
  by pat_completeness auto
termination
  by (relation "measure (\<lambda>(separator, s, r). length s)")
    (auto intro: le_imp_less_Suc length_dropWhile_le)

definition splitOnNotEscaped :: "string \<Rightarrow> char \<Rightarrow> string list" where
  "splitOnNotEscaped s separator = (if s = [] then [] else split_loop separator s [[]])"

text \<open>\<open>separator.join(parts)\<close>.\<close>

fun join :: "string \<Rightarrow> string list \<Rightarrow> string" where
  "join sep [] = []"
| "join sep [p] = p"
| "join sep (p # q # ps) = p @ sep @ join sep (q # ps)"

section \<open>Attribute types and values\<close>

datatype ava = AVA (attributeType: string) (avalue: string)

type_synonym rdn = "ava list"
type_synonym dn = "rdn list"

definition ava_of_text :: "string \<Rightarrow> exn + ava" where
  "ava_of_text text =
     (if CHR ''='' \<notin> set text then Inl (InvalidRelativeDistinguishedName text)
      else Inr (AVA (takeWhile (\<lambda>c. c \<noteq> CHR ''='') text) (tl (dropWhile (\<lambda>c. c \<noteq> CHR ''='') text))))"

definition ava_text :: "ava \<Rightarrow> string" where
  "ava_text a = join ''='' [escape (attributeType a), escape (avalue a)]"

definition ava_eq :: "ava \<Rightarrow> ava \<Rightarrow> bool" where
  "ava_eq a b \<longleftrightarrow>
     lower (attributeType a) = lower (attributeType b) \<and> lower (avalue a) = lower (avalue b)"

definition ava_lt :: "ava \<Rightarrow> ava \<Rightarrow> bool" where
  "ava_lt a b \<longleftrightarrow>
     (if attributeType a \<noteq> attributeType b then attributeType a < attributeType b
      else avalue a < avalue b)"

section \<open>Relative distinguished names\<close>

definition rdn_of_text :: "string \<Rightarrow> exn + rdn" where
  "rdn_of_text s =
     mapE (\<lambda>x. bindE (unescape x) ava_of_text) (splitOnNotEscaped s (CHR ''+''))"

definition rdn_text :: "rdn \<Rightarrow> string" where
  "rdn_text r = join ''+'' (map ava_text r)"

definition rdn_eq :: "rdn \<Rightarrow> rdn \<Rightarrow> bool" where
  "rdn_eq a b \<longleftrightarrow> list_all2 ava_eq a b"

text \<open>Python's order of tuples: the first pair that is not equal decides, then the lengths.\<close>

fun tuple_lt :: "('a \<Rightarrow> 'a \<Rightarrow> bool) \<Rightarrow> ('a \<Rightarrow> 'a \<Rightarrow> bool) \<Rightarrow> 'a list \<Rightarrow> 'a list \<Rightarrow> bool" where
  "tuple_lt eq lt (x # xs) (y # ys) = (if eq x y then tuple_lt eq lt xs ys else lt x y)"
| "tuple_lt eq lt [] (y # ys) = True"
| "tuple_lt eq lt xs [] = False"

definition rdn_lt :: "rdn \<Rightarrow> rdn \<Rightarrow> bool" where
  "rdn_lt a b = tuple_lt ava_eq ava_lt a b"

section \<open>Distinguished names\<close>

definition dn_of_text :: "string \<Rightarrow> exn + dn" where
  "dn_of_text s = mapE rdn_of_text (splitOnNotEscaped s (CHR '',''))"

definition dn_of :: "pytext \<Rightarrow> exn + dn" where
  "dn_of v = bindE (to_unicode v) dn_of_text"

definition dn_text :: "dn \<Rightarrow> string" where
  "dn_text d = join '','' (map rdn_text d)"

definition dn_up :: "dn \<Rightarrow> dn" where
  "dn_up d = drop 1 d"

definition dn_eq :: "dn \<Rightarrow> dn \<Rightarrow> bool" where
  "dn_eq a b \<longleftrightarrow> list_all2 rdn_eq a b"

text \<open>A distinguished name compared with a text.\<close>

fun dn_eq_text :: "dn \<Rightarrow> pytext \<Rightarrow> bool" where
  "dn_eq_text d (Byt b) \<longleftrightarrow> utf8_encode (dn_text d) = b"
| "dn_eq_text d (Str s) \<longleftrightarrow> dn_text d = s"

definition dn_lt :: "dn \<Rightarrow> dn \<Rightarrow> bool" where
  "dn_lt a b = tuple_lt rdn_eq rdn_lt a b"

text \<open>
  \<open>str.upper\<close>, as far as the comparison with an ASCII text needs it: the characters beyond
  ASCII have no capital among the ASCII letters but for the sharp s, whose capital is "SS".
\<close>

definition upper_char :: "char \<Rightarrow> char" where
  "upper_char c = (let n = of_char c :: nat in if 97 \<le> n \<and> n \<le> 122 then char_of (n - 32) else c)"

text \<open>The loop of \<open>getDomainName\<close> over the names from the root down.\<close>

fun domain_loop :: "rdn list \<Rightarrow> string list \<Rightarrow> string list" where
  "domain_loop [] domainParts = domainParts"
| "domain_loop (rdn # l) domainParts =
     (if length rdn \<noteq> 1 then domainParts
      else if map upper_char (attributeType (rdn ! 0)) \<noteq> ''DC'' then domainParts
      else domain_loop l (avalue (rdn ! 0) # domainParts))"

definition getDomainName :: "dn \<Rightarrow> string option" where
  "getDomainName d =
     (let domainParts = domain_loop (rev d) [] in
      if domainParts \<noteq> [] then Some (join ''.'' domainParts) else None)"

text \<open>The loop of \<open>contains\<close>, which pops from the ends of both lists.\<close>

fun contains_loop :: "rdn list \<Rightarrow> rdn list \<Rightarrow> bool" where
  "contains_loop (m # mine) (i # its) = (if \<not> rdn_eq m i then False else contains_loop mine its)"
| "contains_loop (m # mine) [] = False"
| "contains_loop [] its = True"

definition contains :: "dn \<Rightarrow> dn \<Rightarrow> bool" where
  "contains self other = (if dn_eq self other then True else contains_loop (rev self) (rev other))"

section \<open>Lemmas: escaping\<close>

lemma char_of_of_char_nat [simp]: "char_of (of_char c :: nat) = c"
  by simp

lemma hex_upper_value:
  "n < 16 \<Longrightarrow> hex_value (hex_upper n) = Some n"
proof -
  assume "n < 16"
  then have "n \<in> set [0 ..< 16]" by simp
  then show ?thesis
    unfolding hex_upper_def hex_value_def by (auto simp: upt_rec numeral_eq_Suc)
qed

lemma hex_upper_low: "n < 2 \<Longrightarrow> hex_upper n \<in> set ''0123456789abcdef''"
  by (auto simp: hex_upper_def less_2_cases_iff)

lemma unescape_control:
  assumes "(of_char c :: nat) \<le> 31"
  shows "unescape ([backslash, hex_upper (of_char c div 16), hex_upper (of_char c mod 16)] @ t) =
    bindE (unescape t) (\<lambda>r. Inr (c # r))"
proof -
  let ?n = "of_char c :: nat"
  have d: "hex_upper (?n div 16) \<in> set ''0123456789abcdef''"
    using assms by (intro hex_upper_low) simp
  have v: "hex_value (hex_upper (?n div 16)) = Some (?n div 16)"
    "hex_value (hex_upper (?n mod 16)) = Some (?n mod 16)"
    using assms by (simp_all add: hex_upper_value)
  have "16 * (?n div 16) + ?n mod 16 = ?n" by simp
  with d v show ?thesis by (simp del: set_simps list.set)
qed

lemma escaped_not_hex: "c \<in> set escapedChars \<or> c \<in> set '' #'' \<Longrightarrow> c \<notin> set ''0123456789abcdef''"
  by (auto simp: escapedChars_def)

lemma unescape_backslash:
  "d \<notin> set ''0123456789abcdef'' \<Longrightarrow>
   unescape (backslash # d # t) = bindE (unescape t) (\<lambda>r. Inr (d # r))"
  by (simp del: list.set)

lemma unescape_escape_char:
  "unescape (escape_char c @ t) = bindE (unescape t) (\<lambda>r. Inr (c # r))"
proof -
  consider "c \<in> set escapedChars" | "c \<notin> set escapedChars" "(of_char c :: nat) \<le> 31"
    | "c \<notin> set escapedChars" "\<not> (of_char c :: nat) \<le> 31" by blast
  then show ?thesis
  proof cases
    case 1
    then show ?thesis
      using unescape_backslash[OF escaped_not_hex, of c t] by (simp add: escape_char_def)
  next
    case 2
    then show ?thesis using unescape_control[of c t] by (simp add: escape_char_def)
  next
    case 3
    then have "c \<noteq> backslash" by (auto simp: escapedChars_def)
    with 3 show ?thesis by (simp add: escape_char_def)
  qed
qed

lemma unescape_escape_chars:
  "unescape (concat (map escape_char s) @ t) = bindE (unescape t) (\<lambda>r. Inr (s @ r))"
  by (induction s) (auto simp: unescape_escape_char bindE_assoc)

lemma escape_cases:
  obtains (plain) s1 lead trail where "s = lead @ s1 @ trail"
    "escape s = concat (map (\<lambda>c. [backslash, c]) lead) @ concat (map escape_char s1)
       @ concat (map (\<lambda>c. [backslash, c]) trail)"
    "set lead \<subseteq> set '' #''" "set trail \<subseteq> set '' #''"
    "lead = [] \<Longrightarrow> s \<noteq> [] \<Longrightarrow> hd s \<notin> set '' #''"
proof -
  let ?lead = "if s \<noteq> [] \<and> hd s \<in> set escapedChars_leading then [hd s] else []"
  let ?s1 = "drop (length ?lead) s"
  let ?trail = "if ?s1 \<noteq> [] \<and> last ?s1 \<in> set escapedChars_trailing then [last ?s1] else []"
  let ?s2 = "if ?trail = [] then ?s1 else butlast ?s1"
  have "s = ?lead @ ?s2 @ ?trail" by (cases s) auto
  moreover have "escape s = concat (map (\<lambda>c. [backslash, c]) ?lead) @ concat (map escape_char ?s2)
       @ concat (map (\<lambda>c. [backslash, c]) ?trail)"
    by (cases s) (simp_all add: escape_def Let_def)
  moreover have "set ?lead \<subseteq> set '' #''" "set ?trail \<subseteq> set '' #''"
    "?lead = [] \<Longrightarrow> s \<noteq> [] \<Longrightarrow> hd s \<notin> set '' #''"
    by (auto simp: escapedChars_leading_def escapedChars_trailing_def split: if_splits)
  ultimately show ?thesis by (rule that)
qed

lemma unescape_backslashes:
  "set l \<subseteq> set '' #'' \<Longrightarrow>
   unescape (concat (map (\<lambda>c. [backslash, c]) l) @ t) = bindE (unescape t) (\<lambda>r. Inr (l @ r))"
proof (induction l)
  case (Cons c l)
  then have "c \<notin> set ''0123456789abcdef''" by (intro escaped_not_hex) auto
  moreover have "set l \<subseteq> set '' #''" using Cons.prems by simp
  ultimately show ?case using Cons.IH unescape_backslash by (simp add: bindE_assoc del: list.set unescape.simps)
qed simp

lemma unescape_escape_append: "unescape (escape s @ t) = bindE (unescape t) (\<lambda>r. Inr (s @ r))"
proof (cases s rule: escape_cases)
  case (plain s1 lead trail)
  show ?thesis
    unfolding plain(2) append_assoc unescape_backslashes[OF plain(3)] unescape_escape_chars
      unescape_backslashes[OF plain(4)]
    using plain(1) by (simp add: bindE_assoc)
qed

lemma unescape_escape: "unescape (escape s) = Inr s"
  using unescape_escape_append[of s "[]"] by simp

section \<open>Lemmas: splitting\<close>

text \<open>A piece of text that closes its escapes and holds no bare separator.\<close>

fun closed :: "char \<Rightarrow> string \<Rightarrow> bool" where
  "closed sep [] = True"
| "closed sep (c # s) =
     (if c = backslash then (case s of [] \<Rightarrow> False | d # t \<Rightarrow> closed sep t)
      else c \<noteq> sep \<and> closed sep s)"

lemma closed_append: "closed sep p \<Longrightarrow> closed sep (p @ q) = closed sep q"
proof (induction sep p rule: closed.induct)
  case (2 sep c s)
  then show ?case by (cases "c = backslash"; cases s) simp_all
qed simp

lemma closed_join:
  "closed sep by \<Longrightarrow> (\<And>p. p \<in> set ps \<Longrightarrow> closed sep p) \<Longrightarrow> closed sep (join by ps)"
  by (induction "by" ps rule: join.induct) (auto simp: closed_append)

lemma append_last_append: "append_last (r @ [c]) t = r @ [c @ t]"
  by (simp add: append_last_def)

lemma split_loop_closed:
  "closed sep p \<Longrightarrow> sep \<noteq> backslash \<Longrightarrow> split_loop sep (p @ q) (r @ [c]) = split_loop sep q (r @ [c @ p])"
proof (induction sep p arbitrary: c rule: closed.induct)
  case (2 sep x s)
  show ?case
  proof (cases "x = backslash")
    case True
    with 2 obtain d t where "s = d # t" "closed sep t" by (auto split: list.splits)
    with 2 True show ?thesis by (simp add: append_last_append)
  qed (use 2 in \<open>simp add: append_last_append\<close>)
qed simp

lemma split_loop_join:
  "\<forall>p \<in> set ps. closed sep p \<and> (p = [] \<or> hd p \<noteq> CHR '' '') \<Longrightarrow> ps \<noteq> [] \<Longrightarrow>
   sep \<noteq> backslash \<Longrightarrow> sep \<noteq> CHR '' '' \<Longrightarrow>
   split_loop sep (join [sep] ps) (r @ [[]]) = r @ ps"
proof (induction "[sep]" ps arbitrary: r rule: join.induct)
  case (2 p)
  then show ?case using split_loop_closed[of sep p "[]" r "[]"] by simp
next
  case (3 p q ps)
  have "dropWhile (\<lambda>c. c = CHR '' '') (join [sep] (q # ps)) = join [sep] (q # ps)"
    using 3(2,5) by (cases ps; cases q) auto
  then show ?case
    using 3(1)[of "r @ [p]"] 3(2-) split_loop_closed[of sep p "sep # join [sep] (q # ps)" r "[]"] by simp
qed simp

locale separated =
  fixes sep :: char and parse :: "string \<Rightarrow> exn + 'a" and show_part :: "'a \<Rightarrow> string"
    and ok :: "'a \<Rightarrow> bool"
  assumes sep: "sep \<noteq> backslash" "sep \<noteq> CHR '' ''"
    and show_closed: "closed sep (show_part x)"
    and show_hd: "show_part x \<noteq> [] \<Longrightarrow> hd (show_part x) \<noteq> CHR '' ''"
    and parse_show: "ok x \<Longrightarrow> parse (show_part x) = Inr x"
begin

text \<open>One part that prints as nothing cannot be told from no part.\<close>

lemma split_show:
  assumes "\<not> (length xs = 1 \<and> show_part (hd xs) = [])"
  shows "splitOnNotEscaped (join [sep] (map show_part xs)) sep = map show_part xs"
proof (cases "map show_part xs")
  case Nil
  then show ?thesis by (simp add: splitOnNotEscaped_def)
next
  case (Cons p ps)
  have ne: "join [sep] (map show_part xs) \<noteq> []"
    using Cons assms by (cases ps) auto
  have "split_loop sep (join [sep] (map show_part xs)) ([] @ [[]]) = [] @ map show_part xs"
    using Cons show_closed show_hd by (intro split_loop_join sep) auto
  with ne show ?thesis by (simp add: splitOnNotEscaped_def)
qed

lemma parse_parts:
  assumes "\<not> (length xs = 1 \<and> show_part (hd xs) = [])" and "\<And>x. x \<in> set xs \<Longrightarrow> ok x"
  shows "mapE parse (splitOnNotEscaped (join [sep] (map show_part xs)) sep) = Inr xs"
proof -
  have "mapE parse (map show_part xs) = Inr xs"
    using assms(2) by (induction xs) (auto simp: parse_show)
  with assms(1) show ?thesis by (simp add: split_show)
qed

end


section \<open>Lemmas: the two levels of a name\<close>

lemma closed_escape_char:
  assumes "sep \<in> set escapedChars" "sep \<noteq> backslash"
  shows "closed sep (escape_char c)"
proof -
  have sep: "sep \<notin> set ''0123456789ABCDEF''" and bs: "backslash \<notin> set ''0123456789ABCDEF''"
    using assms(1) by (auto simp: escapedChars_def)
  have "hex_upper (n mod 16) \<in> set ''0123456789ABCDEF''" for n
    unfolding hex_upper_def by (rule nth_mem) simp
  then have h: "hex_upper (n mod 16) \<noteq> sep" "hex_upper (n mod 16) \<noteq> backslash" for n
    using sep bs by metis+
  have "c \<notin> set escapedChars \<Longrightarrow> c \<noteq> sep \<and> c \<noteq> backslash"
    using assms(1) by (auto simp: escapedChars_def)
  then show ?thesis using h by (simp add: escape_char_def)
qed

lemma closed_concat: "(\<And>x. x \<in> set xs \<Longrightarrow> closed sep x) \<Longrightarrow> closed sep (concat xs)"
  by (induction xs) (auto simp: closed_append)

lemma closed_escape:
  assumes "sep \<in> set escapedChars" "sep \<noteq> backslash"
  shows "closed sep (escape s)"
proof (cases s rule: escape_cases)
  case (plain s1 lead trail)
  have "closed sep (concat (map (\<lambda>c. [backslash, c]) l))" for l
    by (rule closed_concat) auto
  moreover have "closed sep (concat (map escape_char s1))"
    by (rule closed_concat) (auto simp: closed_escape_char[OF assms])
  ultimately show ?thesis unfolding plain(2) by (simp add: closed_append)
qed

lemma escape_char_hd: "c \<noteq> CHR '' '' \<Longrightarrow> escape_char c \<noteq> [] \<and> hd (escape_char c) \<noteq> CHR '' ''"
  unfolding escape_char_def by (simp del: set_simps)

lemma escape_hd:
  assumes "escape s \<noteq> []"
  shows "hd (escape s) \<noteq> CHR '' ''"
proof (cases s rule: escape_cases)
  case (plain s1 lead trail)
  show ?thesis
  proof (cases lead)
    case Nil
    show ?thesis
    proof (cases s1)
      case Nil
      then show ?thesis using \<open>lead = []\<close> plain(2) assms by (cases trail) simp_all
    next
      case (Cons c cs)
      then have "c \<noteq> CHR '' ''" using plain(1,5) \<open>lead = []\<close> by simp
      then show ?thesis using Cons \<open>lead = []\<close> plain(2) escape_char_hd[of c] by simp
    qed
  qed (use plain(2) in simp)
qed

lemma escape_Nil [simp]: "escape [] = []"
  by (simp add: escape_def)

lemma closed_ava_text:
  "sep \<in> set escapedChars \<Longrightarrow> sep \<noteq> backslash \<Longrightarrow> sep \<noteq> CHR ''='' \<Longrightarrow> closed sep (ava_text a)"
  by (simp add: ava_text_def closed_append closed_escape)

definition ava_ok :: "ava \<Rightarrow> bool" where
  "ava_ok a \<longleftrightarrow> CHR ''='' \<notin> set (attributeType a)"

lemma ava_of_text_join: "ava_ok (AVA t v) \<Longrightarrow> ava_of_text (t @ CHR ''='' # v) = Inr (AVA t v)"
  by (induction t) (auto simp: ava_of_text_def ava_ok_def)

lemma ava_text_neq [simp]: "ava_text a \<noteq> []"
  by (simp add: ava_text_def)

interpretation avas: separated "CHR ''+''" "\<lambda>x. bindE (unescape x) ava_of_text" ava_text ava_ok
proof
  fix a :: ava
  show "closed (CHR ''+'') (ava_text a)"
    by (rule closed_ava_text) (simp_all add: escapedChars_def)
  show "hd (ava_text a) \<noteq> CHR '' ''"
    using escape_hd[of "attributeType a"] by (cases "escape (attributeType a)") (auto simp: ava_text_def)
  show "bindE (unescape (ava_text a)) ava_of_text = Inr a" if "ava_ok a"
    using ava_of_text_join[of "attributeType a" "avalue a"] that
    by (simp add: ava_text_def unescape_escape_append unescape_escape)
qed simp_all

lemma rdn_of_text_show: "(\<And>a. a \<in> set r \<Longrightarrow> ava_ok a) \<Longrightarrow> rdn_of_text (rdn_text r) = Inr r"
  unfolding rdn_of_text_def rdn_text_def by (rule avas.parse_parts) auto

lemma closed_rdn_text: "closed (CHR '','') (rdn_text r)"
  unfolding rdn_text_def
  by (rule closed_join) (auto intro!: closed_ava_text simp: escapedChars_def)

lemma rdn_text_hd: "rdn_text r \<noteq> [] \<Longrightarrow> hd (rdn_text r) \<noteq> CHR '' ''"
proof (cases r)
  case (Cons a as)
  then show ?thesis using avas.show_hd[of a] by (cases as) (auto simp: rdn_text_def)
qed (simp add: rdn_text_def)

lemma rdn_text_Nil [simp]: "rdn_text r = [] \<longleftrightarrow> r = []"
  by (cases r; cases "tl r") (auto simp: rdn_text_def)

interpretation rdns: separated "CHR '',''" rdn_of_text rdn_text "\<lambda>r. \<forall>a \<in> set r. ava_ok a"
  by unfold_locales (simp_all add: closed_rdn_text rdn_text_hd rdn_of_text_show)

text \<open>The names whose text form reads back: one nameless level alone prints as nothing.\<close>

definition dn_ok :: "dn \<Rightarrow> bool" where
  "dn_ok d \<longleftrightarrow> d \<noteq> [[]] \<and> (\<forall>r \<in> set d. \<forall>a \<in> set r. ava_ok a)"

lemma dn_of_text_show: "dn_ok d \<Longrightarrow> dn_of_text (dn_text d) = Inr d"
  unfolding dn_of_text_def dn_text_def
  by (rule rdns.parse_parts) (auto simp: dn_ok_def length_Suc_conv)

section \<open>Lemmas: equality and containment\<close>

lemma ava_eq_refl [simp]: "ava_eq a a" and ava_eq_sym: "ava_eq a b \<Longrightarrow> ava_eq b a"
  and ava_eq_trans: "ava_eq a b \<Longrightarrow> ava_eq b c \<Longrightarrow> ava_eq a c"
  by (auto simp: ava_eq_def)

lemma list_all2_sym: "(\<And>a b. P a b \<Longrightarrow> P b a) \<Longrightarrow> list_all2 P xs ys \<Longrightarrow> list_all2 P ys xs"
  by (auto simp: list_all2_conv_all_nth)

lemma list_all2_transitive:
  "(\<And>a b c. P a b \<Longrightarrow> P b c \<Longrightarrow> P a c) \<Longrightarrow> list_all2 P xs ys \<Longrightarrow> list_all2 P ys zs \<Longrightarrow> list_all2 P xs zs"
  by (rule list_all2_trans[of P P P])

lemma rdn_eq_refl [simp]: "rdn_eq a a"
  by (auto simp: rdn_eq_def intro: list_all2_refl)

lemma rdn_eq_sym: "rdn_eq a b \<Longrightarrow> rdn_eq b a"
  unfolding rdn_eq_def by (rule list_all2_sym[OF ava_eq_sym])

lemma rdn_eq_trans: "rdn_eq a b \<Longrightarrow> rdn_eq b c \<Longrightarrow> rdn_eq a c"
  unfolding rdn_eq_def by (rule list_all2_transitive[OF ava_eq_trans])

lemma dn_eq_refl [simp]: "dn_eq a a"
  by (auto simp: dn_eq_def intro: list_all2_refl)

lemma dn_eq_sym: "dn_eq a b \<Longrightarrow> dn_eq b a"
  unfolding dn_eq_def by (rule list_all2_sym[OF rdn_eq_sym])

lemma dn_eq_trans: "dn_eq a b \<Longrightarrow> dn_eq b c \<Longrightarrow> dn_eq a c"
  unfolding dn_eq_def by (rule list_all2_transitive[OF rdn_eq_trans])

text \<open>What containment means: the other name ends with this one.\<close>

definition dn_under :: "dn \<Rightarrow> dn \<Rightarrow> bool" where
  "dn_under base d \<longleftrightarrow> (\<exists>pre rest. d = pre @ rest \<and> dn_eq base rest)"

lemma contains_loop_take:
  "contains_loop mine its \<longleftrightarrow> list_all2 rdn_eq mine (take (length mine) its)"
  by (induction mine its rule: contains_loop.induct) auto

lemma contains_loop_iff:
  "contains_loop mine its \<longleftrightarrow> (\<exists>xs ys. its = xs @ ys \<and> list_all2 rdn_eq mine xs)"
proof
  assume "contains_loop mine its"
  then show "\<exists>xs ys. its = xs @ ys \<and> list_all2 rdn_eq mine xs"
    unfolding contains_loop_take by (metis append_take_drop_id)
next
  assume "\<exists>xs ys. its = xs @ ys \<and> list_all2 rdn_eq mine xs"
  then obtain xs ys where "its = xs @ ys" "list_all2 rdn_eq mine xs" by blast
  moreover have "length mine = length xs" by (rule list_all2_lengthD) fact
  ultimately show "contains_loop mine its" by (simp add: contains_loop_take)
qed

lemma contains_iff: "contains base d \<longleftrightarrow> dn_under base d"
proof -
  have "contains_loop (rev base) (rev d) \<longleftrightarrow> dn_under base d"
  proof
    assume "contains_loop (rev base) (rev d)"
    then obtain xs ys where "rev d = xs @ ys" "list_all2 rdn_eq (rev base) xs"
      by (auto simp: contains_loop_iff)
    then have "d = rev ys @ rev xs" "list_all2 rdn_eq base (rev xs)"
      by (metis rev_append rev_rev_ident) (metis \<open>list_all2 rdn_eq (rev base) xs\<close> list_all2_rev rev_rev_ident)
    then show "dn_under base d" unfolding dn_under_def dn_eq_def by blast
  next
    assume "dn_under base d"
    then obtain pre rest where "d = pre @ rest" "list_all2 rdn_eq base rest"
      by (auto simp: dn_under_def dn_eq_def)
    then have "rev d = rev rest @ rev pre" "list_all2 rdn_eq (rev base) (rev rest)" by simp_all
    then show "contains_loop (rev base) (rev d)" unfolding contains_loop_iff by blast
  qed
  moreover have "dn_eq base d \<Longrightarrow> dn_under base d"
    unfolding dn_under_def by (metis append_Nil)
  ultimately show ?thesis by (auto simp: contains_def)
qed

lemma dn_under_refl [simp]: "dn_under d d"
  unfolding dn_under_def by (metis append_Nil dn_eq_refl)

lemma dn_under_trans:
  assumes "dn_under a b" "dn_under b c"
  shows "dn_under a c"
proof -
  obtain p q p' q' where *: "b = p @ q" "dn_eq a q" "c = p' @ q'" "dn_eq b q'"
    using assms by (auto simp: dn_under_def)
  then obtain r s where "q' = r @ s" "dn_eq q s" by (auto simp: dn_eq_def list_all2_append1)
  then have "c = (p' @ r) @ s" "dn_eq a s" using * by (auto intro: dn_eq_trans)
  then show ?thesis unfolding dn_under_def by blast
qed

lemma dn_under_antisym:
  assumes "dn_under a b" "dn_under b a"
  shows "dn_eq a b"
proof -
  obtain p q p' q' where *: "b = p @ q" "dn_eq a q" "a = p' @ q'" "dn_eq b q'"
    using assms by (auto simp: dn_under_def)
  have "length a = length q" "length b = length q'"
    using *(2,4) by (simp_all only: dn_eq_def list_all2_lengthD)
  with arg_cong[OF *(1), of length] arg_cong[OF *(3), of length] have "p = []" by simp
  with * show ?thesis by simp
qed

section \<open>Lemmas: domain names\<close>

definition is_dc :: "rdn \<Rightarrow> bool" where
  "is_dc r \<longleftrightarrow> length r = 1 \<and> map upper_char (attributeType (hd r)) = ''DC''"

lemma domain_loop_eq:
  "domain_loop l parts = rev (map (\<lambda>r. avalue (hd r)) (takeWhile is_dc l)) @ parts"
  by (induction l parts rule: domain_loop.induct) (auto simp: is_dc_def length_Suc_conv)

end
