(* ===== verification/Base64.thy ===== *)
theory Base64
  imports PyText
begin

text \<open>
  The two functions of Python's \<open>base64\<close> module that the program calls: \<open>encodebytes\<close>, which
  breaks its output into lines, and \<open>decodebytes\<close>, which skips what is not of the alphabet and
  stops at the padding.
\<close>

section \<open>Encoding\<close>

definition b64_alphabet :: string where
  "b64_alphabet = ''ABCDEFGHIJKLMNOPQRSTUVWXYZabcdefghijklmnopqrstuvwxyz0123456789+/''"

definition b64_char :: "nat \<Rightarrow> byte" where
  "b64_char n = lit b64_alphabet ! n"

abbreviation b64_pad :: byte where "b64_pad \<equiv> 61"

fun b64_encode :: "bytes \<Rightarrow> bytes" where
  "b64_encode [] = []"
| "b64_encode [a] =
     (let x = unat a in
      [b64_char (x div 4), b64_char (x mod 4 * 16), b64_pad, b64_pad])"
| "b64_encode [a, b] =
     (let x = unat a; y = unat b in
      [b64_char (x div 4), b64_char (x mod 4 * 16 + y div 16), b64_char (y mod 16 * 4), b64_pad])"
| "b64_encode (a # b # c # r) =
     (let x = unat a; y = unat b; z = unat c in
      b64_char (x div 4) # b64_char (x mod 4 * 16 + y div 16) #
      b64_char (y mod 16 * 4 + z div 64) # b64_char (z mod 64) # b64_encode r)"

text \<open>Lines of 57 bytes, each with its line feed.\<close>

function encodebytes :: "bytes \<Rightarrow> bytes" where
  "encodebytes s = (if s = [] then [] else b64_encode (take 57 s) @ [10] @ encodebytes (drop 57 s))"
  by pat_completeness auto
termination
  by (relation "measure length") auto

declare encodebytes.simps [simp del]

section \<open>Decoding\<close>

definition b64_value :: "byte \<Rightarrow> nat option" where
  "b64_value c =
     (let n = unat c in
      if 65 \<le> n \<and> n \<le> 90 then Some (n - 65)
      else if 97 \<le> n \<and> n \<le> 122 then Some (n - 71)
      else if 48 \<le> n \<and> n \<le> 57 then Some (n + 4)
      else if n = 43 then Some 62
      else if n = 47 then Some 63
      else None)"

text \<open>
  The loop of \<open>binascii.a2b_base64\<close>: the place in the group of four, the bits left over from the
  last character, the padding characters seen.
\<close>

fun a2b_base64 :: "nat \<Rightarrow> nat \<Rightarrow> nat \<Rightarrow> bytes \<Rightarrow> exn + bytes" where
  "a2b_base64 quad_pos leftchar pads [] = (if quad_pos \<noteq> 0 then Inl ValueError else Inr [])"
| "a2b_base64 quad_pos leftchar pads (ch # s) =
     (if ch = b64_pad then
        (if quad_pos \<ge> 2 then
           (if quad_pos + Suc pads \<ge> 4 then Inr [] else a2b_base64 quad_pos leftchar (Suc pads) s)
         else a2b_base64 quad_pos leftchar pads s)
      else case b64_value ch of
        None \<Rightarrow> a2b_base64 quad_pos leftchar pads s
      | Some v \<Rightarrow>
          if quad_pos = 0 then a2b_base64 1 v 0 s
          else if quad_pos = 1 then
            bindE (a2b_base64 2 (v mod 16) 0 s) (\<lambda>r. Inr (word_of_nat (leftchar * 4 + v div 16) # r))
          else if quad_pos = 2 then
            bindE (a2b_base64 3 (v mod 4) 0 s) (\<lambda>r. Inr (word_of_nat (leftchar * 16 + v div 4) # r))
          else
            bindE (a2b_base64 0 0 0 s) (\<lambda>r. Inr (word_of_nat (leftchar * 64 + v) # r)))"

definition decodebytes :: "bytes \<Rightarrow> exn + bytes" where
  "decodebytes s = a2b_base64 0 0 0 s"

section \<open>Lemmas\<close>

lemma b64_char_value: "n < 64 \<Longrightarrow> b64_value (b64_char n) = Some n \<and> b64_char n \<noteq> b64_pad"
proof -
  have "\<forall>n \<in> set [0 ..< 64]. b64_value (b64_char n) = Some n \<and> b64_char n \<noteq> b64_pad"
    by code_simp
  then show "n < 64 \<Longrightarrow> ?thesis" by simp
qed

lemma b64_char_step [simp]:
  "n < 64 \<Longrightarrow> b64_value (b64_char n) = Some n"
  "n < 64 \<Longrightarrow> b64_char n = b64_pad \<longleftrightarrow> False"
  using b64_char_value by auto

lemma unat_byte: "unat (b :: byte) < 256"
proof -
  have "uint b < 256" using uint_lt2p[of b] by simp
  then have "nat (uint b) < 256" by linarith
  then show ?thesis by simp
qed

lemma of_char_char_of_byte [simp]: "(of_char (char_of (unat (w :: byte))) :: byte) = w"
proof -
  have "(of_char (char_of (unat w)) :: nat) = unat w mod 256" by (simp add: of_char_of)
  then have "(of_char (char_of (unat w)) :: nat) = unat w" using unat_byte[of w] by simp
  moreover have "(of_char c :: byte) = of_nat (of_char c)" for c by (simp add: of_nat_of_char)
  ultimately show ?thesis by simp
qed

lemma mult_add_div: "(y::nat) < k \<Longrightarrow> (x * k + y) div k = x"
  by simp

lemma mult_add_mod: "(y::nat) < k \<Longrightarrow> (x * k + y) mod k = y"
  by simp

lemma sextets:
  assumes "x < 256" "y < 256" "z < 256"
  shows "x div 4 < 64" "x mod 4 * 16 + y div 16 < 64" "y mod 16 * 4 + z div 64 < 64" "z mod 64 < 64"
    "x div 4 * 4 + (x mod 4 * 16 + y div 16) div 16 = (x::nat)"
    "(x mod 4 * 16 + y div 16) mod 16 * 16 + (y mod 16 * 4 + z div 64) div 4 = (y::nat)"
    "(y mod 16 * 4 + z div 64) mod 4 * 64 + z mod 64 = (z::nat)"
proof -
  have yd: "y div 16 < 16" and zd: "z div 64 < 4" and xd: "x div 4 < 64"
    using assms by (simp_all add: less_mult_imp_div_less)
  have m: "x mod 4 < 4" "y mod 16 < 16" by simp_all
  show "x div 4 < 64" "z mod 64 < 64" using xd by simp_all
  show "x mod 4 * 16 + y div 16 < 64" "y mod 16 * 4 + z div 64 < 64" using yd zd m by linarith+
  show "x div 4 * 4 + (x mod 4 * 16 + y div 16) div 16 = x"
    unfolding mult_add_div[OF yd] by simp
  show "(x mod 4 * 16 + y div 16) mod 16 * 16 + (y mod 16 * 4 + z div 64) div 4 = y"
    unfolding mult_add_mod[OF yd] mult_add_div[OF zd] by simp
  show "(y mod 16 * 4 + z div 64) mod 4 * 64 + z mod 64 = z"
    unfolding mult_add_mod[OF zd] by simp
qed

lemma a2b_newline [simp]: "a2b_base64 q l p (10 # s) = a2b_base64 q l p s"
  by (simp add: b64_value_def)

lemma dvd3_step: "3 dvd Suc (Suc (Suc n)) \<longleftrightarrow> 3 dvd n"
  using dvd_add_right_iff[of 3 3 n] by (simp add: numeral_3_eq_3)

lemma a2b_encode_append:
  "a2b_base64 0 0 0 (b64_encode s @ t) =
     (if 3 dvd length s then bindE (a2b_base64 0 0 0 t) (\<lambda>r. Inr (s @ r)) else Inr s)"
proof (induction s rule: b64_encode.induct)
  case (2 a)
  show ?case
    using sextets[of "unat a" 0 0] unat_byte[of a] by (simp add: Let_def)
next
  case (3 a b)
  have "\<not> 3 dvd Suc (Suc 0)" by presburger
  then show ?case
    using sextets[of "unat a" "unat b" 0] unat_byte[of a] unat_byte[of b]
    by (simp add: Let_def)
next
  case (4 a b c r)
  show ?case
    using sextets[of "unat a" "unat b" "unat c"] unat_byte[of a] unat_byte[of b] unat_byte[of c] 4
    by (simp add: Let_def bindE_assoc dvd3_step)
qed simp

lemma a2b_newlines: "a2b_base64 q l p (filter (\<lambda>c. c \<noteq> 10) s) = a2b_base64 q l p s"
proof (induction q l p s rule: a2b_base64.induct)
  case (2 q l p ch s)
  show ?case
  proof (cases "ch = 10")
    case True
    then show ?thesis using 2(3)[of] by (simp add: b64_value_def)
  next
    case False
    then show ?thesis using 2 by (auto split: option.split)
  qed
qed simp

lemma encodebytes_Nil [simp]: "encodebytes [] = []"
  by (simp add: encodebytes.simps)

lemma decode_encodebytes: "decodebytes (encodebytes s) = Inr s"
  unfolding decodebytes_def
proof (induction s rule: encodebytes.induct)
  case (1 s)
  show ?case
  proof (cases "s = []")
    case False
    have "drop 57 s = [] \<or> 3 dvd length (take 57 s)" by (cases "length s < 57") (auto simp: min_def)
    then show ?thesis
    proof
      assume "3 dvd length (take 57 s)"
      then show ?thesis
        using 1[OF False] False
        by (simp add: encodebytes.simps[of s] a2b_encode_append del: a2b_base64.simps(2) length_take)
    next
      assume "drop 57 s = []"
      then show ?thesis
        using False by (simp add: encodebytes.simps[of s] a2b_encode_append del: a2b_base64.simps(2))
    qed
  qed simp
qed

lemma decode_ignoring_newlines:
  "filter (\<lambda>c. c \<noteq> 10) t = filter (\<lambda>c. c \<noteq> 10) (encodebytes s) \<Longrightarrow> decodebytes t = Inr s"
  using a2b_newlines[of 0 0 0 t] a2b_newlines[of 0 0 0 "encodebytes s"] decode_encodebytes[of s]
  by (simp add: decodebytes_def)

text \<open>What an encoding is made of.\<close>

lemma b64_chars: "n < 64 \<Longrightarrow> b64_char n \<in> set (lit b64_alphabet)"
  unfolding b64_char_def by (rule nth_mem) (simp add: lit_def b64_alphabet_def)

end
