(* ===== verification/Ldif.thy ===== *)
theory Ldif
  imports Base64
begin

text \<open>\<open>protocols/ldap/ldif.py\<close>: entries and attributes printed as LDIF.\<close>

definition base64_encode :: "bytes \<Rightarrow> bytes" where
  "base64_encode s = filter (\<lambda>c. c \<noteq> 10) (encodebytes s) @ [10]"

definition attributeAsLDIF_base64 :: "bytes \<Rightarrow> bytes \<Rightarrow> bytes" where
  "attributeAsLDIF_base64 attribute v = attribute @ lit '':: '' @ base64_encode v"

definition containsNonprintable :: "bytes \<Rightarrow> bool" where
  "containsNonprintable s = list_ex (\<lambda>c. c > 127 \<or> c = 0 \<or> c = 10 \<or> c = 13) s"

definition attributeAsLDIF :: "pytext \<Rightarrow> pytext \<Rightarrow> bytes" where
  "attributeAsLDIF attribute v =
     (let a = to_bytes attribute; b = to_bytes v in
      if take 1 b = [0] \<or> take 1 b = [10] \<or> take 1 b = [13] \<or> take 1 b = lit '' ''
         \<or> take 1 b = lit '':'' \<or> take 1 b = lit ''<'' \<or> (b \<noteq> [] \<and> last b = 32)
         \<or> containsNonprintable b
      then attributeAsLDIF_base64 a b
      else a @ lit '': '' @ b @ [10])"

definition asLDIF :: "pytext \<Rightarrow> (pytext \<times> pytext list) list \<Rightarrow> bytes" where
  "asLDIF dn attributes =
     lit ''dn: '' @ to_bytes dn @ [10]
     @ concat (map (\<lambda>(k, vs). concat (map (attributeAsLDIF k) vs)) attributes)
     @ [10]"

definition ldif_header :: bytes where
  "ldif_header = lit ''version: 1'' @ [10, 10]"

definition manyAsLDIF :: "(pytext \<times> (pytext \<times> pytext list) list) list \<Rightarrow> bytes" where
  "manyAsLDIF objects =
     concat (ldif_header # map (\<lambda>(dn, attributes). asLDIF dn attributes) objects)"

end
