(* ===== verification/Entry.thy ===== *)
theory Entry
  imports AttributeSet DistinguishedName Ldif
begin

text \<open>
  \<open>entry.py\<close>: an entry is a name with attributes in a case-insensitive mapping. Keys come as
  text or as bytes, and most operations try both spellings. The pair of spellings that the code
  keeps in a Python set (\<open>_object_class_keys\<close> and the like) is a list here, text first. SHA-1
  is a parameter.
\<close>

section \<open>Entries\<close>

record entry =
  edn :: dn
  eattrs :: "attrset insensitive"

definition object_class_keys :: "pytext list" where
  "object_class_keys = [Str ''objectClass'', Byt (lit ''objectClass'')]"

definition object_class_lower_keys :: "pytext list" where
  "object_class_lower_keys = [Str ''objectclass'', Byt (lit ''objectclass'')]"

definition user_password_keys :: "pytext list" where
  "user_password_keys = [Str ''userPassword'', Byt (lit ''userPassword'')]"

text \<open>One round of the loop that collects the values per attribute.\<close>

definition collect_values ::
    "pytext list insensitive \<Rightarrow> pytext \<times> pytext list \<Rightarrow> pytext list insensitive" where
  "collect_values collected kvs =
     (let (k, vs) = kvs;
          c = (if \<not> id_contains collected k then id_setitem collected k [] else collected)
      in map (\<lambda>(f, k', ws). if f = normalize_key k then (f, k', ws @ vs) else (f, k', ws)) c)"

definition entry_init :: "dn \<Rightarrow> (pytext \<times> pytext list) list \<Rightarrow> entry" where
  "entry_init d attributes =
     (let collected = foldl collect_values id_empty attributes
      in \<lparr>edn = d,
          eattrs = foldl (\<lambda>m (k, vs). id_setitem m k (mkAttributeSet k vs)) id_empty
                     (id_items collected)\<rparr>)"

text \<open>The constructor given the name as text or bytes.\<close>

definition mkEntry :: "pytext \<Rightarrow> (pytext \<times> pytext list) list \<Rightarrow> exn + entry" where
  "mkEntry d attributes = bindE (dn_of d) (\<lambda>d'. Inr (entry_init d' attributes))"

text \<open>The first spelling of a key that the entry has.\<close>

definition find_spelling :: "entry \<Rightarrow> pytext \<Rightarrow> exn + pytext option" where
  "find_spelling self key =
     bindE (get_strings key) (\<lambda>ks. Inr (find (id_contains (eattrs self)) ks))"

definition entry_getitem :: "entry \<Rightarrow> pytext \<Rightarrow> exn + attrset" where
  "entry_getitem self key =
     bindE (find_spelling self key) (\<lambda>k.
       case k of Some k' \<Rightarrow> id_getitem (eattrs self) k' | None \<Rightarrow> Inl KeyError)"

definition entry_get :: "entry \<Rightarrow> pytext \<Rightarrow> pytext list option \<Rightarrow> exn + pytext list option" where
  "entry_get self key dflt =
     bindE (find_spelling self key) (\<lambda>k.
       case k of
         Some k' \<Rightarrow> bindE (id_getitem (eattrs self) k') (\<lambda>a. Inr (Some (avals a)))
       | None \<Rightarrow> Inr dflt)"

definition entry_has_key :: "entry \<Rightarrow> pytext \<Rightarrow> exn + bool" where
  "entry_has_key self key = bindE (find_spelling self key) (\<lambda>k. Inr (k \<noteq> None))"

definition entry_iter :: "entry \<Rightarrow> pytext list" where
  "entry_iter self = id_keys (eattrs self)"

definition entry_keys :: "entry \<Rightarrow> pytext list" where
  "entry_keys self =
     filter (id_contains (eattrs self)) object_class_keys
     @ filter (\<lambda>key. text_lower key \<notin> set object_class_lower_keys)
         (sort_key to_bytes (id_keys (eattrs self)))"

text \<open>The values of \<open>objectClass\<close> under one spelling, sorted.\<close>

definition object_classes :: "entry \<Rightarrow> pytext \<Rightarrow> pytext list" where
  "object_classes self key =
     (case map_of (eattrs self) (normalize_key key) of
        None \<Rightarrow> []
      | Some item \<Rightarrow> sort_key to_bytes (avals (snd item)))"

definition entry_items :: "entry \<Rightarrow> exn + (pytext \<times> pytext list) list" where
  "entry_items self =
     bindE (mapE (\<lambda>(key, vs). bindE (py_sort (avals vs)) (\<lambda>sorted_vs. Inr (key, sorted_vs)))
              (filter (\<lambda>(key, vs). text_lower key \<notin> set object_class_lower_keys)
                 (sort_key (\<lambda>kv. to_bytes (fst kv)) (id_items (eattrs self)))))
       (\<lambda>rest. Inr
          (filter (\<lambda>(key, vs). vs \<noteq> []) (map (\<lambda>key. (key, object_classes self key)) object_class_keys)
           @ rest))"

definition entry_toWire :: "entry \<Rightarrow> exn + bytes" where
  "entry_toWire self =
     bindE (mapE (\<lambda>key. bindE (entry_getitem self key) (\<lambda>vs. Inr (key, vs))) (entry_iter self))
       (\<lambda>items_gen.
     bindE (mapE (\<lambda>(key, vs). bindE (py_sort (avals vs)) (\<lambda>sorted_vs. Inr (key, sorted_vs)))
              (filter (\<lambda>(key, vs). text_lower key \<notin> set object_class_lower_keys)
                 (sort_key (\<lambda>kv. to_bytes (fst kv)) items_gen)))
       (\<lambda>rest. Inr (asLDIF (Str (dn_text (edn self)))
          (map (\<lambda>key. (key, object_classes self key)) object_class_keys @ rest))))"

definition entry_eq :: "entry \<Rightarrow> entry \<Rightarrow> exn + bool" where
  "entry_eq self other =
     (if \<not> dn_eq (edn self) (edn other) then Inr False
      else
        let my = sort_key to_bytes (entry_iter self); its = sort_key to_bytes (entry_iter other) in
        if my \<noteq> its then Inr False
        else bindE (mapE (\<lambda>key. bindE (entry_getitem self key) (\<lambda>a.
               bindE (entry_getitem other key) (\<lambda>b. Inr (attrset_eq a b)))) my)
          (\<lambda>eqs. Inr (list_all id eqs)))"

definition hasMember :: "entry \<Rightarrow> pytext \<Rightarrow> exn + bool" where
  "hasMember self d =
     bindE (entry_get self (Str ''member'') (Some [])) (\<lambda>members.
       case members of Some ms \<Rightarrow> Inr (d \<in> set ms) | None \<Rightarrow> Inl AssertionError)"

section \<open>Editing\<close>

definition entry_setitem :: "entry \<Rightarrow> pytext \<Rightarrow> pytext list \<Rightarrow> entry" where
  "entry_setitem self key vs =
     self\<lparr>eattrs := id_setitem (eattrs self) key (mkAttributeSet key vs)\<rparr>"

definition entry_delitem :: "entry \<Rightarrow> pytext \<Rightarrow> exn + entry" where
  "entry_delitem self key =
     bindE (id_delitem (eattrs self) key) (\<lambda>m. Inr (self\<lparr>eattrs := m\<rparr>))"

section \<open>Passwords\<close>

text \<open>\<open>bytes.rstrip\<close> without arguments.\<close>

definition is_space :: "byte \<Rightarrow> bool" where
  "is_space c \<longleftrightarrow> c = 32 \<or> 9 \<le> c \<and> c \<le> 13"

definition rstrip :: "bytes \<Rightarrow> bytes" where
  "rstrip s = rev (dropWhile is_space (rev s))"

definition SSHA :: bytes where "SSHA = lit ''{SSHA}''"

definition sshaDigest :: "(bytes \<Rightarrow> bytes) \<Rightarrow> bytes \<Rightarrow> bytes \<Rightarrow> bytes" where
  "sshaDigest sha1 passphrase salt =
     SSHA @ rstrip (encodebytes (sha1 (passphrase @ salt) @ salt))"

definition setPassword :: "(bytes \<Rightarrow> bytes) \<Rightarrow> entry \<Rightarrow> bytes \<Rightarrow> bytes \<Rightarrow> exn + entry" where
  "setPassword sha1 self newPasswd salt =
     (let crypt = sshaDigest sha1 newPasswd salt;
          spell = (\<lambda>key self. bindE (entry_has_key self key) (\<lambda>has.
                     Inr (if has then entry_setitem self key [Byt crypt] else self)))
      in bindE (spell (user_password_keys ! 0) self) (\<lambda>self1.
         bindE (spell (user_password_keys ! 1) self1) (\<lambda>self2.
           Inr (entry_setitem self2 (Byt (lit ''userPassword'')) [Byt crypt]))))"

text \<open>Whether one stored value admits the password.\<close>

definition password_matches :: "(bytes \<Rightarrow> bytes) \<Rightarrow> bytes \<Rightarrow> pytext \<Rightarrow> exn + bool" where
  "password_matches sha1 secret v =
     (let digest = to_bytes v in
      if take 6 digest = SSHA then
        bindE (decodebytes (drop 6 digest)) (\<lambda>raw.
          Inr (sshaDigest sha1 secret (drop 20 raw) = digest))
      else Inr (digest = secret))"

fun bind_values :: "(bytes \<Rightarrow> bytes) \<Rightarrow> bytes \<Rightarrow> pytext list \<Rightarrow> exn + bool" where
  "bind_values sha1 secret [] = Inr False"
| "bind_values sha1 secret (v # vs) =
     bindE (password_matches sha1 secret v) (\<lambda>b. if b then Inr True else bind_values sha1 secret vs)"

definition LDAP_invalidCredentials :: int where "LDAP_invalidCredentials = 49"

fun bind_keys :: "(bytes \<Rightarrow> bytes) \<Rightarrow> bytes \<Rightarrow> entry \<Rightarrow> pytext list \<Rightarrow> exn + entry" where
  "bind_keys sha1 secret self [] = Inl (LDAPException LDAP_invalidCredentials None)"
| "bind_keys sha1 secret self (key # keys) =
     bindE (entry_get self key (Some [])) (\<lambda>digests.
       case digests of
         None \<Rightarrow> Inl AssertionError
       | Some vs \<Rightarrow>
           bindE (bind_values sha1 secret vs) (\<lambda>b.
             if b then Inr self else bind_keys sha1 secret self keys))"

definition entry_bind :: "(bytes \<Rightarrow> bytes) \<Rightarrow> entry \<Rightarrow> pytext \<Rightarrow> exn + entry" where
  "entry_bind sha1 self password = bind_keys sha1 (to_bytes password) self user_password_keys"

section \<open>Lemmas: passwords\<close>

lemma set_b64_encode: "set (b64_encode s) \<subseteq> set (lit b64_alphabet) \<union> {b64_pad}"
proof (induction s rule: b64_encode.induct)
  case (2 a)
  show ?case using sextets[of "unat a" 0 0] unat_byte[of a] by (simp add: Let_def b64_chars)
next
  case (3 a b)
  show ?case using sextets[of "unat a" "unat b" 0] unat_byte[of a] unat_byte[of b]
    by (simp add: Let_def b64_chars)
next
  case (4 a b c r)
  then show ?case
    using sextets[of "unat a" "unat b" "unat c"] unat_byte[of a] unat_byte[of b] unat_byte[of c]
    by (simp add: Let_def b64_chars)
qed simp

lemma set_encodebytes: "set (encodebytes s) \<subseteq> set (lit b64_alphabet) \<union> {b64_pad, 10}"
proof (induction s rule: encodebytes.induct)
  case (1 s)
  then show ?case using set_b64_encode[of "take 57 s"] by (subst encodebytes.simps) auto
qed

lemma alphabet_not_space: "c \<in> set (lit b64_alphabet) \<union> {b64_pad} \<Longrightarrow> \<not> is_space c"
proof -
  have "list_all (\<lambda>c. \<not> is_space c) (b64_pad # lit b64_alphabet)" by code_simp
  then show "c \<in> set (lit b64_alphabet) \<union> {b64_pad} \<Longrightarrow> ?thesis" by (auto simp: list_all_iff)
qed

lemma filter_dropWhile: "(\<And>x. x \<in> set xs \<Longrightarrow> P x \<Longrightarrow> \<not> Q x) \<Longrightarrow> filter Q (dropWhile P xs) = filter Q xs"
  by (induction xs) auto

lemma filter_rstrip_encodebytes:
  "filter (\<lambda>c. c \<noteq> 10) (rstrip (encodebytes s)) = filter (\<lambda>c. c \<noteq> 10) (encodebytes s)"
proof -
  have "filter (\<lambda>c. c \<noteq> 10) (dropWhile is_space (rev (encodebytes s))) =
      filter (\<lambda>c. c \<noteq> 10) (rev (encodebytes s))"
    using set_encodebytes[of s] alphabet_not_space by (intro filter_dropWhile) auto
  then show ?thesis by (simp add: rstrip_def flip: rev_filter)
qed

lemma decode_rstrip: "decodebytes (rstrip (encodebytes s)) = Inr s"
  by (rule decode_ignoring_newlines[OF filter_rstrip_encodebytes])

lemma sshaDigest_prefix:
  "take 6 (sshaDigest sha1 p salt) = SSHA"
  "drop 6 (sshaDigest sha1 p salt) = rstrip (encodebytes (sha1 (p @ salt) @ salt))"
proof -
  have "length SSHA = 6" by (simp add: SSHA_def lit_def)
  then show "take 6 (sshaDigest sha1 p salt) = SSHA"
    "drop 6 (sshaDigest sha1 p salt) = rstrip (encodebytes (sha1 (p @ salt) @ salt))"
    unfolding sshaDigest_def by simp_all
qed

lemma sshaDigest_inj:
  "sshaDigest sha1 p salt = sshaDigest sha1 q salt \<longleftrightarrow> sha1 (p @ salt) = sha1 (q @ salt)"
proof -
  have "rstrip (encodebytes a) = rstrip (encodebytes b) \<Longrightarrow> a = b" for a b
    by (metis decode_rstrip sum.inject(2))
  then show ?thesis unfolding sshaDigest_def by auto
qed

lemma password_matches_digest:
  assumes "\<And>x. length (sha1 x) = 20"
  shows "password_matches sha1 secret (Byt (sshaDigest sha1 pw salt)) =
    Inr (sha1 (secret @ salt) = sha1 (pw @ salt))"
  by (simp add: password_matches_def sshaDigest_prefix decode_rstrip assms sshaDigest_inj)

text \<open>The two spellings of the password attribute.\<close>

definition up_str :: pytext where "up_str = Str ''userPassword''"
definition up_byt :: pytext where "up_byt = Byt (lit ''userPassword'')"

lemma up_facts:
  "user_password_keys = [up_str, up_byt]" "get_strings up_str = Inr [up_str, up_byt]"
  "get_strings up_byt = Inr [up_byt, up_str]" "normalize_key up_str \<noteq> normalize_key up_byt"
proof -
  have "utf8_encode ''userPassword'' = lit ''userPassword''"
    "utf8_decode (lit ''userPassword'') = Inr ''userPassword''" by code_simp+
  then show "user_password_keys = [up_str, up_byt]" "get_strings up_str = Inr [up_str, up_byt]"
    "get_strings up_byt = Inr [up_byt, up_str]" "normalize_key up_str \<noteq> normalize_key up_byt"
    by (simp_all add: up_str_def up_byt_def user_password_keys_def normalize_key_def del: lit_Cons)
qed

lemmas entry_lookup = entry_get_def entry_getitem_def entry_has_key_def find_spelling_def
  id_contains_def id_getitem_def dict_get_def

lemma not_Some_pair: "(\<forall>a b. x \<noteq> Some (a, b)) \<longleftrightarrow> x = None"
  by (cases x) auto

lemma setPassword_attrs:
  assumes "setPassword sha1 e pw salt = Inr e'"
  defines "a \<equiv> \<lambda>k. mkAttributeSet k [Byt (sshaDigest sha1 pw salt)]"
  shows "map_of (eattrs e') (normalize_key up_byt) = Some (up_byt, a up_byt)"
    and "map_of (eattrs e') (normalize_key up_str) = None \<or>
      map_of (eattrs e') (normalize_key up_str) = Some (up_str, a up_str)"
  using assms up_facts(4) up_facts(4)[symmetric] unfolding setPassword_def up_byt_def[symmetric]
  by (auto simp: Let_def not_Some_pair up_facts entry_lookup
      entry_setitem_def id_setitem_def split: if_splits)

lemma bind_setPassword:
  assumes "\<And>x. length (sha1 x) = 20" and "setPassword sha1 e pw salt = Inr e'"
  shows "entry_bind sha1 e' secret =
    (if sha1 (to_bytes secret @ salt) = sha1 (pw @ salt) then Inr e'
     else Inl (LDAPException LDAP_invalidCredentials None))"
proof -
  let ?v = "[Byt (sshaDigest sha1 pw salt)]"
  have "avals (mkAttributeSet k ?v) = ?v" for k by (simp add: mkAttributeSet_def)
  then have get: "entry_get e' k (Some []) = Inr (Some ?v)" if "k = up_str \<or> k = up_byt" for k
    using that setPassword_attrs[OF assms(2)] up_facts(4) by (auto simp: entry_lookup up_facts)
  have "bind_values sha1 (to_bytes secret) ?v = Inr (sha1 (to_bytes secret @ salt) = sha1 (pw @ salt))"
    using password_matches_digest[OF assms(1)] by auto
  then show ?thesis by (simp add: entry_bind_def up_facts(1) get del: bind_values.simps)
qed

end
