(* ===== verification/LdifProtocol.thy ===== *)
theory LdifProtocol
  imports Entry
begin

text \<open>
  \<open>protocols/ldap/ldifprotocol.py\<close>: the line receiver, the folding of continuation lines, and
  the parser of LDIF entries as a state machine driven by logical lines. The fields of the class
  \<open>LDIF\<close> are a record that the parser of changes extends, as its class does; the functions a
  subclass inherits are defined on every extension. What \<open>gotEntry\<close> is called with is a list, in
  the order of the calls. A parser that raised is not used again: an exception is all that is
  left of it.
\<close>

section \<open>The line receiver\<close>

text \<open>The loop of \<open>dataReceived\<close>, with the buffer beside the rest of the state.\<close>

function receive_lines :: "(bytes \<Rightarrow> 's \<Rightarrow> exn + 's) \<Rightarrow> bytes \<Rightarrow> 's \<Rightarrow> exn + ('s \<times> bytes)" where
  "receive_lines lineReceived buffer s =
     (if 10 \<notin> set buffer then Inr (s, buffer)
      else
        bindE (lineReceived (takeWhile (\<lambda>c. c \<noteq> 10) buffer) s) (\<lambda>s'.
          receive_lines lineReceived (tl (dropWhile (\<lambda>c. c \<noteq> 10) buffer)) s'))"
  by pat_completeness auto
termination
proof (relation "measure (\<lambda>(f, buffer, s). length buffer)", goal_cases)
  case (2 f buffer s s')
  have "length (dropWhile (\<lambda>c. c \<noteq> 10) buffer) \<le> length buffer" by (rule length_dropWhile_le)
  moreover have "0 < length buffer" using 2 by auto
  ultimately have "length (dropWhile (\<lambda>c. c \<noteq> 10) buffer) - 1 < length buffer" by linarith
  then show ?case by simp
qed simp

declare receive_lines.simps [simp del]

definition line_dataReceived ::
    "(bytes \<Rightarrow> 's \<Rightarrow> exn + 's) \<Rightarrow> bytes \<Rightarrow> 's \<times> bytes \<Rightarrow> exn + ('s \<times> bytes)" where
  "line_dataReceived lineReceived data st = receive_lines lineReceived (snd st @ data) (fst st)"

section \<open>Values and lines\<close>

definition parseValue :: "bytes \<Rightarrow> exn + bytes" where
  "parseValue val =
     (if take 1 val = lit '':'' then decodebytes (dropWhile (\<lambda>c. c = 32) (drop 1 val))
      else if take 1 val = lit ''<'' then Inl NotImplementedError
      else Inr (dropWhile (\<lambda>c. c = 32) val))"

definition parseLine :: "bytes \<Rightarrow> exn + (bytes \<times> bytes)" where
  "parseLine line =
     (if 58 \<notin> set line then Inl (LDIFParseError ''LDIFLineWithoutSemicolonError'')
      else
        bindE (parseValue (tl (dropWhile (\<lambda>c. c \<noteq> 58) line))) (\<lambda>val.
          Inr (takeWhile (\<lambda>c. c \<noteq> 58) line, val)))"

text \<open>
  \<open>int(val)\<close> of bytes: white space around it, a sign, decimal digits with single underscores
  between them.
\<close>

fun int_digits :: "int \<Rightarrow> bytes \<Rightarrow> int option" where
  "int_digits acc [] = Some acc"
| "int_digits acc (c # s) =
     (if 48 \<le> c \<and> c \<le> 57 then int_digits (acc * 10 + uint c - 48) s
      else if c = 95 then
        (case s of
           [] \<Rightarrow> None
         | d # t \<Rightarrow> if 48 \<le> d \<and> d \<le> 57 then int_digits acc s else None)
      else None)"

definition int_unsigned :: "bytes \<Rightarrow> int option" where
  "int_unsigned s =
     (case s of [] \<Rightarrow> None | c # t \<Rightarrow> if 48 \<le> c \<and> c \<le> 57 then int_digits 0 s else None)"

definition int_of_bytes :: "bytes \<Rightarrow> exn + int" where
  "int_of_bytes val =
     (let s = rstrip (dropWhile is_space val);
          r = (case s of
                 [] \<Rightarrow> None
               | c # t \<Rightarrow>
                   if c = 45 then map_option uminus (int_unsigned t)
                   else if c = 43 then int_unsigned t
                   else int_unsigned s)
      in case r of None \<Rightarrow> Inl ValueError | Some i \<Rightarrow> Inr i)"

section \<open>The state\<close>

datatype ldif_mode =
    HEADER | WAIT_FOR_DN | IN_ENTRY
  | WAIT_FOR_CHANGETYPE | WAIT_FOR_MOD_SPEC | IN_MOD_SPEC | IN_ADD_ENTRY | IN_DELETE

record ldif =
  lmode :: ldif_mode
  ldn :: "bytes option"
  ldata :: "(bytes, bytes list) dict option"
  lastLine :: "bytes option"
  lversion :: "int option"

record ldif_parser = ldif +
  got :: "entry list"

definition LDIF_init :: ldif_parser where
  "LDIF_init = \<lparr>lmode = HEADER, ldn = None, ldata = None, lastLine = None, lversion = None, got = []\<rparr>"

section \<open>The states of the machine\<close>

text \<open>\<open>data[key].append(val)\<close>, after \<open>data[key] = []\<close> for a new key.\<close>

definition data_append :: "(bytes, bytes list) dict \<Rightarrow> bytes \<Rightarrow> bytes \<Rightarrow> (bytes, bytes list) dict" where
  "data_append data key val =
     dict_set key (case map_of data key of None \<Rightarrow> [val] | Some vs \<Rightarrow> vs @ [val]) data"

text \<open>The dictionary as the attributes of an entry.\<close>

definition data_attributes :: "(bytes, bytes list) dict \<Rightarrow> (pytext \<times> pytext list) list" where
  "data_attributes data = map (\<lambda>(k, vs). (Byt k, map Byt vs)) data"

text \<open>A comment is skipped, any other line goes to the state's method.\<close>

definition logicalLine :: "(bytes \<Rightarrow> 's \<Rightarrow> exn + 's) \<Rightarrow> bytes \<Rightarrow> 's \<Rightarrow> exn + 's" where
  "logicalLine method line s = (if take 1 line = lit ''#'' then Inr s else method line s)"

text \<open>The method of the first state, given what \<open>logicalLineReceived\<close> does in the next one.\<close>

definition state_HEADER ::
    "(bytes \<Rightarrow> 'a ldif_scheme \<Rightarrow> exn + 'a ldif_scheme) \<Rightarrow> bytes \<Rightarrow> 'a ldif_scheme \<Rightarrow> exn + 'a ldif_scheme"
where
  "state_HEADER logicalLineReceived line s =
     bindE (parseLine line) (\<lambda>(key, val).
       let s' = s\<lparr>lmode := WAIT_FOR_DN\<rparr> in
       if key \<noteq> lit ''version'' then logicalLineReceived line s'
       else
         (case int_of_bytes val of
            Inl _ \<Rightarrow> Inl (LDIFParseError ''LDIFVersionNotANumberError'')
          | Inr version \<Rightarrow>
              if version > 1 then Inl (LDIFParseError ''LDIFUnsupportedVersionError'')
              else Inr (s'\<lparr>lversion := Some version\<rparr>)))"

definition state_WAIT_FOR_DN :: "bytes \<Rightarrow> 'a ldif_scheme \<Rightarrow> exn + 'a ldif_scheme" where
  "state_WAIT_FOR_DN line s =
     bindE (assertE AssertionError (ldn s = None)) (\<lambda>_.
     bindE (assertE AssertionError (ldata s = None)) (\<lambda>_.
     if line = [] then Inr s
     else
       bindE (parseLine line) (\<lambda>(key, val).
         if bupper key \<noteq> lit ''DN'' then Inl (LDIFParseError ''LDIFEntryStartsWithNonDNError'')
         else Inr (s\<lparr>ldn := Some val, ldata := Some [], lmode := IN_ENTRY\<rparr>))))"

text \<open>The end of an entry hands it to \<open>gotEntry\<close>, which the subclasses override.\<close>

definition state_IN_ENTRY ::
    "(entry \<Rightarrow> 'a ldif_scheme \<Rightarrow> 'a ldif_scheme) \<Rightarrow> bytes \<Rightarrow> 'a ldif_scheme \<Rightarrow> exn + 'a ldif_scheme"
where
  "state_IN_ENTRY gotEntry line s =
     (case (ldn s, ldata s) of
        (Some d, Some data) \<Rightarrow>
          if line = [] then
            bindE (mkEntry (Byt d) (data_attributes data)) (\<lambda>ob.
              Inr (gotEntry ob (s\<lparr>lmode := WAIT_FOR_DN, ldn := None, ldata := None\<rparr>)))
          else
            bindE (parseLine line) (\<lambda>(key, val).
              Inr (s\<lparr>ldata := Some (data_append data key val)\<rparr>))
      | _ \<Rightarrow> Inl AssertionError)"

text \<open>The entries are collected in order.\<close>

definition gotEntry :: "entry \<Rightarrow> ldif_parser \<Rightarrow> ldif_parser" where
  "gotEntry ob s = s\<lparr>got := got s @ [ob]\<rparr>"

definition LDIF_method :: "bytes \<Rightarrow> ldif_parser \<Rightarrow> exn + ldif_parser" where
  "LDIF_method line s =
     (case lmode s of
        HEADER \<Rightarrow> state_HEADER (logicalLine state_WAIT_FOR_DN) line s
      | WAIT_FOR_DN \<Rightarrow> state_WAIT_FOR_DN line s
      | IN_ENTRY \<Rightarrow> state_IN_ENTRY gotEntry line s
      | _ \<Rightarrow> Inl AttributeError)"

definition LDIF_logicalLineReceived :: "bytes \<Rightarrow> ldif_parser \<Rightarrow> exn + ldif_parser" where
  "LDIF_logicalLineReceived line s = logicalLine LDIF_method line s"

text \<open>\<open>lineReceived\<close>: continuation lines are joined before a logical line is acted on.\<close>

definition lineReceived ::
    "(bytes \<Rightarrow> 'a ldif_scheme \<Rightarrow> exn + 'a ldif_scheme) \<Rightarrow> bytes \<Rightarrow> 'a ldif_scheme \<Rightarrow> exn + 'a ldif_scheme"
where
  "lineReceived logicalLineReceived line s =
     (if take 1 line = lit '' '' then
        (case lastLine s of
           None \<Rightarrow> Inl (LDIFParseError ''LDIFEntryStartsWithSpaceError'')
         | Some l \<Rightarrow> Inr (s\<lparr>lastLine := Some (l @ drop 1 line)\<rparr>))
      else
        bindE (case lastLine s of None \<Rightarrow> Inr s | Some l \<Rightarrow> logicalLineReceived l s) (\<lambda>s'.
        let s2 = s'\<lparr>lastLine := Some line\<rparr> in
        if line = [] then
          bindE (logicalLineReceived line s2) (\<lambda>s3. Inr (s3\<lparr>lastLine := None\<rparr>))
        else Inr s2))"

definition LDIF_dataReceived :: "bytes \<Rightarrow> ldif_parser \<times> bytes \<Rightarrow> exn + (ldif_parser \<times> bytes)" where
  "LDIF_dataReceived data st = line_dataReceived (lineReceived LDIF_logicalLineReceived) data st"

definition LDIF_connectionLost :: "'a ldif_scheme \<Rightarrow> exn + unit" where
  "LDIF_connectionLost s =
     (if lmode s \<noteq> WAIT_FOR_DN then Inl (LDIFParseError ''LDIFTruncatedError'') else Inr ())"

section \<open>Lemmas: lines and chunks\<close>

lemma receive_lines_end [simp]: "10 \<notin> set b \<Longrightarrow> receive_lines lr b s = Inr (s, b)"
  by (simp add: receive_lines.simps)

lemma receive_lines_line:
  "10 \<notin> set l \<Longrightarrow> receive_lines lr (l @ 10 # b) s = bindE (lr l s) (receive_lines lr b)"
proof -
  assume l: "10 \<notin> set l"
  then have "takeWhile (\<lambda>c. c \<noteq> 10) (l @ 10 # b) = l" "dropWhile (\<lambda>c. c \<noteq> 10) (l @ 10 # b) = 10 # b"
    by (induction l) auto
  then show ?thesis by (subst receive_lines.simps) simp
qed

text \<open>Where the data is cut does not matter.\<close>

lemma receive_lines_append:
  "receive_lines lr (a @ b) s =
     bindE (receive_lines lr a s) (\<lambda>(s', r). receive_lines lr (r @ b) s')"
proof (induction "length a" arbitrary: a s rule: less_induct)
  case less
  show ?case
  proof (cases "10 \<in> set a")
    case True
    then obtain l r where a: "a = l @ 10 # r" "10 \<notin> set l" by (metis split_list_first)
    have IH: "receive_lines lr (r @ b) s' =
        bindE (receive_lines lr r s') (\<lambda>(s', r). receive_lines lr (r @ b) s')" for s'
      by (rule less) (simp add: a)
    show ?thesis using a(2) by (cases "lr l s") (simp_all add: a(1) receive_lines_line IH)
  qed simp
qed

lemma receive_lines_lines:
  "\<forall>l \<in> set ls. 10 \<notin> set l \<Longrightarrow>
   receive_lines lr (concat (map (\<lambda>l. l @ [10]) ls) @ b) s = bindE (foldE lr ls s) (receive_lines lr b)"
proof (induction ls arbitrary: s)
  case (Cons l ls)
  then show ?case by (cases "lr l s") (simp_all add: receive_lines_line)
qed simp

lemma receive_lines_rest: "receive_lines lr m u = Inr (s', r) \<Longrightarrow> 10 \<notin> set r"
proof (induction lr m u rule: receive_lines.induct)
  case (1 lr m u)
  then show ?case by (auto simp: receive_lines.simps[of lr m u] split: if_splits)
qed

lemma dataReceived_chunks:
  "foldE (line_dataReceived lr) (c # cs) (s, []) = receive_lines lr (c @ concat cs) s"
proof -
  have "foldE (line_dataReceived lr) cs (s', r) = receive_lines lr (r @ concat cs) s'"
    if "10 \<notin> set r" for s' r
    using that
  proof (induction cs arbitrary: s' r)
    case (Cons c cs)
    then show ?case
      using Cons receive_lines_append[of lr "r @ c" "concat cs" s'] receive_lines_rest[of lr "r @ c" s']
      by (cases "receive_lines lr (r @ c) s'") (auto simp: line_dataReceived_def split: prod.splits)
  qed simp
  then show ?thesis
    using receive_lines_rest[of lr c s] receive_lines_append[of lr c "concat cs" s]
    by (cases "receive_lines lr c s") (auto simp: line_dataReceived_def)
qed

section \<open>Lemmas: printed lines read back\<close>

text \<open>An attribute name that can stand in front of the colon of a line.\<close>

definition key_ok :: "bytes \<Rightarrow> bool" where
  "key_ok k \<longleftrightarrow> 58 \<notin> set k \<and> 10 \<notin> set k \<and> take 1 k \<noteq> lit '' '' \<and> take 1 k \<noteq> lit ''#''"

text \<open>A whole logical line: not folded, not empty, no comment.\<close>

definition plain_line :: "bytes \<Rightarrow> bool" where
  "plain_line l \<longleftrightarrow> 10 \<notin> set l \<and> l \<noteq> [] \<and> take 1 l \<noteq> lit '' '' \<and> take 1 l \<noteq> lit ''#''"

lemma key_colon:
  "58 \<notin> set k \<Longrightarrow> takeWhile (\<lambda>c. c \<noteq> 58) (k @ 58 # v) = k \<and> dropWhile (\<lambda>c. c \<noteq> 58) (k @ 58 # v) = 58 # v"
  for k :: bytes
  by (induction k) auto

lemma parseLine_key: "58 \<notin> set k \<Longrightarrow> parseLine (k @ 58 # v) = bindE (parseValue v) (\<lambda>val. Inr (k, val))"
  by (simp add: parseLine_def key_colon)

lemma plain_line_key: "key_ok k \<Longrightarrow> 10 \<notin> set v \<Longrightarrow> plain_line (k @ 58 # v)"
  by (cases k) (auto simp: key_ok_def plain_line_def)

lemma dropWhile_none: "xs = [] \<or> \<not> P (hd xs) \<Longrightarrow> dropWhile P xs = xs"
  by (cases xs) auto

lemma b64_line:
  "10 \<notin> set (filter (\<lambda>c. c \<noteq> 10) (encodebytes v)) \<and>
   dropWhile (\<lambda>c. c = 32) (filter (\<lambda>c. c \<noteq> 10) (encodebytes v)) = filter (\<lambda>c. c \<noteq> 10) (encodebytes v)"
proof -
  let ?f = "filter (\<lambda>c. c \<noteq> 10) (encodebytes v)"
  have "c \<noteq> 32" if "c \<in> set ?f" for c
  proof -
    have "c \<in> set (lit b64_alphabet) \<union> {b64_pad}" using set_encodebytes[of v] that by auto
    then show ?thesis using alphabet_not_space[of c] by (auto simp: is_space_def)
  qed
  then have "?f = [] \<or> hd ?f \<noteq> 32" by (metis list.set_sel(1))
  then show ?thesis by (auto intro: dropWhile_none)
qed

lemma attributeAsLDIF_line:
  assumes "key_ok (to_bytes k)"
  shows "\<exists>l. attributeAsLDIF k v = l @ [10] \<and> plain_line l \<and> parseLine l = Inr (to_bytes k, to_bytes v)"
proof -
  let ?k = "to_bytes k" and ?v = "to_bytes v"
  have colon: "58 \<notin> set ?k" using assms by (simp add: key_ok_def)
  let ?f = "filter (\<lambda>c. c \<noteq> 10) (encodebytes ?v)"
  have b64: "parseLine (?k @ 58 # 58 # 32 # ?f) = Inr (?k, ?v)" "plain_line (?k @ 58 # 58 # 32 # ?f)"
    using b64_line[of ?v] decode_ignoring_newlines[of ?f ?v] assms
    by (simp_all add: parseLine_key colon parseValue_def plain_line_key)
  have direct: "parseLine (?k @ 58 # 32 # ?v) = Inr (?k, ?v)" "plain_line (?k @ 58 # 32 # ?v)"
    if "take 1 ?v \<noteq> lit '' ''" "\<not> containsNonprintable ?v"
  proof -
    have "dropWhile (\<lambda>c. c = 32) ?v = ?v" using that(1) by (intro dropWhile_none) (cases ?v; auto)
    then show "parseLine (?k @ 58 # 32 # ?v) = Inr (?k, ?v)"
      by (simp add: parseLine_key colon parseValue_def)
    have "10 \<notin> set ?v" using that(2) by (auto simp: containsNonprintable_def list_ex_iff)
    then show "plain_line (?k @ 58 # 32 # ?v)" using assms by (simp add: plain_line_key)
  qed
  show ?thesis
  proof (cases "attributeAsLDIF k v = attributeAsLDIF_base64 ?k ?v")
    case True
    then show ?thesis using b64 by (auto simp: attributeAsLDIF_base64_def base64_encode_def)
  next
    case False
    then have "attributeAsLDIF k v = ?k @ 58 # 32 # ?v @ [10]" "take 1 ?v \<noteq> lit '' ''" "\<not> containsNonprintable ?v"
      by (auto simp: attributeAsLDIF_def Let_def split: if_splits)
    then show ?thesis using direct by auto
  qed
qed

text \<open>The line printed for an attribute, without its line feed.\<close>

definition attr_line :: "pytext \<Rightarrow> pytext \<Rightarrow> bytes" where
  "attr_line k v = butlast (attributeAsLDIF k v)"

lemma attr_line:
  assumes "key_ok (to_bytes k)"
  shows "attributeAsLDIF k v = attr_line k v @ [10]" "plain_line (attr_line k v)"
    "parseLine (attr_line k v) = Inr (to_bytes k, to_bytes v)"
  using attributeAsLDIF_line[OF assms, of v] by (auto simp: attr_line_def)

section \<open>Lemmas: distinguished names as lines\<close>

lemma escape_printable: "c \<in> set (escape s) \<Longrightarrow> 31 < (of_char c :: nat)"
proof (cases s rule: escape_cases)
  case (plain s1 lead trail)
  have hex: "31 < (of_char (hex_upper (n mod 16)) :: nat)" for n
  proof -
    have "\<forall>c \<in> set ''0123456789ABCDEF''. 31 < (of_char c :: nat)" by simp
    moreover have "hex_upper (n mod 16) \<in> set ''0123456789ABCDEF''"
      unfolding hex_upper_def by (rule nth_mem) simp
    ultimately show ?thesis by blast
  qed
  have esc: "31 < (of_char c :: nat)" if "c \<in> set (escape_char x)" for x
  proof -
    have "\<forall>c \<in> set escapedChars. 31 < (of_char c :: nat)" by (simp add: escapedChars_def)
    moreover have "(of_char x :: nat) div 16 = (of_char x div 16) mod 16"
      using nat_of_char_less_256[of x] by (simp add: less_mult_imp_div_less)
    ultimately show ?thesis
      using that hex[of "of_char x"] hex[of "of_char x div 16"]
      by (auto simp: escape_char_def split: if_splits)
  qed
  assume c: "c \<in> set (escape s)"
  have sl: "31 < (of_char c :: nat)" if "c \<in> set (concat (map (\<lambda>c. [backslash, c]) l))" "set l \<subseteq> set '' #''" for l
    using that by (induction l) auto
  from c consider "c \<in> set (concat (map (\<lambda>c. [backslash, c]) lead))" | "c \<in> set (concat (map escape_char s1))"
    | "c \<in> set (concat (map (\<lambda>c. [backslash, c]) trail))"
    unfolding plain(2) set_append by blast
  then show ?thesis
  proof cases
    case 2
    then show ?thesis using esc by auto
  qed (use sl plain(3,4) in blast)+
qed

lemma join_mem: "c \<in> set (join sep ps) \<Longrightarrow> c \<in> set sep \<or> (\<exists>p \<in> set ps. c \<in> set p)"
  by (induction sep ps rule: join.induct) auto

lemma dn_text_printable: "c \<in> set (dn_text d) \<Longrightarrow> 31 < (of_char c :: nat)"
  unfolding dn_text_def rdn_text_def ava_text_def
  by (fastforce dest!: join_mem dest: escape_printable)

lemma utf8_char_printable:
  "31 < (of_char c :: nat) \<Longrightarrow> w \<in> set (utf8_char c) \<Longrightarrow> w \<noteq> 10 \<and> w \<noteq> 13"
proof -
  assume c: "31 < (of_char c :: nat)" "w \<in> set (utf8_char c)"
  show ?thesis
  proof (cases "(of_char c :: byte) < 0x80")
    case True
    then have "char_of (unat w) = c" using c(2) char_of_of_char_word[of c] by (simp add: utf8_char_def Let_def)
    then show ?thesis using c(1) by auto
  next
    case False
    let ?v = "0x80 OR (of_char c AND 0x3F) :: byte"
    have "?v \<noteq> 10 \<and> ?v \<noteq> 13"
    proof (intro conjI notI)
      assume "?v = 10" then show False using utf8_trail[of "of_char c"] by (simp only:) simp
    next
      assume "?v = 13" then show False using utf8_trail[of "of_char c"] by (simp only:) simp
    qed
    then show ?thesis using c(2) False utf8_lead[OF False] by (auto simp: utf8_char_def Let_def)
  qed
qed

lemma utf8_encode_printable: "(\<And>c. c \<in> set s \<Longrightarrow> 31 < (of_char c :: nat)) \<Longrightarrow> 10 \<notin> set (utf8_encode s)"
  using utf8_char_printable by (auto simp: utf8_encode_def)

lemma space_char [simp]: "char_of (32 :: nat) = CHR '' ''"
proof -
  have "(of_char (CHR '' '') :: nat) = 32" by simp
  then show ?thesis by (metis char_of_char)
qed

lemma utf8_hd_space: "hd (utf8_char c @ t) = 32 \<longleftrightarrow> c = CHR '' ''"
proof (cases "(of_char c :: byte) < 0x80")
  case True
  then have "hd (utf8_char c @ t) = of_char c" by (simp add: utf8_char_def Let_def)
  moreover have "(of_char c :: byte) = 32 \<Longrightarrow> c = CHR '' ''"
    using char_of_of_char_word[of c] by simp
  ultimately show ?thesis by auto
next
  case False
  then show ?thesis using utf8_lead[OF False] by (auto simp: utf8_char_def Let_def)
qed

lemma rdn_text_Nil_eq [simp]: "rdn_text [] = []"
  by simp

lemma dn_text_hd: "dn_text d \<noteq> [] \<Longrightarrow> hd (dn_text d) \<noteq> CHR '' ''"
proof (cases d)
  case (Cons r rs)
  then show "dn_text d \<noteq> [] \<Longrightarrow> ?thesis" using rdn_text_hd[of r]
    by (cases rs; cases "rdn_text r") (auto simp: dn_text_def)
qed (simp add: dn_text_def)

definition dn_line :: "dn \<Rightarrow> bytes" where
  "dn_line d = lit ''dn: '' @ utf8_encode (dn_text d)"

lemma dn_line:
  "plain_line (dn_line d)" "parseLine (dn_line d) = Inr (lit ''dn'', utf8_encode (dn_text d))"
proof -
  let ?u = "utf8_encode (dn_text d)"
  have line: "dn_line d = lit ''dn'' @ 58 # 32 # ?u" by (simp add: dn_line_def)
  have "10 \<notin> set ?u" by (rule utf8_encode_printable[OF dn_text_printable])
  then show "plain_line (dn_line d)" unfolding line by (intro plain_line_key) (simp_all add: key_ok_def)
  have "dropWhile (\<lambda>c. c = 32) ?u = ?u"
    using dn_text_hd[of d] by (intro dropWhile_none) (cases "dn_text d"; simp add: utf8_hd_space)
  then show "parseLine (dn_line d) = Inr (lit ''dn'', ?u)"
    using parseLine_key[of "lit ''dn''" "32 # ?u"] unfolding line by (simp add: parseValue_def)
qed

section \<open>The contract of a machine on logical lines\<close>

text \<open>Exceptions that show a mistake of the program's own.\<close>

definition internal :: "exn \<Rightarrow> bool" where
  "internal e \<longleftrightarrow> e \<in> {AssertionError, AttributeError, KeyError}"

locale line_machine =
  fixes logical :: "bytes \<Rightarrow> 'a ldif_scheme \<Rightarrow> exn + 'a ldif_scheme" and inv :: "'a ldif_scheme \<Rightarrow> bool"
  assumes logical_lastLine:
      "logical l (s\<lparr>lastLine := x\<rparr>) = bindE (logical l s) (\<lambda>s'. Inr (s'\<lparr>lastLine := x\<rparr>))"
    and inv_lastLine: "inv (s\<lparr>lastLine := x\<rparr>) \<longleftrightarrow> inv s"
    and inv_logical: "inv s \<Longrightarrow> logical l s = Inr s' \<Longrightarrow> inv s'"
    and logical_error: "inv s \<Longrightarrow> logical l s = Inl e \<Longrightarrow> \<not> internal e"
begin

lemma lastLine_kept: "logical l s = Inr s' \<Longrightarrow> lastLine s' = lastLine s"
proof -
  assume run: "logical l s = Inr s'"
  have "bindE (logical l s) (\<lambda>s'. Inr (s'\<lparr>lastLine := lastLine s\<rparr>)) = logical l s"
    using logical_lastLine[of l "lastLine s" s] by simp
  then have "s'\<lparr>lastLine := lastLine s\<rparr> = s'" by (simp add: run)
  then have "lastLine (s'\<lparr>lastLine := lastLine s\<rparr>) = lastLine s'" by (rule arg_cong)
  then show ?thesis by simp
qed

text \<open>Lines that are not folded, up to an empty one, are the logical lines themselves.\<close>

lemma pending_block:
  "\<forall>l \<in> set ls. plain_line l \<Longrightarrow> lastLine s = None \<Longrightarrow>
   foldE (lineReceived logical) (ls @ [[]]) (s\<lparr>lastLine := Some l0\<rparr>) = foldE logical (l0 # ls @ [[]]) s"
proof (induction ls arbitrary: s l0)
  case Nil
  show ?case
  proof (cases "logical l0 s")
    case (Inr s1)
    then have s1: "lastLine s1 = None" using lastLine_kept Nil.prems(2) by simp
    show ?thesis
    proof (cases "logical [] s1")
      case (Inr s2)
      then have "s2\<lparr>lastLine := None\<rparr> = s2" using lastLine_kept s1 by simp
      then show ?thesis using \<open>logical l0 s = Inr s1\<close> Inr
        by (simp add: lineReceived_def logical_lastLine)
    qed (use Inr in \<open>simp add: lineReceived_def logical_lastLine\<close>)
  qed (simp add: lineReceived_def logical_lastLine)
next
  case (Cons l ls)
  have l: "l \<noteq> []" "take 1 l \<noteq> lit '' ''" using Cons.prems(1) by (auto simp: plain_line_def)
  show ?case
  proof (cases "logical l0 s")
    case (Inr s1)
    then have "lastLine s1 = None" using lastLine_kept Cons.prems(2) by simp
    then show ?thesis using Cons.IH[of s1 l] Cons.prems(1) Inr l
      by (simp add: lineReceived_def logical_lastLine)
  qed (use l in \<open>simp add: lineReceived_def logical_lastLine\<close>)
qed

lemma block:
  assumes "\<forall>l \<in> set ls. plain_line l" "lastLine s = None"
  shows "foldE (lineReceived logical) (ls @ [[]]) s = foldE logical (ls @ [[]]) s"
proof (cases ls)
  case Nil
  have s: "s\<lparr>lastLine := None\<rparr> = s" using assms(2) by simp
  show ?thesis
  proof (cases "logical [] s")
    case (Inr s')
    then have "s'\<lparr>lastLine := None\<rparr> = s'" using lastLine_kept assms(2) by simp
    then show ?thesis using Nil Inr assms(2) by (simp add: lineReceived_def logical_lastLine)
  qed (use Nil assms(2) in \<open>simp add: lineReceived_def logical_lastLine\<close>)
next
  case (Cons l ls')
  then have "l \<noteq> []" "take 1 l \<noteq> lit '' ''" using assms(1) by (auto simp: plain_line_def)
  then show ?thesis using pending_block[of ls' s l] Cons assms by (simp add: lineReceived_def)
qed

text \<open>The invariant holds after any lines, and no exception comes from the program's own mistake.\<close>

lemma logical_inv:
  "inv u \<Longrightarrow> case logical x u of Inr s' \<Rightarrow> inv s' | Inl e \<Rightarrow> \<not> internal e"
  using inv_logical[of u x] logical_error[of u x] by (cases "logical x u") auto

lemma lineReceived_inv:
  assumes "inv s"
  shows "case lineReceived logical line s of Inr s' \<Rightarrow> inv s' | Inl e \<Rightarrow> \<not> internal e"
proof (cases "take 1 line = lit '' ''")
  case True
  then show ?thesis using assms inv_lastLine
    by (cases "lastLine s") (auto simp: lineReceived_def internal_def)
next
  case False
  let ?first = "case lastLine s of None \<Rightarrow> Inr s | Some l \<Rightarrow> logical l s"
  have "case ?first of Inr s' \<Rightarrow> inv s' | Inl e \<Rightarrow> \<not> internal e"
    using assms logical_inv by (cases "lastLine s") auto
  then show ?thesis
  proof (cases ?first)
    case (Inr s1)
    with \<open>case ?first of Inr s' \<Rightarrow> inv s' | Inl e \<Rightarrow> \<not> internal e\<close> have "inv s1" by simp
    then have "case logical line (s1\<lparr>lastLine := Some line\<rparr>) of Inr s' \<Rightarrow> inv s' | Inl e \<Rightarrow> \<not> internal e"
      using logical_inv inv_lastLine by blast
    then show ?thesis
      using False Inr \<open>inv s1\<close> inv_lastLine
      by (cases "line = []"; cases "logical line (s1\<lparr>lastLine := Some line\<rparr>)") (simp_all add: lineReceived_def Let_def)
  qed (use False in \<open>simp add: lineReceived_def\<close>)
qed

lemma receive_inv:
  "inv s \<Longrightarrow> case receive_lines (lineReceived logical) b s of Inr (s', r) \<Rightarrow> inv s' | Inl e \<Rightarrow> \<not> internal e"
proof (induction "lineReceived logical" b s rule: receive_lines.induct)
  case (1 b s)
  let ?l = "takeWhile (\<lambda>c. c \<noteq> 10) b"
  show ?case
  proof (cases "lineReceived logical ?l s")
    case (Inr s')
    then have "inv s'" using lineReceived_inv[OF 1(2), of ?l] by simp
    then show ?thesis using 1 Inr by (simp add: receive_lines.simps[of _ b])
  qed (use lineReceived_inv[OF 1(2), of ?l] 1(2) in \<open>simp add: receive_lines.simps[of _ b]\<close>)
qed

end

section \<open>Lemmas: no exception of the program's own\<close>

definition safe :: "exn + 'a \<Rightarrow> bool" where
  "safe r \<longleftrightarrow> (\<forall>e. r = Inl e \<longrightarrow> \<not> internal e)"

lemma safe_Inr [simp]: "safe (Inr x)"
  by (simp add: safe_def)

lemma safe_Inl [simp]: "safe (Inl e) \<longleftrightarrow> e \<notin> {AssertionError, AttributeError, KeyError}"
  by (simp add: safe_def internal_def)

lemma safe_bindE: "safe x \<Longrightarrow> (\<And>a. x = Inr a \<Longrightarrow> safe (f a)) \<Longrightarrow> safe (bindE x f)"
  by (cases x) (simp_all add: safe_def)

lemma safe_mapE: "(\<And>x. x \<in> set xs \<Longrightarrow> safe (f x)) \<Longrightarrow> safe (mapE f xs)"
  by (induction xs) (auto intro!: safe_bindE)

lemma safe_utf8_decode: "safe (utf8_decode b)"
proof (induction b rule: utf8_decode.induct)
  case (2 w ws)
  then show ?case by (cases ws) (simp_all add: safe_bindE)
qed simp

lemma safe_int16: "safe (int16 s)"
  by (cases s rule: int16.cases) (auto split: option.split)

lemma safe_unescape: "safe (unescape s)"
proof (induction s rule: unescape.induct)
  case (2 c s)
  then show ?case by (cases s) (simp_all add: safe_bindE safe_int16 del: int16.simps)
qed simp

lemma safe_dn_of: "safe (dn_of v)"
proof -
  have "safe (to_unicode v)" by (cases v) (simp_all add: safe_utf8_decode)
  then show ?thesis
    by (auto simp: dn_of_def dn_of_text_def rdn_of_text_def ava_of_text_def
        intro!: safe_bindE safe_mapE safe_unescape)
qed

lemma safe_decodebytes: "safe (decodebytes b)"
proof -
  have "safe (a2b_base64 q l p b)" for q l p
    by (induction q l p b rule: a2b_base64.induct) (auto intro!: safe_bindE split: option.split)
  then show ?thesis by (simp add: decodebytes_def)
qed

lemma safe_parseLine: "safe (parseLine l)"
  by (auto simp: parseLine_def parseValue_def intro!: safe_bindE safe_decodebytes)

section \<open>The parser of entries is such a machine\<close>

text \<open>The name and the data are there exactly inside an entry; no other state is reached.\<close>

definition LDIF_inv :: "ldif_parser \<Rightarrow> bool" where
  "LDIF_inv s \<longleftrightarrow>
     (case lmode s of
        IN_ENTRY \<Rightarrow> ldn s \<noteq> None \<and> ldata s \<noteq> None
      | HEADER \<Rightarrow> ldn s = None \<and> ldata s = None
      | WAIT_FOR_DN \<Rightarrow> ldn s = None \<and> ldata s = None
      | _ \<Rightarrow> False)"

lemmas machine_defs = LDIF_logicalLineReceived_def logicalLine_def LDIF_method_def state_HEADER_def
  state_WAIT_FOR_DN_def state_IN_ENTRY_def gotEntry_def

text \<open>The pending line is apart from what the states look at.\<close>

lemma lastLine_outermost:
  "s\<lparr>lastLine := x, lmode := m\<rparr> = s\<lparr>lmode := m, lastLine := x\<rparr>"
  "s\<lparr>lastLine := x, ldn := d\<rparr> = s\<lparr>ldn := d, lastLine := x\<rparr>"
  "s\<lparr>lastLine := x, ldata := a\<rparr> = s\<lparr>ldata := a, lastLine := x\<rparr>"
  "s\<lparr>lastLine := x, lversion := v\<rparr> = s\<lparr>lversion := v, lastLine := x\<rparr>"
  "t\<lparr>lastLine := x, got := g\<rparr> = t\<lparr>got := g, lastLine := x\<rparr>"
  by simp_all

lemma WAIT_FOR_DN_effect:
  "state_WAIT_FOR_DN line s = Inr s' \<Longrightarrow>
   s' = s \<or> ldn s = None \<and> (\<exists>v. s' = s\<lparr>ldn := Some v, ldata := Some [], lmode := IN_ENTRY\<rparr>)"
  by (auto simp: state_WAIT_FOR_DN_def split: if_splits prod.splits)

lemma WAIT_FOR_DN_lastLine:
  "state_WAIT_FOR_DN line (s\<lparr>lastLine := x\<rparr>) =
     bindE (state_WAIT_FOR_DN line s) (\<lambda>s'. Inr (s'\<lparr>lastLine := x\<rparr>))"
  by (cases "parseLine line") (auto simp: state_WAIT_FOR_DN_def assertE_def lastLine_outermost split: prod.split)

lemma WAIT_FOR_DN_safe: "ldn s = None \<Longrightarrow> ldata s = None \<Longrightarrow> safe (state_WAIT_FOR_DN line s)"
  by (auto simp: state_WAIT_FOR_DN_def intro!: safe_bindE safe_parseLine split: prod.split)

lemma HEADER_lastLine:
  "state_HEADER (logicalLine state_WAIT_FOR_DN) line (s\<lparr>lastLine := x\<rparr>) =
     bindE (state_HEADER (logicalLine state_WAIT_FOR_DN) line s) (\<lambda>s'. Inr (s'\<lparr>lastLine := x\<rparr>))"
proof (cases "parseLine line")
  case (Inr kv)
  obtain k v where kv: "kv = (k, v)" by (cases kv)
  show ?thesis
    by (auto simp: state_HEADER_def Inr kv Let_def logicalLine_def lastLine_outermost WAIT_FOR_DN_lastLine
        split: sum.split)
qed (simp add: state_HEADER_def)

lemma HEADER_safe:
  "ldn s = None \<Longrightarrow> ldata s = None \<Longrightarrow> safe (state_HEADER (logicalLine state_WAIT_FOR_DN) line s)"
  by (auto simp: state_HEADER_def Let_def logicalLine_def
      intro!: safe_bindE safe_parseLine WAIT_FOR_DN_safe split: prod.split sum.split)

lemma HEADER_effect:
  "state_HEADER (logicalLine state_WAIT_FOR_DN) line s = Inr s' \<Longrightarrow> lmode s = HEADER \<Longrightarrow>
   \<exists>v. s' = s\<lparr>lmode := WAIT_FOR_DN, lversion := v\<rparr>
     \<or> (\<exists>w. s' = s\<lparr>lmode := IN_ENTRY, lversion := v, ldn := Some w, ldata := Some []\<rparr>)"
proof -
  assume r: "state_HEADER (logicalLine state_WAIT_FOR_DN) line s = Inr s'" "lmode s = HEADER"
  let ?s = "s\<lparr>lmode := WAIT_FOR_DN\<rparr>"
  have same: "u = u\<lparr>lversion := lversion u\<rparr>" for u :: "'a ldif_scheme" by simp
  from r consider "logicalLine state_WAIT_FOR_DN line ?s = Inr s'" | v where "s' = ?s\<lparr>lversion := v\<rparr>"
    by (auto simp: state_HEADER_def Let_def split: prod.splits if_splits sum.splits)
  then show ?thesis
  proof cases
    case 1
    then have "s' = ?s \<or> (\<exists>w. s' = ?s\<lparr>ldn := Some w, ldata := Some [], lmode := IN_ENTRY\<rparr>)"
      using WAIT_FOR_DN_effect[of line ?s s'] by (auto simp: logicalLine_def split: if_splits)
    then show ?thesis
    proof
      assume "s' = ?s"
      then have "s' = s\<lparr>lmode := WAIT_FOR_DN, lversion := lversion s\<rparr>" by simp
      then show ?thesis by blast
    next
      assume "\<exists>w. s' = ?s\<lparr>ldn := Some w, ldata := Some [], lmode := IN_ENTRY\<rparr>"
      then obtain w where "s' = ?s\<lparr>ldn := Some w, ldata := Some [], lmode := IN_ENTRY\<rparr>" by blast
      then have "s' = s\<lparr>lmode := IN_ENTRY, lversion := lversion s, ldn := Some w, ldata := Some []\<rparr>" by simp
      then show ?thesis by blast
    qed
  qed auto
qed

interpretation entries: line_machine LDIF_logicalLineReceived LDIF_inv
proof
  fix l s x
  show "LDIF_logicalLineReceived l (s\<lparr>lastLine := x\<rparr>) =
      bindE (LDIF_logicalLineReceived l s) (\<lambda>s'. Inr (s'\<lparr>lastLine := x\<rparr>))"
    by (auto simp: LDIF_logicalLineReceived_def logicalLine_def LDIF_method_def HEADER_lastLine
        WAIT_FOR_DN_lastLine state_IN_ENTRY_def gotEntry_def bindE_assoc lastLine_outermost case_prod_unfold
        split: ldif_mode.split option.split)
next
  fix s x
  show "LDIF_inv (s\<lparr>lastLine := x\<rparr>) \<longleftrightarrow> LDIF_inv s" by (cases "lmode s") (simp_all add: LDIF_inv_def)
next
  fix s l s'
  assume "LDIF_inv s" "LDIF_logicalLineReceived l s = Inr s'"
  then show "LDIF_inv s'"
    using HEADER_effect[of l s s'] WAIT_FOR_DN_effect[of l s s']
    by (auto simp: LDIF_logicalLineReceived_def logicalLine_def LDIF_method_def LDIF_inv_def
        state_IN_ENTRY_def gotEntry_def split: ldif_mode.splits if_splits option.splits prod.splits)
next
  fix s l e
  assume s: "LDIF_inv s" and e: "LDIF_logicalLineReceived l s = Inl e"
  have "safe (LDIF_logicalLineReceived l s)"
    using s HEADER_safe[of s l] WAIT_FOR_DN_safe[of s l]
    by (auto simp: LDIF_logicalLineReceived_def logicalLine_def LDIF_method_def LDIF_inv_def
        state_IN_ENTRY_def gotEntry_def mkEntry_def intro!: safe_bindE safe_parseLine safe_dn_of
        split: ldif_mode.splits option.splits prod.splits)
  then show "\<not> internal e" using e by (simp add: safe_def)
qed

lemma LDIF_init_inv: "LDIF_inv LDIF_init"
  by (simp add: LDIF_inv_def LDIF_init_def)

section \<open>Lemmas: what is printed is read\<close>

text \<open>The lines of an entry, and what the parser collects of them.\<close>

definition attr_lines :: "(pytext \<times> pytext list) list \<Rightarrow> bytes list" where
  "attr_lines attrs = concat (map (\<lambda>(k, vs). map (attr_line k) vs) attrs)"

definition read_attrs :: "(pytext \<times> pytext list) list \<Rightarrow> (bytes, bytes list) dict" where
  "read_attrs attrs =
     foldl (\<lambda>d (k, vs). foldl (\<lambda>d v. data_append d (to_bytes k) (to_bytes v)) d vs) [] attrs"

definition keys_ok :: "(pytext \<times> pytext list) list \<Rightarrow> bool" where
  "keys_ok attrs \<longleftrightarrow> (\<forall>(k, vs) \<in> set attrs. key_ok (to_bytes k))"

lemma attr_lines_plain: "keys_ok attrs \<Longrightarrow> l \<in> set (attr_lines attrs) \<Longrightarrow> plain_line l"
  using attr_line(2) by (fastforce simp: attr_lines_def keys_ok_def)

lemma asLDIF_lines:
  assumes "keys_ok attrs"
  shows "asLDIF (Str (dn_text d)) attrs = concat (map (\<lambda>l. l @ [10]) (dn_line d # attr_lines attrs @ [[]]))"
proof -
  have "concat (map (attributeAsLDIF k) vs) = concat (map (\<lambda>l. l @ [10]) (map (attr_line k) vs))"
    if "key_ok (to_bytes k)" for k vs
    by (simp add: comp_def attr_line(1)[OF that, abs_def])
  with assms show ?thesis
    unfolding asLDIF_def dn_line_def attr_lines_def
    by (induction attrs) (auto simp: keys_ok_def)
qed

lemma logical_entry_line:
  assumes "parseLine l = Inr (k, v)" "plain_line l" "lmode s = IN_ENTRY" "ldn s = Some d" "ldata s = Some data"
  shows "LDIF_logicalLineReceived l s = Inr (s\<lparr>ldata := Some (data_append data k v)\<rparr>)"
  using assms by (simp add: machine_defs plain_line_def)

lemma attr_lines_read:
  assumes "keys_ok attrs" "lmode s = IN_ENTRY" "ldn s = Some d" "ldata s = Some data"
  shows "foldE LDIF_logicalLineReceived (attr_lines attrs) s =
    Inr (s\<lparr>ldata := Some (foldl (\<lambda>d (k, vs). foldl (\<lambda>d v. data_append d (to_bytes k) (to_bytes v)) d vs)
      data attrs)\<rparr>)"
  using assms
proof (induction attrs arbitrary: s data)
  case (Cons kv attrs)
  obtain k vs where kv: "kv = (k, vs)" by (cases kv)
  then have k: "key_ok (to_bytes k)" and rest: "keys_ok attrs" using Cons.prems(1) by (auto simp: keys_ok_def)
  have one: "foldE LDIF_logicalLineReceived (map (attr_line k) vs) s =
      Inr (s\<lparr>ldata := Some (foldl (\<lambda>d v. data_append d (to_bytes k) (to_bytes v)) data vs)\<rparr>)"
    if "lmode s = IN_ENTRY" "ldn s = Some d" "ldata s = Some data" for s :: ldif_parser and data
    using that
  proof (induction vs arbitrary: s data)
    case (Cons v vs)
    then show ?case using logical_entry_line[OF attr_line(3,2)[OF k]] by simp
  qed simp
  show ?case
    using one[OF Cons.prems(2-4)] Cons.IH[OF rest] Cons.prems
    by (simp add: attr_lines_def kv foldE_append)
qed (simp add: attr_lines_def)

text \<open>Between entries: a line is awaited that names the next one.\<close>

definition between :: "ldif_parser \<Rightarrow> bool" where
  "between s \<longleftrightarrow> lmode s = WAIT_FOR_DN \<and> ldn s = None \<and> ldata s = None \<and> lastLine s = None"

lemma entry_read:
  assumes "keys_ok attrs" "dn_ok d" "between s"
  shows "foldE (lineReceived LDIF_logicalLineReceived) (dn_line d # attr_lines attrs @ [[]]) s =
    Inr (s\<lparr>got := got s @ [entry_init d (data_attributes (read_attrs attrs))]\<rparr>)"
proof -
  let ?s1 = "s\<lparr>ldn := Some (utf8_encode (dn_text d)), ldata := Some [], lmode := IN_ENTRY\<rparr>"
  have plain: "\<forall>l \<in> set (dn_line d # attr_lines attrs). plain_line l"
    using dn_line(1) attr_lines_plain[OF assms(1)] by auto
  have "bupper (lit ''dn'') = lit ''DN''" by code_simp
  then have dn: "LDIF_logicalLineReceived (dn_line d) s = Inr ?s1"
    using dn_line[of d] assms(3) by (simp add: machine_defs plain_line_def between_def del: lit_Cons)
  have attrs: "foldE LDIF_logicalLineReceived (attr_lines attrs) ?s1 =
      Inr (?s1\<lparr>ldata := Some (read_attrs attrs)\<rparr>)"
    by (subst attr_lines_read[OF assms(1)]) (simp_all add: read_attrs_def)
  have "dn_of (Byt (utf8_encode (dn_text d))) = Inr d" using assms(2) by (simp add: dn_of_def dn_of_text_show)
  then have last: "LDIF_logicalLineReceived [] (?s1\<lparr>ldata := Some (read_attrs attrs)\<rparr>) =
      Inr (s\<lparr>got := got s @ [entry_init d (data_attributes (read_attrs attrs))]\<rparr>)"
    using assms(3) by (simp add: machine_defs mkEntry_def between_def)
  have "foldE (lineReceived LDIF_logicalLineReceived) ((dn_line d # attr_lines attrs) @ [[]]) s =
      foldE LDIF_logicalLineReceived ((dn_line d # attr_lines attrs) @ [[]]) s"
    using entries.block[OF plain] assms(3) by (simp only: between_def)
  also have "\<dots> = Inr (s\<lparr>got := got s @ [entry_init d (data_attributes (read_attrs attrs))]\<rparr>)"
    using dn attrs last by (simp add: foldE_append)
  finally show ?thesis by simp
qed

lemma data_append_new:
  "map_of data key = None \<Longrightarrow> data_append data key v = data @ [(key, [v])]"
proof -
  have "map_of data key = None \<Longrightarrow> dict_set key x data = data @ [(key, x)]" for x
    by (induction data) (auto split: if_splits)
  then show "map_of data key = None \<Longrightarrow> ?thesis" by (simp add: data_append_def)
qed

lemma data_append_last:
  "key \<notin> fst ` set data \<Longrightarrow> data_append (data @ [(key, ws)]) key v = data @ [(key, ws @ [v])]"
proof -
  assume k: "key \<notin> fst ` set data"
  then have "map_of (data @ [(key, ws)]) key = Some ws" "dict_set key x (data @ [(key, ws)]) = data @ [(key, x)]" for x
    by (induction data) auto
  then show ?thesis by (simp add: data_append_def)
qed

lemma data_append_values:
  assumes "key \<notin> fst ` set data" "vs \<noteq> []"
  shows "foldl (\<lambda>d v. data_append d key (g v)) data vs = data @ [(key, map g vs)]"
proof -
  have "foldl (\<lambda>d v. data_append d key (g v)) (data @ [(key, ws)]) us = data @ [(key, ws @ map g us)]" for us ws
    by (induction us arbitrary: ws) (simp_all add: data_append_last assms(1))
  moreover from assms have "data_append data key (g (hd vs)) = data @ [(key, [g (hd vs)])]"
    by (simp add: data_append_new map_of_eq_None_iff)
  ultimately show ?thesis using assms(2) by (cases vs) simp_all
qed

text \<open>Keys that differ, each with values, are read as they were printed, as bytes.\<close>

definition printable_attrs :: "(pytext \<times> pytext list) list \<Rightarrow> bool" where
  "printable_attrs attrs \<longleftrightarrow>
     keys_ok attrs \<and> distinct (map (\<lambda>kv. to_bytes (fst kv)) attrs) \<and> (\<forall>kv \<in> set attrs. snd kv \<noteq> [])"

lemma read_attrs_printable:
  assumes "printable_attrs attrs"
  shows "data_attributes (read_attrs attrs) = map (\<lambda>(k, vs). (canon k, map canon vs)) attrs"
proof -
  let ?step = "\<lambda>d (k, vs). foldl (\<lambda>d v. data_append d (to_bytes k) (to_bytes v)) d vs"
  let ?b = "map (\<lambda>(k, vs). (to_bytes k, map to_bytes vs))"
  have "foldl ?step data attrs = data @ ?b attrs"
    if "distinct (map (\<lambda>kv. to_bytes (fst kv)) attrs)" "\<forall>kv \<in> set attrs. snd kv \<noteq> []"
      "\<forall>kv \<in> set attrs. to_bytes (fst kv) \<notin> fst ` set data" for data :: "(bytes, bytes list) dict"
    using that
  proof (induction attrs arbitrary: data)
    case (Cons kv attrs)
    obtain k vs where kv: "kv = (k, vs)" by (cases kv)
    have head: "foldl (\<lambda>d v. data_append d (to_bytes k) (to_bytes v)) data vs = data @ [(to_bytes k, map to_bytes vs)]"
      using Cons.prems by (intro data_append_values) (auto simp: kv)
    have "foldl ?step (data @ [(to_bytes k, map to_bytes vs)]) attrs =
        (data @ [(to_bytes k, map to_bytes vs)]) @ ?b attrs"
    proof (rule Cons.IH)
      show "\<forall>kv' \<in> set attrs. to_bytes (fst kv') \<notin> fst ` set (data @ [(to_bytes k, map to_bytes vs)])"
        using Cons.prems(1,3) by (force simp: kv)
    qed (use Cons.prems in \<open>simp_all add: kv\<close>)
    then show ?case using head by (simp add: kv)
  qed simp
  from this[of "[]"] assms have "read_attrs attrs = ?b attrs"
    by (simp add: printable_attrs_def read_attrs_def)
  then show ?thesis by (auto simp: data_attributes_def)
qed

text \<open>The header, then one block per entry.\<close>

lemma header_read:
  "foldE (lineReceived LDIF_logicalLineReceived) [lit ''version: 1'', []] LDIF_init =
   Inr (LDIF_init\<lparr>lmode := WAIT_FOR_DN, lversion := Some 1\<rparr>)"
proof -
  have plain: "plain_line (lit ''version: 1'')" by code_simp
  have parse: "parseLine (lit ''version: 1'') = Inr (lit ''version'', lit ''1'')" by code_simp
  have int: "int_of_bytes (lit ''1'') = Inr 1" by code_simp
  have "LDIF_logicalLineReceived (lit ''version: 1'') LDIF_init =
      Inr (LDIF_init\<lparr>lmode := WAIT_FOR_DN, lversion := Some 1\<rparr>)"
    using plain by (simp add: machine_defs plain_line_def LDIF_init_def parse int del: lit_Cons)
  then have "foldE LDIF_logicalLineReceived ([lit ''version: 1''] @ [[]]) LDIF_init =
      Inr (LDIF_init\<lparr>lmode := WAIT_FOR_DN, lversion := Some 1\<rparr>)"
    by (simp add: machine_defs LDIF_init_def del: lit_Cons)
  then show ?thesis
    using entries.block[of "[lit ''version: 1'']" LDIF_init] plain by (simp add: LDIF_init_def del: lit_Cons)
qed

lemma entries_read:
  assumes "\<forall>(d, attrs) \<in> set objs. dn_ok d \<and> keys_ok attrs" "between s"
  shows "foldE (lineReceived LDIF_logicalLineReceived)
      (concat (map (\<lambda>(d, attrs). dn_line d # attr_lines attrs @ [[]]) objs)) s =
    Inr (s\<lparr>got := got s @ map (\<lambda>(d, attrs). entry_init d (data_attributes (read_attrs attrs))) objs\<rparr>)"
  using assms
proof (induction objs arbitrary: s)
  case (Cons ob objs)
  obtain d attrs where ob: "ob = (d, attrs)" by (cases ob)
  let ?s = "s\<lparr>got := got s @ [entry_init d (data_attributes (read_attrs attrs))]\<rparr>"
  have b: "between ?s" using Cons.prems(2) by (simp add: between_def)
  have one: "foldE (lineReceived LDIF_logicalLineReceived) (dn_line d # attr_lines attrs @ [[]]) s = Inr ?s"
    using Cons.prems by (intro entry_read) (auto simp: ob)
  have rest: "\<forall>(d, attrs) \<in> set objs. dn_ok d \<and> keys_ok attrs" using Cons.prems(1) by simp
  have c: "concat (map (\<lambda>(d, attrs). dn_line d # attr_lines attrs @ [[]]) (ob # objs)) =
      (dn_line d # attr_lines attrs @ [[]]) @ concat (map (\<lambda>(d, attrs). dn_line d # attr_lines attrs @ [[]]) objs)"
    by (simp add: ob)
  show ?case unfolding c foldE_append one bindE.simps Cons.IH[OF rest b] by (simp add: ob)
qed simp

lemma manyAsLDIF_lines:
  assumes "\<forall>(d, attrs) \<in> set objs. keys_ok attrs"
  shows "manyAsLDIF (map (\<lambda>(d, attrs). (Str (dn_text d), attrs)) objs) =
    concat (map (\<lambda>l. l @ [10])
      ([lit ''version: 1'', []] @ concat (map (\<lambda>(d, attrs). dn_line d # attr_lines attrs @ [[]]) objs)))"
proof -
  have "concat (map (\<lambda>(dn, attributes). asLDIF dn attributes) (map (\<lambda>(d, attrs). (Str (dn_text d), attrs)) objs)) =
      concat (map (\<lambda>l. l @ [10]) (concat (map (\<lambda>(d, attrs). dn_line d # attr_lines attrs @ [[]]) objs)))"
    using assms
  proof (induction objs)
    case (Cons ob objs)
    then show ?case using asLDIF_lines by (cases ob) (simp add: case_prod_unfold comp_def)
  qed simp
  then show ?thesis by (simp add: manyAsLDIF_def ldif_header_def)
qed

lemma many_no_newline:
  assumes "\<forall>(d, attrs) \<in> set objs. keys_ok attrs"
    and "l \<in> set ([lit ''version: 1'', []] @ concat (map (\<lambda>(d, attrs). dn_line d # attr_lines attrs @ [[]]) objs))"
  shows "10 \<notin> set l"
  using assms dn_line(1) attr_lines_plain by (fastforce simp: plain_line_def)

lemma many_read:
  assumes "\<forall>(d, attrs) \<in> set objs. dn_ok d \<and> keys_ok attrs"
  shows "receive_lines (lineReceived LDIF_logicalLineReceived)
      (manyAsLDIF (map (\<lambda>(d, attrs). (Str (dn_text d), attrs)) objs)) LDIF_init =
    Inr (LDIF_init\<lparr>lmode := WAIT_FOR_DN, lversion := Some 1,
           got := map (\<lambda>(d, attrs). entry_init d (data_attributes (read_attrs attrs))) objs\<rparr>, [])"
proof -
  have k: "\<forall>(d, attrs) \<in> set objs. keys_ok attrs" using assms by auto
  have nonl: "\<forall>l \<in> set ([lit ''version: 1'', []]
      @ concat (map (\<lambda>(d, attrs). dn_line d # attr_lines attrs @ [[]]) objs)). 10 \<notin> set l"
    using many_no_newline[OF k] by blast
  have b: "between (LDIF_init\<lparr>lmode := WAIT_FOR_DN, lversion := Some 1\<rparr>)"
    by (simp add: between_def LDIF_init_def)
  show ?thesis
    using receive_lines_lines[OF nonl, of "lineReceived LDIF_logicalLineReceived" "[]" LDIF_init]
      entries_read[OF assms b]
    unfolding manyAsLDIF_lines[OF k] foldE_append header_read
    by (simp add: LDIF_init_def del: lit_Cons)
qed

end
