(* ===== verification/Delta.thy ===== *)
theory Delta
  imports Entry LdapRoundtrip
begin

text \<open>
  \<open>delta.py\<close>: modifications of one entry, how they change it, how they are written as LDIF and
  as LDAP requests and read from the latter, and \<open>BaseLDAPEntry.diff\<close>, which computes them.
  Patching changes the entry in place, so an exception leaves what was done before it: a patch
  is a function from an entry to the exception that escaped, if any, and the entry as it is then.
\<close>

section \<open>Modifications\<close>

datatype modification = Add (mod_set: attrset) | Delete (mod_set: attrset) | Replace (mod_set: attrset)

fun LDAP_OP :: "modification \<Rightarrow> int" where
  "LDAP_OP (Add a) = 0"
| "LDAP_OP (Delete a) = 1"
| "LDAP_OP (Replace a) = 2"

fun mod_keyword :: "modification \<Rightarrow> string" where
  "mod_keyword (Add a) = ''add''"
| "mod_keyword (Delete a) = ''delete''"
| "mod_keyword (Replace a) = ''replace''"

text \<open>\<open>Modification.__eq__\<close>: of the same class, key and values.\<close>

fun mod_eq :: "modification \<Rightarrow> modification \<Rightarrow> bool" where
  "mod_eq (Add a) (Add b) = attrset_eq a b"
| "mod_eq (Delete a) (Delete b) = attrset_eq a b"
| "mod_eq (Replace a) (Replace b) = attrset_eq a b"
| "mod_eq _ _ = False"

section \<open>Patching an entry\<close>

text \<open>Changing the set of values that \<open>entry[key]\<close> gives, in place.\<close>

definition entry_change :: "entry \<Rightarrow> pytext \<Rightarrow> (attrset \<Rightarrow> exn + attrset) \<Rightarrow> exn + entry" where
  "entry_change e key f =
     bindE (find_spelling e key) (\<lambda>k.
       case k of
         None \<Rightarrow> Inl KeyError
       | Some k' \<Rightarrow>
           (case map_of (eattrs e) (normalize_key k') of
              None \<Rightarrow> Inl KeyError
            | Some (spelling, a) \<Rightarrow>
                bindE (f a) (\<lambda>a'.
                  Inr (e\<lparr>eattrs := dict_set (normalize_key k') (spelling, a') (eattrs e)\<rparr>))))"

fun mod_patch :: "modification \<Rightarrow> entry \<Rightarrow> exn option \<times> entry" where
  "mod_patch (Add a) e =
     or_raise e
       (bindE (entry_has_key e (akey a)) (\<lambda>has.
          if has then entry_change e (akey a) (\<lambda>old. Inr (attrset_update old (avals a)))
          else Inr (entry_setitem e (akey a) (avals a))))"
| "mod_patch (Delete a) e =
     (if avals a = [] then or_raise e (entry_delitem e (akey a))
      else for_each (\<lambda>v e. or_raise e (entry_change e (akey a) (\<lambda>old. attrset_remove old v)))
             (avals a) e)"
| "mod_patch (Replace a) e =
     (if avals a \<noteq> [] then (None, entry_setitem e (akey a) (avals a))
      else (case entry_delitem e (akey a) of
              Inr e' \<Rightarrow> (None, e')
            | Inl KeyError \<Rightarrow> (None, e)
            | Inl exc \<Rightarrow> (Some exc, e)))"

section \<open>Written out\<close>

definition mod_asLDIF :: "modification \<Rightarrow> exn + bytes" where
  "mod_asLDIF m =
     bindE (py_sort (avals (mod_set m))) (\<lambda>vs.
       Inr (attributeAsLDIF (Str (mod_keyword m)) (akey (mod_set m))
            @ concat (map (attributeAsLDIF (akey (mod_set m))) vs) @ lit ''-'' @ [10]))"

definition mod_asLDAP :: "modification \<Rightarrow> ber" where
  "mod_asLDAP m =
     OSequence BERSequence 0x10
       [OInteger BEREnumerated 0x0A (LDAP_OP m),
        OSequence BERSequence 0x10
          [OOctetString LDAPAttributeDescription 0x04 (akey (mod_set m)),
           OSequence BERSet 0x11
             (map (\<lambda>v. OOctetString LDAPString 0x04 (Byt (to_bytes v))) (avals (mod_set m)))]]"

section \<open>Operations\<close>

record modify_op =
  mop_dn :: dn
  modifications :: "modification list"

definition mkModifyOp :: "pytext \<Rightarrow> modification list \<Rightarrow> exn + modify_op" where
  "mkModifyOp d ms = bindE (dn_of d) (\<lambda>d'. Inr \<lparr>mop_dn = d', modifications = ms\<rparr>)"

definition modify_asLDIF :: "modify_op \<Rightarrow> exn + bytes" where
  "modify_asLDIF op =
     bindE (mapE mod_asLDIF (modifications op)) (\<lambda>ms.
       Inr (attributeAsLDIF (Str ''dn'') (Str (dn_text (mop_dn op)))
            @ attributeAsLDIF (Str ''changetype'') (Str ''modify'') @ concat ms @ [10]))"

definition modify_asLDAP :: "modify_op \<Rightarrow> ber" where
  "modify_asLDAP op =
     OModifyRequest 0x46 (Some (Str (dn_text (mop_dn op)))) (Some (map mod_asLDAP (modifications op)))"

definition getClassFromOp :: "int \<Rightarrow> (attrset \<Rightarrow> modification) option" where
  "getClassFromOp i = (if i = 0 then Some Add else if i = 1 then Some Delete
     else if i = 2 then Some Replace else None)"

definition mod_fromLDAP :: "ber \<Rightarrow> exn + modification" where
  "mod_fromLDAP m =
     bindE (as_sequence m) (\<lambda>xs. bindE (unpack2 xs) (\<lambda>(op_ber, mods).
     bindE (as_integer op_ber) (\<lambda>i.
     (case getClassFromOp i of
        None \<Rightarrow> Inl RuntimeError
      | Some klass \<Rightarrow>
          bindE (as_sequence mods) (\<lambda>ys. bindE (unpack2 ys) (\<lambda>(key_ber, vals).
          bindE (as_octets key_ber) (\<lambda>key.
          bindE (as_sequence vals) (\<lambda>zs.
          bindE (mapE as_octets zs) (\<lambda>vs. Inr (klass (mkAttributeSet key vs)))))))))))"

definition modify_fromLDAP :: "ber \<Rightarrow> exn + modify_op" where
  "modify_fromLDAP request =
     (case request of
        OModifyRequest t (Some d) (Some ms) \<Rightarrow>
          bindE (mapE mod_fromLDAP ms) (\<lambda>result. mkModifyOp d result)
      | OModifyRequest t d ms \<Rightarrow> Inl AssertionError
      | _ \<Rightarrow> Inl RuntimeError)"

definition modify_eq :: "modify_op \<Rightarrow> modify_op \<Rightarrow> bool" where
  "modify_eq a b \<longleftrightarrow>
     dn_eq (mop_dn a) (mop_dn b) \<and> list_all2 mod_eq (modifications a) (modifications b)"

text \<open>The loop of \<open>ModifyOp.patch\<close> on the entry that was looked up.\<close>

definition modify_patch :: "modify_op \<Rightarrow> entry \<Rightarrow> exn option \<times> entry" where
  "modify_patch op e = for_each mod_patch (modifications op) e"

text \<open>\<open>bytes.splitlines\<close>, with the line read so far.\<close>

fun splitlines :: "bytes \<Rightarrow> bytes \<Rightarrow> bytes list" where
  "splitlines cur [] = (if cur = [] then [] else [cur])"
| "splitlines cur (c # s) =
     (if c = 10 then cur # splitlines [] s
      else if c = 13 then
        cur # (case s of [] \<Rightarrow> [] | d # t \<Rightarrow> if d = 10 then splitlines [] t else splitlines [] s)
      else splitlines (cur @ [c]) s)"

text \<open>\<open>s.rstrip(b"\<close>newline\<open>")\<close>.\<close>

definition rstrip_newlines :: "bytes \<Rightarrow> bytes" where
  "rstrip_newlines s = rev (dropWhile (\<lambda>c. c = 10) (rev s))"

definition add_asLDIF :: "entry \<Rightarrow> exn + bytes" where
  "add_asLDIF e =
     bindE (entry_toWire e) (\<lambda>w.
       let l = splitlines [] w in
       bindE (assertE AssertionError (take 3 (l ! 0) = lit ''dn:'')) (\<lambda>_.
         Inr (concat (map (\<lambda>x. x @ [10])
           (take 1 l @ [rstrip_newlines (attributeAsLDIF (Str ''changetype'') (Str ''add''))] @ drop 1 l)))))"

definition delete_asLDIF :: "dn \<Rightarrow> bytes" where
  "delete_asLDIF d =
     attributeAsLDIF (Str ''dn'') (Str (dn_text d))
     @ attributeAsLDIF (Str ''changetype'') (Str ''delete'') @ [10]"

section \<open>The difference of two entries\<close>

text \<open>A difference of sets of keys or values, as a sorted list.\<close>

definition sorted_minus :: "pytext list \<Rightarrow> pytext list \<Rightarrow> pytext list" where
  "sorted_minus xs ys = sort_key to_bytes (filter (\<lambda>x. x \<notin> set ys) xs)"

definition diff_shared :: "entry \<Rightarrow> entry \<Rightarrow> pytext \<Rightarrow> exn + modification list" where
  "diff_shared self other shared =
     bindE (entry_getitem other shared) (\<lambda>b. bindE (entry_getitem self shared) (\<lambda>a.
       let addedValues = sorted_minus (avals b) (avals a);
           deletedValues = sorted_minus (avals a) (avals b)
       in Inr ((if addedValues \<noteq> [] then [Add (mkAttributeSet shared addedValues)] else [])
             @ (if deletedValues \<noteq> [] then [Delete (mkAttributeSet shared deletedValues)] else []))))"

definition entry_diff :: "entry \<Rightarrow> entry \<Rightarrow> exn + modify_op option" where
  "entry_diff self other =
     bindE (assertE AssertionError (dn_eq (edn self) (edn other))) (\<lambda>_.
     bindE (entry_eq self other) (\<lambda>same.
     if same then Inr None
     else
       let myKeys = entry_iter self; otherKeys = entry_iter other in
       bindE (mapE (\<lambda>added. bindE (entry_getitem other added) (\<lambda>b.
                Inr (Add (mkAttributeSet added (avals b))))) (sorted_minus otherKeys myKeys)) (\<lambda>adds.
       bindE (mapE (\<lambda>deleted. bindE (entry_getitem self deleted) (\<lambda>a.
                Inr (Delete (mkAttributeSet deleted (avals a))))) (sorted_minus myKeys otherKeys)) (\<lambda>dels.
       bindE (mapE (diff_shared self other)
                (sort_key to_bytes (filter (\<lambda>k. k \<in> set otherKeys) myKeys))) (\<lambda>shared.
         Inr (Some \<lparr>mop_dn = edn self, modifications = adds @ dels @ concat shared\<rparr>))))))"

section \<open>Lemmas: entries of one kind of text\<close>

definition text_ok :: "pytext \<Rightarrow> bool" where
  "text_ok v \<longleftrightarrow> (case get_strings v of Inr ks \<Rightarrow> True | Inl e \<Rightarrow> False)"

text \<open>The values of an attribute, by the folded key; none where there is no attribute.\<close>

definition attr_values :: "entry \<Rightarrow> pytext \<Rightarrow> pytext set" where
  "attr_values e f =
     (case map_of (eattrs e) f of None \<Rightarrow> {} | Some item \<Rightarrow> set (avals (snd item)))"

text \<open>Everything in the entry is text, or everything is bytes that decode.\<close>

definition good_text :: "bool \<Rightarrow> pytext \<Rightarrow> bool" where
  "good_text b v \<longleftrightarrow> is_str v = b \<and> text_ok v"

definition good_set :: "bool \<Rightarrow> attrset \<Rightarrow> bool" where
  "good_set b a \<longleftrightarrow> attrset_ok a \<and> (\<forall>v \<in> set (avals a). good_text b v)"

definition uniform :: "bool \<Rightarrow> entry \<Rightarrow> bool" where
  "uniform b e \<longleftrightarrow>
     folded normalize_key (eattrs e) \<and>
     (\<forall>(f, k, a) \<in> set (eattrs e). good_text b k \<and> good_set b a)"

lemma is_str_normalize [simp]: "is_str (normalize_key k) = is_str k"
  by (cases k) (simp_all add: normalize_key_def)

lemma get_strings_good:
  assumes "good_text b v"
  obtains w where "get_strings v = Inr [v, w]" "is_str w \<noteq> b"
  using assms by (cases v) (auto simp: good_text_def text_ok_def bindE_eq_Inl split: sum.splits)

lemma uniform_map_of:
  assumes "uniform b e" and "map_of (eattrs e) f = Some (k, a)"
  shows "f = normalize_key k" "good_text b k" "good_set b a"
  using assms(1) map_of_SomeD[OF assms(2)] by (auto simp: uniform_def folded_def)

lemma uniform_other_kind: "uniform b e \<Longrightarrow> is_str k \<noteq> b \<Longrightarrow> map_of (eattrs e) (normalize_key k) = None"
proof (rule ccontr)
  assume u: "uniform b e" "is_str k \<noteq> b" "map_of (eattrs e) (normalize_key k) \<noteq> None"
  then obtain k' a where "map_of (eattrs e) (normalize_key k) = Some (k', a)" by auto
  from uniform_map_of[OF u(1) this] u(2) show False by (metis good_text_def is_str_normalize)
qed

lemma find_spelling_uniform:
  assumes "uniform b e" "good_text b k"
  shows "find_spelling e k = Inr (if id_contains (eattrs e) k then Some k else None)"
proof -
  obtain w where "get_strings k = Inr [k, w]" "is_str w \<noteq> b" by (rule get_strings_good[OF assms(2)])
  then show ?thesis
    using uniform_other_kind[OF assms(1), of w] by (simp add: find_spelling_def id_contains_def)
qed

lemma uniform_set:
  assumes "uniform b e" "good_text b k" "good_set b a" "f = normalize_key k"
  shows "uniform b (e\<lparr>eattrs := dict_set f (k, a) (eattrs e)\<rparr>)"
proof -
  have "set (dict_set f (k, a) d) \<subseteq> insert (f, k, a) (set d)" for d by (induction d) auto
  then show ?thesis using assms folded_set[of normalize_key "eattrs e" k f a]
    by (fastforce simp: uniform_def)
qed

lemma attr_values_set [simp]:
  "attr_values (e\<lparr>eattrs := dict_set f (k, a) (eattrs e)\<rparr>) = (attr_values e)(f := set (avals a))"
  by (auto simp: attr_values_def fun_eq_iff)

section \<open>Lemmas: what a modification does\<close>

fun mod_effect :: "modification \<Rightarrow> pytext set \<Rightarrow> pytext set" where
  "mod_effect (Add a) S = S \<union> set (avals a)"
| "mod_effect (Delete a) S = (if avals a = [] then {} else S - set (avals a))"
| "mod_effect (Replace a) S = set (avals a)"

definition mod_key :: "modification \<Rightarrow> pytext" where
  "mod_key m = normalize_key (akey (mod_set m))"

definition good_mod :: "bool \<Rightarrow> modification \<Rightarrow> bool" where
  "good_mod b m \<longleftrightarrow> good_text b (akey (mod_set m)) \<and> good_set b (mod_set m)"

text \<open>Deleting takes values that are there.\<close>

fun applies :: "modification \<Rightarrow> pytext set \<Rightarrow> bool" where
  "applies (Delete a) S \<longleftrightarrow> avals a \<noteq> [] \<and> set (avals a) \<subseteq> S"
| "applies m S \<longleftrightarrow> True"

lemma entry_change_good:
  assumes "uniform b e" "good_text b k" "map_of (eattrs e) (normalize_key k) = Some (sp, a)"
    and "f a = Inr a'" "good_set b a'"
  obtains e' where "entry_change e k f = Inr e'" "uniform b e'" "edn e' = edn e"
    "attr_values e' = (attr_values e)(normalize_key k := set (avals a'))"
proof
  let ?e = "e\<lparr>eattrs := dict_set (normalize_key k) (sp, a') (eattrs e)\<rparr>"
  show "entry_change e k f = Inr ?e"
    using assms find_spelling_uniform[OF assms(1,2)] by (simp add: entry_change_def id_contains_def)
  show "uniform b ?e"
    using uniform_map_of[OF assms(1,3)] assms(1,5) by (auto intro!: uniform_set)
qed simp_all

lemma attrset_remove_good:
  assumes "good_set b a" "good_text b v" "v \<in> set (avals a)"
  obtains a' where "attrset_remove a v = Inr a'" "good_set b a'" "set (avals a') = set (avals a) - {v}"
proof -
  obtain w where w: "get_strings v = Inr [v, w]" "is_str w \<noteq> b" by (rule get_strings_good[OF assms(2)])
  have "w \<notin> set (avals a)" using assms(1) w(2) by (auto simp: good_set_def good_text_def)
  then have "remove_first [v, w] (avals a) = Inr (filter (\<lambda>x. x \<noteq> v) (avals a))"
    using assms by (intro remove_first_only) (auto simp: good_set_def attrset_ok_def)
  then have "attrset_remove a v = Inr (a\<lparr>avals := filter (\<lambda>x. x \<noteq> v) (avals a)\<rparr>)"
    by (simp add: attrset_remove_def w(1))
  then show ?thesis by (rule that) (use assms in \<open>auto simp: good_set_def attrset_ok_def\<close>)
qed

lemma delete_values:
  assumes "uniform b e" "good_text b k" "distinct vs" "set vs \<subseteq> attr_values e (normalize_key k)"
    "\<forall>v \<in> set vs. good_text b v"
  shows "\<exists>e'. for_each (\<lambda>v e. or_raise e (entry_change e k (\<lambda>old. attrset_remove old v))) vs e = (None, e') \<and>
    uniform b e' \<and> edn e' = edn e \<and>
    attr_values e' = (attr_values e)(normalize_key k := attr_values e (normalize_key k) - set vs)"
  using assms
proof (induction vs arbitrary: e)
  case (Cons v vs)
  then have v: "v \<in> attr_values e (normalize_key k)" by simp
  then obtain sp a where a: "map_of (eattrs e) (normalize_key k) = Some (sp, a)" "v \<in> set (avals a)"
    by (auto simp: attr_values_def split: option.splits)
  then have "good_set b a" using uniform_map_of[OF Cons.prems(1) a(1)] by simp
  with a(2) Cons.prems(5) obtain a' where a': "attrset_remove a v = Inr a'" "good_set b a'"
    "set (avals a') = set (avals a) - {v}" by (auto elim: attrset_remove_good)
  then obtain e1 where e1: "entry_change e k (\<lambda>old. attrset_remove old v) = Inr e1" "uniform b e1"
    "edn e1 = edn e" "attr_values e1 = (attr_values e)(normalize_key k := set (avals a'))"
    using entry_change_good[OF Cons.prems(1,2) a(1), of "\<lambda>old. attrset_remove old v"] by metis
  have va: "attr_values e (normalize_key k) = set (avals a)" using a(1) by (simp add: attr_values_def)
  then have sub: "set vs \<subseteq> attr_values e1 (normalize_key k)" using Cons.prems(3,4) e1(4) a'(3) by auto
  have rest: "distinct vs" "\<forall>v \<in> set vs. good_text b v" using Cons.prems(3,5) by simp_all
  from Cons.IH[OF e1(2) Cons.prems(2) rest(1) sub rest(2)] obtain e2 where
    "for_each (\<lambda>v e. or_raise e (entry_change e k (\<lambda>old. attrset_remove old v))) vs e1 = (None, e2)"
    "uniform b e2" "edn e2 = edn e1"
    "attr_values e2 = (attr_values e1)(normalize_key k := attr_values e1 (normalize_key k) - set vs)" by blast
  then show ?case using e1 a'(3) va by (auto simp: fun_eq_iff)
qed simp

lemma mod_patch_effect:
  assumes "uniform b e" "good_mod b m" "applies m (attr_values e (mod_key m))"
  shows "\<exists>e'. mod_patch m e = (None, e') \<and> uniform b e' \<and> edn e' = edn e \<and>
    attr_values e' = (attr_values e)(mod_key m := mod_effect m (attr_values e (mod_key m)))"
proof (cases m)
  case (Add a)
  have k: "good_text b (akey a)" "good_set b a" using assms(2) Add by (simp_all add: good_mod_def)
  show ?thesis
  proof (cases "map_of (eattrs e) (normalize_key (akey a))")
    case None
    then have "mod_patch m e = (None, entry_setitem e (akey a) (avals a))"
      using Add find_spelling_uniform[OF assms(1) k(1)] by (simp add: entry_has_key_def id_contains_def)
    moreover have "good_set b (mkAttributeSet (akey a) (avals a))" using k(2) by (simp add: good_set_def)
    ultimately show ?thesis using assms(1) k None Add
      by (auto simp: entry_setitem_def id_setitem_def mod_key_def attr_values_def[of e]
          intro!: uniform_set)
  next
    case (Some item)
    obtain sp old where item: "item = (sp, old)" by (cases item)
    have "good_set b old" using uniform_map_of[OF assms(1)] Some item by simp
    then have "good_set b (attrset_update old (avals a))" using k(2) by (auto simp: good_set_def)
    then obtain e' where "entry_change e (akey a) (\<lambda>old. Inr (attrset_update old (avals a))) = Inr e'"
      "uniform b e'" "edn e' = edn e"
      "attr_values e' = (attr_values e)(normalize_key (akey a) := set (avals (attrset_update old (avals a))))"
      using entry_change_good[OF assms(1) k(1), of sp old "\<lambda>old. Inr (attrset_update old (avals a))"]
        Some item by metis
    then show ?thesis
      using Add Some item find_spelling_uniform[OF assms(1) k(1)]
      by (simp add: entry_has_key_def id_contains_def mod_key_def attr_values_def[of e])
  qed
next
  case (Delete a)
  then show ?thesis
    using assms delete_values[OF assms(1), of "akey a" "avals a"]
    by (auto simp: good_mod_def good_set_def attrset_ok_def mod_key_def)
next
  case (Replace a)
  have k: "good_text b (akey a)" "good_set b a" using assms(2) Replace by (simp_all add: good_mod_def)
  show ?thesis
  proof (cases "avals a = []")
    case False
    moreover have "good_set b (mkAttributeSet (akey a) (avals a))" using k(2) by (simp add: good_set_def)
    ultimately show ?thesis using assms(1) k Replace
      by (auto simp: entry_setitem_def id_setitem_def mod_key_def intro!: uniform_set)
  next
    case True
    let ?d = "filter (\<lambda>kv. fst kv \<noteq> normalize_key (akey a)) (eattrs e)"
    have "uniform b (e\<lparr>eattrs := ?d\<rparr>)" using assms(1) by (auto simp: uniform_def)
    moreover have "attr_values (e\<lparr>eattrs := ?d\<rparr>) = (attr_values e)(normalize_key (akey a) := {})"
      by (auto simp: attr_values_def fun_eq_iff map_of_filter_neq)
    moreover have "attr_values e (normalize_key (akey a)) = {} \<Longrightarrow>
      attr_values e = (attr_values e)(normalize_key (akey a) := {})" by (auto simp: fun_eq_iff)
    ultimately show ?thesis using True Replace assms(1)
      by (cases "map_of (eattrs e) (normalize_key (akey a))")
        (auto simp: entry_delitem_def id_delitem_def dict_del_def mod_key_def attr_values_def)
  qed
qed


section \<open>Lemmas: what a list of modifications does\<close>

definition mod_step :: "(pytext \<Rightarrow> pytext set) \<Rightarrow> modification \<Rightarrow> (pytext \<Rightarrow> pytext set)" where
  "mod_step V m = V(mod_key m := mod_effect m (V (mod_key m)))"

fun all_apply :: "modification list \<Rightarrow> pytext set \<Rightarrow> bool" where
  "all_apply [] S = True"
| "all_apply (m # ms) S \<longleftrightarrow> applies m S \<and> all_apply ms (mod_effect m S)"

text \<open>Only the modifications of an attribute matter to it.\<close>

abbreviation mods_of :: "pytext \<Rightarrow> modification list \<Rightarrow> modification list" where
  "mods_of f ms \<equiv> filter (\<lambda>m. mod_key m = f) ms"

lemma patch_all:
  assumes "uniform b e" "\<forall>m \<in> set ms. good_mod b m" "\<And>f. all_apply (mods_of f ms) (attr_values e f)"
  shows "\<exists>e'. for_each mod_patch ms e = (None, e') \<and> uniform b e' \<and> edn e' = edn e \<and>
    (\<forall>f. attr_values e' f = foldl (\<lambda>S m. mod_effect m S) (attr_values e f) (mods_of f ms))"
  using assms
proof (induction ms arbitrary: e)
  case (Cons m ms)
  have "applies m (attr_values e (mod_key m))" using Cons.prems(3)[of "mod_key m"] by simp
  with Cons.prems(1,2) obtain e1 where e1: "mod_patch m e = (None, e1)" "uniform b e1" "edn e1 = edn e"
    "attr_values e1 = (attr_values e)(mod_key m := mod_effect m (attr_values e (mod_key m)))"
    using mod_patch_effect[of b e m] by auto
  have "all_apply (mods_of f ms) (attr_values e1 f)" for f
    using Cons.prems(3)[of f] e1(4) by (auto split: if_splits)
  with Cons.IH[OF e1(2)] Cons.prems(2) obtain e2 where
    "for_each mod_patch ms e1 = (None, e2)" "uniform b e2" "edn e2 = edn e1"
    "\<forall>f. attr_values e2 f = foldl (\<lambda>S m. mod_effect m S) (attr_values e1 f) (mods_of f ms)" by auto
  then show ?case using e1 by auto
qed simp

section \<open>Lemmas: the difference of two entries\<close>

definition values_list :: "entry \<Rightarrow> pytext \<Rightarrow> pytext list" where
  "values_list e k = (case map_of (eattrs e) (normalize_key k) of None \<Rightarrow> [] | Some it \<Rightarrow> avals (snd it))"

lemma set_values_list: "set (values_list e k) = attr_values e (normalize_key k)"
  by (simp add: values_list_def attr_values_def split: option.split)

lemma entry_keys_item:
  assumes "uniform b e" "k \<in> set (entry_iter e)"
  obtains a where "map_of (eattrs e) (normalize_key k) = Some (k, a)" "entry_getitem e k = Inr a"
    "avals a = values_list e k" "good_text b k" "good_set b a"
proof -
  obtain f a where "(f, k, a) \<in> set (eattrs e)" using assms(2) by (auto simp: entry_iter_def id_keys_def)
  moreover from this have "f = normalize_key k" "good_text b k" using assms(1) by (auto simp: uniform_def folded_def)
  ultimately have a: "map_of (eattrs e) (normalize_key k) = Some (k, a)"
    using assms(1) by (auto simp: uniform_def folded_def dict_ok_def)
  then have "entry_getitem e k = Inr a"
    using find_spelling_uniform[OF assms(1) \<open>good_text b k\<close>]
    by (simp add: entry_getitem_def id_contains_def id_getitem_def dict_get_def)
  with a show ?thesis
    using that uniform_map_of[OF assms(1) a] by (simp add: values_list_def)
qed

lemma keys_distinct: "uniform b e \<Longrightarrow> distinct (map normalize_key (entry_iter e))"
  by (simp add: uniform_def entry_iter_def insensitive.keys_distinct)

lemma keys_image: "folded normalize_key d \<Longrightarrow> set (map fst d) = normalize_key ` set (id_keys d)"
  unfolding id_keys_def by (metis folded_keys set_map)

lemma values_outside:
  assumes "uniform b e" "f \<notin> normalize_key ` set (entry_iter e)"
  shows "attr_values e f = {}"
proof -
  have "f \<notin> set (map fst (eattrs e))"
    using assms keys_image[of "eattrs e"] unfolding uniform_def entry_iter_def by blast
  then have "map_of (eattrs e) f = None" using has_map_of_keys by metis
  then show ?thesis by (simp add: attr_values_def)
qed

text \<open>The modifications of one attribute in a list with one group per key.\<close>

lemma mods_of_concat_none:
  "(\<And>k m. k \<in> set ks \<Longrightarrow> m \<in> set (g k) \<Longrightarrow> mod_key m = normalize_key k) \<Longrightarrow>
   f \<notin> normalize_key ` set ks \<Longrightarrow> mods_of f (concat (map g ks)) = []"
  by (auto simp: filter_empty_conv)

lemma mods_of_concat:
  "distinct (map normalize_key ks) \<Longrightarrow> (\<And>k m. k \<in> set ks \<Longrightarrow> m \<in> set (g k) \<Longrightarrow> mod_key m = normalize_key k) \<Longrightarrow>
   k \<in> set ks \<Longrightarrow> mods_of (normalize_key k) (concat (map g ks)) = g k"
proof (induction ks)
  case (Cons x ks)
  have x: "mods_of f (g x) = (if f = normalize_key x then g x else [])" for f
    using Cons.prems(2)[of x] by (auto intro: filter_True)
  have none: "mods_of (normalize_key x) (concat (map g ks)) = []"
    by (rule mods_of_concat_none) (use Cons.prems in auto)
  show ?case
  proof (cases "k = x")
    case False
    then have "normalize_key k \<noteq> normalize_key x" using Cons.prems(1,3) by (auto simp: image_iff)
    then show ?thesis using Cons False x by auto
  qed (simp add: x none)
qed simp

lemma set_sorted_minus [simp]: "set (sorted_minus xs ys) = set xs - set ys"
  by (auto simp: sorted_minus_def)

lemma distinct_map_sort_filter: "distinct (map f xs) \<Longrightarrow> distinct (map f (sort_key g (filter P xs)))"
proof -
  assume "distinct (map f xs)"
  then have "distinct (map f (filter P xs))" by (simp add: distinct_map_filter)
  then show ?thesis
    by (auto simp: distinct_map)
qed

text \<open>The modifications of a shared attribute.\<close>

definition shared_mods :: "entry \<Rightarrow> entry \<Rightarrow> pytext \<Rightarrow> modification list" where
  "shared_mods self other k =
     (let addedValues = sorted_minus (values_list other k) (values_list self k);
          deletedValues = sorted_minus (values_list self k) (values_list other k)
      in (if addedValues \<noteq> [] then [Add (mkAttributeSet k addedValues)] else [])
       @ (if deletedValues \<noteq> [] then [Delete (mkAttributeSet k deletedValues)] else []))"

lemma avals_mk_Nil [simp]: "avals (mkAttributeSet k vs) = [] \<longleftrightarrow> vs = []"
  by (simp add: mkAttributeSet_def)

lemma shared_mods_effect:
  "all_apply (shared_mods self other k) (attr_values self (normalize_key k)) \<and>
   foldl (\<lambda>S m. mod_effect m S) (attr_values self (normalize_key k)) (shared_mods self other k) =
     attr_values other (normalize_key k)"
proof -
  have e: "sorted_minus xs ys = [] \<longleftrightarrow> set xs \<subseteq> set ys" for xs ys
    using set_sorted_minus[of xs ys] by (metis Diff_eq_empty_iff set_empty)
  show ?thesis
    by (auto simp: shared_mods_def Let_def e set_values_list)
qed

lemma shared_mods_key: "m \<in> set (shared_mods self other k) \<Longrightarrow> mod_key m = normalize_key k"
  by (auto simp: shared_mods_def Let_def mod_key_def split: if_splits)

lemma good_minus: "good_set b a \<Longrightarrow> avals a = xs \<Longrightarrow> good_set b (mkAttributeSet k (sorted_minus xs ys))"
  by (auto simp: good_set_def)

lemma entry_eq_values:
  assumes "uniform b self" "uniform b other"
  shows "\<exists>r. entry_eq self other = Inr r \<and> (r \<longrightarrow> attr_values self = attr_values other)"
proof (cases "dn_eq (edn self) (edn other) \<and>
    sort_key to_bytes (entry_iter self) = sort_key to_bytes (entry_iter other)")
  case False
  then show ?thesis by (auto simp: entry_eq_def Let_def)
next
  case True
  let ?my = "sort_key to_bytes (entry_iter self)"
  have keys: "set (entry_iter self) = set (entry_iter other)" using True by (metis set_sort)
  have "mapE (\<lambda>key. bindE (entry_getitem self key) (\<lambda>a.
       bindE (entry_getitem other key) (\<lambda>b. Inr (attrset_eq a b)))) ?my =
     Inr (map (\<lambda>k. attrset_eq (projr (entry_getitem self k)) (projr (entry_getitem other k))) ?my)"
  proof (rule mapE_pure)
    fix k assume "k \<in> set ?my"
    then have k: "k \<in> set (entry_iter self)" "k \<in> set (entry_iter other)" using keys by auto
    obtain a b' where "entry_getitem self k = Inr a" "entry_getitem other k = Inr b'"
      using entry_keys_item[OF assms(1) k(1)] entry_keys_item[OF assms(2) k(2)] by metis
    then show "bindE (entry_getitem self k) (\<lambda>a. bindE (entry_getitem other k) (\<lambda>b. Inr (attrset_eq a b))) =
       Inr (attrset_eq (projr (entry_getitem self k)) (projr (entry_getitem other k)))" by simp
  qed
  moreover have "attr_values self f = attr_values other f"
    if eq: "list_all id (map (\<lambda>k. attrset_eq (projr (entry_getitem self k)) (projr (entry_getitem other k))) ?my)" for f
  proof (cases "f \<in> normalize_key ` set (entry_iter self)")
    case True
    then obtain k where k: "f = normalize_key k" "k \<in> set (entry_iter self)" "k \<in> set (entry_iter other)"
      using keys by auto
    obtain a b' where a: "entry_getitem self k = Inr a" "avals a = values_list self k"
      "entry_getitem other k = Inr b'" "avals b' = values_list other k"
      using entry_keys_item[OF assms(1) k(2)] entry_keys_item[OF assms(2) k(3)] by metis
    then have "attrset_eq a b'" using eq k(2) by (force simp: list_all_iff)
    then show ?thesis using a k(1) by (metis attrset_eq_def set_values_list)
  qed (use values_outside assms keys in metis)
  ultimately show ?thesis using True by (auto simp: entry_eq_def Let_def fun_eq_iff)
qed

definition same_spelling :: "entry \<Rightarrow> entry \<Rightarrow> bool" where
  "same_spelling a b \<longleftrightarrow>
     (\<forall>k \<in> set (entry_iter a). \<forall>k' \<in> set (entry_iter b). normalize_key k = normalize_key k' \<longrightarrow> k = k')"

text \<open>The list of modifications that \<open>diff\<close> computes.\<close>

definition diff_mods :: "entry \<Rightarrow> entry \<Rightarrow> modification list" where
  "diff_mods self other =
     concat (map (\<lambda>k. [Add (mkAttributeSet k (values_list other k))])
       (sorted_minus (entry_iter other) (entry_iter self)))
     @ concat (map (\<lambda>k. [Delete (mkAttributeSet k (values_list self k))])
       (sorted_minus (entry_iter self) (entry_iter other)))
     @ concat (map (shared_mods self other)
         (sort_key to_bytes (filter (\<lambda>k. k \<in> set (entry_iter other)) (entry_iter self))))"

lemma entry_diff_mods:
  assumes "uniform b self" "uniform b other" "dn_eq (edn self) (edn other)"
  shows "\<exists>r. entry_eq self other = Inr r \<and>
    entry_diff self other =
      Inr (if r then None else Some \<lparr>mop_dn = edn self, modifications = diff_mods self other\<rparr>)"
proof -
  obtain r where r: "entry_eq self other = Inr r" using entry_eq_values[OF assms(1,2)] by blast
  have item: "\<exists>a. entry_getitem e k = Inr a \<and> avals a = values_list e k"
    if "uniform b e" "k \<in> set (entry_iter e)" for e k
    using entry_keys_item[OF that] by metis
  have "mapE (\<lambda>added. bindE (entry_getitem other added) (\<lambda>b. Inr (Add (mkAttributeSet added (avals b)))))
      (sorted_minus (entry_iter other) (entry_iter self)) =
    Inr (map (\<lambda>k. Add (mkAttributeSet k (values_list other k))) (sorted_minus (entry_iter other) (entry_iter self)))"
    using item[OF assms(2)] by (intro mapE_pure) fastforce
  moreover have "mapE (\<lambda>deleted. bindE (entry_getitem self deleted) (\<lambda>a. Inr (Delete (mkAttributeSet deleted (avals a)))))
      (sorted_minus (entry_iter self) (entry_iter other)) =
    Inr (map (\<lambda>k. Delete (mkAttributeSet k (values_list self k))) (sorted_minus (entry_iter self) (entry_iter other)))"
    using item[OF assms(1)] by (intro mapE_pure) fastforce
  moreover have "mapE (diff_shared self other) (sort_key to_bytes (filter (\<lambda>k. k \<in> set (entry_iter other)) (entry_iter self))) =
    Inr (map (shared_mods self other) (sort_key to_bytes (filter (\<lambda>k. k \<in> set (entry_iter other)) (entry_iter self))))"
  proof (rule mapE_pure)
    fix k assume "k \<in> set (sort_key to_bytes (filter (\<lambda>k. k \<in> set (entry_iter other)) (entry_iter self)))"
    then have "k \<in> set (entry_iter self)" "k \<in> set (entry_iter other)" by auto
    then obtain a b' where "entry_getitem self k = Inr a" "avals a = values_list self k"
      "entry_getitem other k = Inr b'" "avals b' = values_list other k" using item assms(1,2) by metis
    then show "diff_shared self other k = Inr (shared_mods self other k)"
      by (simp add: diff_shared_def shared_mods_def Let_def)
  qed
  ultimately have "entry_diff self other =
      Inr (if r then None else Some \<lparr>mop_dn = edn self, modifications = diff_mods self other\<rparr>)"
    using r assms(3) by (simp add: entry_diff_def Let_def diff_mods_def concat_map_singleton)
  with r show ?thesis by blast
qed

lemma diff_mods_good:
  assumes "uniform b self" "uniform b other" "m \<in> set (diff_mods self other)"
  shows "good_mod b m"
proof -
  have g: "good_text b k \<and> (\<forall>v \<in> set (values_list e k). good_text b v)"
    if "uniform b e" "k \<in> set (entry_iter e)" for e k
    using entry_keys_item[OF that] unfolding good_set_def by metis
  show ?thesis
    using assms(3) g[OF assms(1)] g[OF assms(2)]
    by (auto simp: diff_mods_def shared_mods_def Let_def good_mod_def good_set_def split: if_splits)
qed

text \<open>Per attribute, the computed modifications apply, and lead to the other entry's values.\<close>

lemma diff_mods_effect:
  assumes u: "uniform b self" "uniform b other" and same: "same_spelling self other"
    and full: "\<forall>k \<in> set (entry_iter self). values_list self k \<noteq> []"
  shows "all_apply (mods_of f (diff_mods self other)) (attr_values self f) \<and>
    foldl (\<lambda>S m. mod_effect m S) (attr_values self f) (mods_of f (diff_mods self other)) = attr_values other f"
proof -
  let ?mine = "entry_iter self" and ?its = "entry_iter other"
  let ?shared = "sort_key to_bytes (filter (\<lambda>k. k \<in> set ?its) ?mine)"
  let ?add = "\<lambda>k. [Add (mkAttributeSet k (values_list other k))]"
  let ?del = "\<lambda>k. [Delete (mkAttributeSet k (values_list self k))]"
  have dist: "distinct (map normalize_key (sorted_minus ?its ?mine))"
    "distinct (map normalize_key (sorted_minus ?mine ?its))" "distinct (map normalize_key ?shared)"
    using keys_distinct[OF u(1)] keys_distinct[OF u(2)]
    unfolding sorted_minus_def by (simp_all add: distinct_map_sort_filter)
  have addk: "m \<in> set (?add k) \<Longrightarrow> mod_key m = normalize_key k"
    and delk: "m \<in> set (?del k) \<Longrightarrow> mod_key m = normalize_key k" for m k
    by (simp_all add: mod_key_def)
  have only: "normalize_key k = normalize_key k' \<Longrightarrow> k \<in> set ?mine \<Longrightarrow> k' \<in> set ?its \<Longrightarrow> k = k'" for k k'
    using same by (auto simp: same_spelling_def)
  have A0: "f \<notin> normalize_key ` set (sorted_minus ?its ?mine) \<Longrightarrow>
      mods_of f (concat (map ?add (sorted_minus ?its ?mine))) = []"
    and D0: "f \<notin> normalize_key ` set (sorted_minus ?mine ?its) \<Longrightarrow>
      mods_of f (concat (map ?del (sorted_minus ?mine ?its))) = []"
    and S0: "f \<notin> normalize_key ` set ?shared \<Longrightarrow>
      mods_of f (concat (map (shared_mods self other) ?shared)) = []"
    by (rule mods_of_concat_none; auto simp: addk delk dest: shared_mods_key)+
  have A1: "k \<in> set (sorted_minus ?its ?mine) \<Longrightarrow>
      mods_of (normalize_key k) (concat (map ?add (sorted_minus ?its ?mine))) = ?add k" for k
    by (rule mods_of_concat[OF dist(1)]) (auto simp: addk)
  have D1: "k \<in> set (sorted_minus ?mine ?its) \<Longrightarrow>
      mods_of (normalize_key k) (concat (map ?del (sorted_minus ?mine ?its))) = ?del k" for k
    by (rule mods_of_concat[OF dist(2)]) (auto simp: delk)
  have S1: "k \<in> set ?shared \<Longrightarrow>
      mods_of (normalize_key k) (concat (map (shared_mods self other) ?shared)) = shared_mods self other k" for k
    by (rule mods_of_concat[OF dist(3)]) (auto dest: shared_mods_key)
  have split: "mods_of f (diff_mods self other) =
      mods_of f (concat (map ?add (sorted_minus ?its ?mine)))
      @ mods_of f (concat (map ?del (sorted_minus ?mine ?its)))
      @ mods_of f (concat (map (shared_mods self other) ?shared))"
    by (simp add: diff_mods_def)
  consider (both) k where "f = normalize_key k" "k \<in> set ?mine" "k \<in> set ?its"
    | (mine) k where "f = normalize_key k" "k \<in> set ?mine" "f \<notin> normalize_key ` set ?its"
    | (its) k where "f = normalize_key k" "k \<in> set ?its" "f \<notin> normalize_key ` set ?mine"
    | (none) "f \<notin> normalize_key ` set ?mine" "f \<notin> normalize_key ` set ?its"
    using only by (smt (verit, best) imageE)
  then show ?thesis
  proof cases
    case both
    have "f \<notin> normalize_key ` set (sorted_minus ?its ?mine)" "f \<notin> normalize_key ` set (sorted_minus ?mine ?its)"
      using both only by (auto, metis+)
    moreover have "mods_of f (concat (map (shared_mods self other) ?shared)) = shared_mods self other k"
      unfolding both(1) by (rule S1) (use both in simp_all)
    ultimately have "mods_of f (diff_mods self other) = shared_mods self other k"
      unfolding split by (simp only: A0 D0 append_Nil not_False_eq_True)
    then show ?thesis using shared_mods_effect both(1) by simp
  next
    case mine
    have "f \<notin> normalize_key ` set (sorted_minus ?its ?mine)" "f \<notin> normalize_key ` set ?shared"
      "k \<in> set (sorted_minus ?mine ?its)" using mine by auto
    moreover from this(3) have "mods_of f (concat (map ?del (sorted_minus ?mine ?its))) = ?del k"
      unfolding mine(1) by (intro D1)
    ultimately have "mods_of f (diff_mods self other) = ?del k"
      unfolding split by (simp only: A0 S0 append_Nil append_Nil2 not_False_eq_True)
    then show ?thesis
      using mine full values_outside[OF u(2) mine(3)] by (simp add: set_values_list)
  next
    case its
    have "f \<notin> normalize_key ` set (sorted_minus ?mine ?its)" "f \<notin> normalize_key ` set ?shared"
      "k \<in> set (sorted_minus ?its ?mine)" using its by auto
    moreover from this(3) have "mods_of f (concat (map ?add (sorted_minus ?its ?mine))) = ?add k"
      unfolding its(1) by (intro A1)
    ultimately have "mods_of f (diff_mods self other) = ?add k"
      unfolding split by (simp only: D0 S0 append_Nil append_Nil2 not_False_eq_True)
    then show ?thesis
      using its values_outside[OF u(1) its(3)] by (simp add: set_values_list)
  next
    case none
    have "f \<notin> normalize_key ` set (sorted_minus ?its ?mine)" "f \<notin> normalize_key ` set (sorted_minus ?mine ?its)"
      "f \<notin> normalize_key ` set ?shared" using none by auto
    then have "mods_of f (diff_mods self other) = []"
      unfolding split by (simp only: A0 D0 S0 append_Nil not_False_eq_True)
    then show ?thesis using values_outside[OF u(1) none(1)] values_outside[OF u(2) none(2)] by simp
  qed
qed

lemma patch_diff:
  assumes "uniform b self" "uniform b other" "same_spelling self other"
    and "\<forall>k \<in> set (entry_iter self). values_list self k \<noteq> []"
  shows "\<exists>e'. for_each mod_patch (diff_mods self other) self = (None, e') \<and> uniform b e' \<and>
    edn e' = edn self \<and> attr_values e' = attr_values other"
  using patch_all[OF assms(1), of "diff_mods self other"] diff_mods_good[OF assms(1,2)]
    diff_mods_effect[OF assms]
  by (auto simp: fun_eq_iff)

section \<open>Lemmas: modifications over the wire\<close>

fun canon_mod :: "modification \<Rightarrow> modification" where
  "canon_mod (Add a) = Add (mkAttributeSet (canon (akey a)) (map canon (avals a)))"
| "canon_mod (Delete a) = Delete (mkAttributeSet (canon (akey a)) (map canon (avals a)))"
| "canon_mod (Replace a) = Replace (mkAttributeSet (canon (akey a)) (map canon (avals a)))"

lemma wf_op_modify: "wf_op (modify_asLDAP op)"
  by (auto simp: modify_asLDAP_def mod_asLDAP_def list_all_iff class_simps)

lemma mod_fromLDAP_canon: "mod_fromLDAP (canon_tree (mod_asLDAP m)) = Inr (canon_mod m)"
  by (cases m) (simp_all add: mod_fromLDAP_def mod_asLDAP_def as_sequence_def unpack2_def
      getClassFromOp_def comp_def mapE_map)

lemma modify_fromLDAP_canon:
  "dn_ok (mop_dn op) \<Longrightarrow>
   modify_fromLDAP (canon_op (modify_asLDAP op)) =
     Inr \<lparr>mop_dn = mop_dn op, modifications = map canon_mod (modifications op)\<rparr>"
  by (simp add: modify_fromLDAP_def modify_asLDAP_def mapE_map mapE_pure mod_fromLDAP_canon
      mkModifyOp_def dn_of_def dn_of_text_show)

end
