(* ===== verification/LdifDelta.thy ===== *)
theory LdifDelta
  imports LdifProtocol Delta
begin

text \<open>
  \<open>protocols/ldap/ldifdelta.py\<close>: the parser of changes, which takes the states of the parser of
  entries over and adds its own. Its class attributes that are deleted or not yet set are \<open>None\<close>,
  and using one of them is an \<open>AttributeError\<close>. What \<open>gotEntry\<close> is called with is collected, as
  \<open>_CollectingLDIFDelta\<close> does.
\<close>

section \<open>The state\<close>

datatype delta_op = ModifyOp modify_op | AddOp entry | DeleteOp dn | PlainEntry entry

record ldif_delta = ldif +
  dmods :: "modification list option"
  mod_spec :: "bytes option"
  mod_spec_attr :: "bytes option"
  mod_spec_data :: "bytes list option"
  collected :: "delta_op list"

definition LDIFDelta_init :: ldif_delta where
  "LDIFDelta_init =
     \<lparr>lmode = HEADER, ldn = None, ldata = None, lastLine = None, lversion = None,
      dmods = None, mod_spec = None, mod_spec_attr = None, mod_spec_data = None, collected = []\<rparr>"

section \<open>The states of the machine\<close>

definition delta_WAIT_FOR_DN :: "bytes \<Rightarrow> ldif_delta \<Rightarrow> exn + ldif_delta" where
  "delta_WAIT_FOR_DN line s =
     bindE (state_WAIT_FOR_DN line s) (\<lambda>s'.
       Inr (if lmode s' = IN_ENTRY then s'\<lparr>lmode := WAIT_FOR_CHANGETYPE\<rparr> else s'))"

definition state_WAIT_FOR_CHANGETYPE :: "bytes \<Rightarrow> ldif_delta \<Rightarrow> exn + ldif_delta" where
  "state_WAIT_FOR_CHANGETYPE line s =
     bindE (assertE AssertionError (ldn s \<noteq> None)) (\<lambda>_.
     bindE (assertE AssertionError (ldata s \<noteq> None)) (\<lambda>_.
     if line = [] then Inl (LDIFParseError ''LDIFDeltaMissingChangeTypeError'')
     else
       bindE (parseLine line) (\<lambda>(key, val).
         if key \<noteq> lit ''changetype'' then Inl (LDIFParseError ''LDIFDeltaMissingChangeTypeError'')
         else if val = lit ''modify'' then Inr (s\<lparr>dmods := Some [], lmode := WAIT_FOR_MOD_SPEC\<rparr>)
         else if val = lit ''add'' then Inr (s\<lparr>lmode := IN_ADD_ENTRY\<rparr>)
         else if val = lit ''delete'' then Inr (s\<lparr>lmode := IN_DELETE\<rparr>)
         else if val = lit ''modrdn'' \<or> val = lit ''moddn'' then Inl NotImplementedError
         else Inl (LDIFParseError ''LDIFDeltaUnknownChangeTypeError''))))"

definition MOD_SPEC_TO_DELTA :: "bytes \<Rightarrow> (attrset \<Rightarrow> modification) option" where
  "MOD_SPEC_TO_DELTA key =
     (if key = lit ''add'' then Some Add
      else if key = lit ''delete'' then Some Delete
      else if key = lit ''replace'' then Some Replace
      else None)"

definition state_WAIT_FOR_MOD_SPEC :: "bytes \<Rightarrow> ldif_delta \<Rightarrow> exn + ldif_delta" where
  "state_WAIT_FOR_MOD_SPEC line s =
     (if line = [] then
        (case (ldn s, dmods s) of
           (Some d, Some ms) \<Rightarrow>
             bindE (mkModifyOp (Byt d) ms) (\<lambda>m.
               Inr (s\<lparr>lmode := WAIT_FOR_DN, ldn := None, ldata := None, dmods := None,
                      collected := collected s @ [ModifyOp m]\<rparr>))
         | _ \<Rightarrow> Inl AssertionError)
      else
        bindE (parseLine line) (\<lambda>(key, val).
          if MOD_SPEC_TO_DELTA key = None then Inl (LDIFParseError ''LDIFDeltaUnknownModificationError'')
          else Inr (s\<lparr>mod_spec := Some key, mod_spec_attr := Some val, mod_spec_data := Some [],
                      lmode := IN_MOD_SPEC\<rparr>)))"

text \<open>An attribute of the object that may not be there.\<close>

definition getattribute :: "'a option \<Rightarrow> exn + 'a" where
  "getattribute x = (case x of Some v \<Rightarrow> Inr v | None \<Rightarrow> Inl AttributeError)"

definition state_IN_MOD_SPEC :: "bytes \<Rightarrow> ldif_delta \<Rightarrow> exn + ldif_delta" where
  "state_IN_MOD_SPEC line s =
     (if line = [] then Inl (LDIFParseError ''LDIFDeltaModificationMissingEndDashError'')
      else if line = lit ''-'' then
        bindE (getattribute (mod_spec s)) (\<lambda>spec.
        bindE (case MOD_SPEC_TO_DELTA spec of Some m \<Rightarrow> Inr m | None \<Rightarrow> Inl KeyError) (\<lambda>m.
        bindE (getattribute (mod_spec_attr s)) (\<lambda>attr.
        bindE (getattribute (mod_spec_data s)) (\<lambda>data.
          case dmods s of
            None \<Rightarrow> Inl AssertionError
          | Some ms \<Rightarrow>
              Inr (s\<lparr>dmods := Some (ms @ [m (mkAttributeSet (Byt attr) (map Byt data))]),
                     mod_spec := None, mod_spec_attr := None, mod_spec_data := None,
                     lmode := WAIT_FOR_MOD_SPEC\<rparr>)))))
      else
        bindE (parseLine line) (\<lambda>(key, val).
        bindE (getattribute (mod_spec_attr s)) (\<lambda>attr.
          if key \<noteq> attr then
            Inl (LDIFParseError ''LDIFDeltaModificationDifferentAttributeTypeError'')
          else
            bindE (getattribute (mod_spec_data s)) (\<lambda>data.
              Inr (s\<lparr>mod_spec_data := Some (data @ [val])\<rparr>)))))"

definition state_IN_ADD_ENTRY :: "bytes \<Rightarrow> ldif_delta \<Rightarrow> exn + ldif_delta" where
  "state_IN_ADD_ENTRY line s =
     (case (ldn s, ldata s) of
        (Some d, Some data) \<Rightarrow>
          if line = [] then
            (if data = [] then Inl (LDIFParseError ''LDIFDeltaAddMissingAttributesError'')
             else
               bindE (mkEntry (Byt d) (data_attributes data)) (\<lambda>e.
                 Inr (s\<lparr>lmode := WAIT_FOR_DN, ldn := None, ldata := None,
                        collected := collected s @ [AddOp e]\<rparr>)))
          else
            bindE (parseLine line) (\<lambda>(key, val).
              Inr (s\<lparr>ldata := Some (data_append data key val)\<rparr>))
      | _ \<Rightarrow> Inl AssertionError)"

definition state_IN_DELETE :: "bytes \<Rightarrow> ldif_delta \<Rightarrow> exn + ldif_delta" where
  "state_IN_DELETE line s =
     (case ldn s of
        None \<Rightarrow> Inl AssertionError
      | Some d \<Rightarrow>
          if line = [] then
            bindE (dn_of (Byt d)) (\<lambda>d'.
              Inr (s\<lparr>lmode := WAIT_FOR_DN, ldn := None, ldata := None,
                     collected := collected s @ [DeleteOp d']\<rparr>))
          else Inl (LDIFParseError ''LDIFDeltaDeleteHasJunkAfterChangeTypeError''))"

text \<open>The inherited state, which the subclass never enters: an entry would be collected as it is.\<close>

definition collectEntry :: "entry \<Rightarrow> ldif_delta \<Rightarrow> ldif_delta" where
  "collectEntry ob s = s\<lparr>collected := collected s @ [PlainEntry ob]\<rparr>"

definition LDIFDelta_method :: "bytes \<Rightarrow> ldif_delta \<Rightarrow> exn + ldif_delta" where
  "LDIFDelta_method line s =
     (case lmode s of
        HEADER \<Rightarrow> state_HEADER (logicalLine delta_WAIT_FOR_DN) line s
      | WAIT_FOR_DN \<Rightarrow> delta_WAIT_FOR_DN line s
      | IN_ENTRY \<Rightarrow> state_IN_ENTRY collectEntry line s
      | WAIT_FOR_CHANGETYPE \<Rightarrow> state_WAIT_FOR_CHANGETYPE line s
      | WAIT_FOR_MOD_SPEC \<Rightarrow> state_WAIT_FOR_MOD_SPEC line s
      | IN_MOD_SPEC \<Rightarrow> state_IN_MOD_SPEC line s
      | IN_ADD_ENTRY \<Rightarrow> state_IN_ADD_ENTRY line s
      | IN_DELETE \<Rightarrow> state_IN_DELETE line s)"

definition LDIFDelta_logicalLineReceived :: "bytes \<Rightarrow> ldif_delta \<Rightarrow> exn + ldif_delta" where
  "LDIFDelta_logicalLineReceived line s = logicalLine LDIFDelta_method line s"

definition LDIFDelta_dataReceived :: "bytes \<Rightarrow> ldif_delta \<times> bytes \<Rightarrow> exn + (ldif_delta \<times> bytes)" where
  "LDIFDelta_dataReceived data st = line_dataReceived (lineReceived LDIFDelta_logicalLineReceived) data st"

text \<open>
  \<open>fromLDIFFile\<close> for a file whose reads give these pieces, none of them empty: the loop ends at
  the first empty read.
\<close>

definition delta_fromLDIFFile :: "bytes list \<Rightarrow> exn + delta_op list" where
  "delta_fromLDIFFile reads =
     bindE (foldE LDIFDelta_dataReceived (takeWhile (\<lambda>data. data \<noteq> []) reads) (LDIFDelta_init, []))
       (\<lambda>(s, buffer). bindE (LDIF_connectionLost s) (\<lambda>_. Inr (collected s)))"

section \<open>The parser of changes is a machine on logical lines\<close>

text \<open>What is set in which state. The state inside an entry is never the one left.\<close>

definition LDIFDelta_inv :: "ldif_delta \<Rightarrow> bool" where
  "LDIFDelta_inv s \<longleftrightarrow>
     (case lmode s of
        HEADER \<Rightarrow> ldn s = None \<and> ldata s = None
      | WAIT_FOR_DN \<Rightarrow> ldn s = None \<and> ldata s = None
      | IN_ENTRY \<Rightarrow> False
      | WAIT_FOR_MOD_SPEC \<Rightarrow> ldn s \<noteq> None \<and> ldata s \<noteq> None \<and> dmods s \<noteq> None
      | IN_MOD_SPEC \<Rightarrow> ldn s \<noteq> None \<and> ldata s \<noteq> None \<and> dmods s \<noteq> None \<and>
          (\<exists>k. mod_spec s = Some k \<and> MOD_SPEC_TO_DELTA k \<noteq> None) \<and>
          mod_spec_attr s \<noteq> None \<and> mod_spec_data s \<noteq> None
      | _ \<Rightarrow> ldn s \<noteq> None \<and> ldata s \<noteq> None)"

lemma inv_not_IN_ENTRY: "LDIFDelta_inv s \<Longrightarrow> lmode s \<noteq> IN_ENTRY"
  by (auto simp: LDIFDelta_inv_def)

lemmas delta_defs = LDIFDelta_logicalLineReceived_def logicalLine_def LDIFDelta_method_def
lemmas delta_state_defs = state_IN_ENTRY_def collectEntry_def state_WAIT_FOR_CHANGETYPE_def state_WAIT_FOR_MOD_SPEC_def
  state_IN_MOD_SPEC_def state_IN_ADD_ENTRY_def state_IN_DELETE_def getattribute_def

lemma delta_lastLine_outermost:
  "t\<lparr>lastLine := x, dmods := m\<rparr> = t\<lparr>dmods := m, lastLine := x\<rparr>"
  "t\<lparr>lastLine := x, mod_spec := k\<rparr> = t\<lparr>mod_spec := k, lastLine := x\<rparr>"
  "t\<lparr>lastLine := x, mod_spec_attr := k\<rparr> = t\<lparr>mod_spec_attr := k, lastLine := x\<rparr>"
  "t\<lparr>lastLine := x, mod_spec_data := vs\<rparr> = t\<lparr>mod_spec_data := vs, lastLine := x\<rparr>"
  "t\<lparr>lastLine := x, collected := c\<rparr> = t\<lparr>collected := c, lastLine := x\<rparr>"
  by simp_all

text \<open>The header's state, for whatever receives the line it does not take.\<close>

lemma state_HEADER_lastLine:
  assumes "\<And>l s. nxt l (s\<lparr>lastLine := x\<rparr>) = bindE (nxt l s) (\<lambda>s'. Inr (s'\<lparr>lastLine := x\<rparr>))"
  shows "state_HEADER (logicalLine nxt) line (s\<lparr>lastLine := x\<rparr>) =
     bindE (state_HEADER (logicalLine nxt) line s) (\<lambda>s'. Inr (s'\<lparr>lastLine := x\<rparr>))"
proof (cases "parseLine line")
  case (Inr kv)
  obtain k v where kv: "kv = (k, v)" by (cases kv)
  show ?thesis
    by (auto simp: state_HEADER_def Inr kv Let_def logicalLine_def lastLine_outermost assms split: sum.split)
qed (simp add: state_HEADER_def)

lemma delta_WAIT_FOR_DN_lastLine:
  "delta_WAIT_FOR_DN line (s\<lparr>lastLine := x\<rparr>) =
     bindE (delta_WAIT_FOR_DN line s) (\<lambda>s'. Inr (s'\<lparr>lastLine := x\<rparr>))"
  by (cases "state_WAIT_FOR_DN line s")
    (simp_all add: delta_WAIT_FOR_DN_def WAIT_FOR_DN_lastLine lastLine_outermost)

lemma delta_state_lastLine:
  "state_WAIT_FOR_CHANGETYPE line (s\<lparr>lastLine := x\<rparr>) =
     bindE (state_WAIT_FOR_CHANGETYPE line s) (\<lambda>s'. Inr (s'\<lparr>lastLine := x\<rparr>))"
  "state_WAIT_FOR_MOD_SPEC line (s\<lparr>lastLine := x\<rparr>) =
     bindE (state_WAIT_FOR_MOD_SPEC line s) (\<lambda>s'. Inr (s'\<lparr>lastLine := x\<rparr>))"
  "state_IN_MOD_SPEC line (s\<lparr>lastLine := x\<rparr>) =
     bindE (state_IN_MOD_SPEC line s) (\<lambda>s'. Inr (s'\<lparr>lastLine := x\<rparr>))"
  "state_IN_ADD_ENTRY line (s\<lparr>lastLine := x\<rparr>) =
     bindE (state_IN_ADD_ENTRY line s) (\<lambda>s'. Inr (s'\<lparr>lastLine := x\<rparr>))"
  "state_IN_ENTRY collectEntry line (s\<lparr>lastLine := x\<rparr>) =
     bindE (state_IN_ENTRY collectEntry line s) (\<lambda>s'. Inr (s'\<lparr>lastLine := x\<rparr>))"
  "state_IN_DELETE line (s\<lparr>lastLine := x\<rparr>) =
     bindE (state_IN_DELETE line s) (\<lambda>s'. Inr (s'\<lparr>lastLine := x\<rparr>))"
  by (cases "parseLine line"; auto simp: delta_state_defs assertE_def case_prod_unfold bindE_assoc
      lastLine_outermost delta_lastLine_outermost split: option.split)+

lemma delta_WAIT_FOR_DN_effect:
  "delta_WAIT_FOR_DN line s = Inr s' \<Longrightarrow> lmode s = WAIT_FOR_DN \<Longrightarrow>
   s' = s \<or> (\<exists>v. s' = s\<lparr>ldn := Some v, ldata := Some [], lmode := WAIT_FOR_CHANGETYPE\<rparr>)"
  using WAIT_FOR_DN_effect[of line s] by (fastforce simp: delta_WAIT_FOR_DN_def)

lemma delta_HEADER_effect:
  assumes "state_HEADER (logicalLine delta_WAIT_FOR_DN) line s = Inr s'" "lmode s = HEADER"
    "ldn s = None" "ldata s = None"
  shows "LDIFDelta_inv s'"
proof -
  let ?s = "s\<lparr>lmode := WAIT_FOR_DN\<rparr>"
  from assms(1) consider "delta_WAIT_FOR_DN line ?s = Inr s'" | "s' = ?s" | v where "s' = ?s\<lparr>lversion := v\<rparr>"
    by (auto simp: state_HEADER_def Let_def logicalLine_def split: prod.splits if_splits sum.splits)
  then show ?thesis
  proof cases
    case 1
    then show ?thesis using delta_WAIT_FOR_DN_effect[OF 1] assms(3,4) by (auto simp: LDIFDelta_inv_def)
  qed (use assms in \<open>auto simp: LDIFDelta_inv_def\<close>)
qed

lemma delta_WAIT_FOR_DN_safe:
  "ldn s = None \<Longrightarrow> ldata s = None \<Longrightarrow> safe (delta_WAIT_FOR_DN line s)"
  by (simp add: delta_WAIT_FOR_DN_def safe_bindE WAIT_FOR_DN_safe)

lemma delta_HEADER_safe:
  "ldn s = None \<Longrightarrow> ldata s = None \<Longrightarrow> safe (state_HEADER (logicalLine delta_WAIT_FOR_DN) line s)"
  by (auto simp: state_HEADER_def Let_def logicalLine_def
      intro!: safe_bindE safe_parseLine delta_WAIT_FOR_DN_safe split: prod.split sum.split)

lemma delta_state_inv:
  assumes "LDIFDelta_inv s"
  shows "lmode s = WAIT_FOR_CHANGETYPE \<Longrightarrow> state_WAIT_FOR_CHANGETYPE line s = Inr s' \<Longrightarrow> LDIFDelta_inv s'"
    and "lmode s = WAIT_FOR_MOD_SPEC \<Longrightarrow> state_WAIT_FOR_MOD_SPEC line s = Inr s' \<Longrightarrow> LDIFDelta_inv s'"
    and "lmode s = IN_MOD_SPEC \<Longrightarrow> state_IN_MOD_SPEC line s = Inr s' \<Longrightarrow> LDIFDelta_inv s'"
    and "lmode s = IN_ADD_ENTRY \<Longrightarrow> state_IN_ADD_ENTRY line s = Inr s' \<Longrightarrow> LDIFDelta_inv s'"
    and "lmode s = IN_DELETE \<Longrightarrow> state_IN_DELETE line s = Inr s' \<Longrightarrow> LDIFDelta_inv s'"
  using assms by (auto simp: delta_state_defs LDIFDelta_inv_def split: if_splits option.splits prod.splits)

lemma delta_state_safe:
  assumes "LDIFDelta_inv s"
  shows "lmode s = WAIT_FOR_CHANGETYPE \<Longrightarrow> safe (state_WAIT_FOR_CHANGETYPE line s)"
    and "lmode s = WAIT_FOR_MOD_SPEC \<Longrightarrow> safe (state_WAIT_FOR_MOD_SPEC line s)"
    and "lmode s = IN_MOD_SPEC \<Longrightarrow> safe (state_IN_MOD_SPEC line s)"
    and "lmode s = IN_ADD_ENTRY \<Longrightarrow> safe (state_IN_ADD_ENTRY line s)"
    and "lmode s = IN_DELETE \<Longrightarrow> safe (state_IN_DELETE line s)"
  using assms
  by (auto simp: delta_state_defs LDIFDelta_inv_def mkEntry_def mkModifyOp_def
      intro!: safe_bindE safe_parseLine safe_dn_of split: option.splits prod.splits)

interpretation changes: line_machine LDIFDelta_logicalLineReceived LDIFDelta_inv
proof
  fix l s x
  show "LDIFDelta_logicalLineReceived l (s\<lparr>lastLine := x\<rparr>) =
      bindE (LDIFDelta_logicalLineReceived l s) (\<lambda>s'. Inr (s'\<lparr>lastLine := x\<rparr>))"
    by (cases "lmode s") (simp_all add: delta_defs delta_state_lastLine delta_WAIT_FOR_DN_lastLine
        state_HEADER_lastLine[where nxt = delta_WAIT_FOR_DN, OF delta_WAIT_FOR_DN_lastLine])
next
  fix s x
  show "LDIFDelta_inv (s\<lparr>lastLine := x\<rparr>) \<longleftrightarrow> LDIFDelta_inv s"
    by (cases "lmode s") (simp_all add: LDIFDelta_inv_def)
next
  fix s l s'
  assume s: "LDIFDelta_inv s" "LDIFDelta_logicalLineReceived l s = Inr s'"
  show "LDIFDelta_inv s'"
  proof (cases "lmode s")
    case HEADER
    then show ?thesis using s delta_HEADER_effect[of l s s'] by (auto simp: delta_defs LDIFDelta_inv_def split: if_splits)
  next
    case WAIT_FOR_DN
    then show ?thesis using s delta_WAIT_FOR_DN_effect[of l s s']
      by (auto simp: delta_defs LDIFDelta_inv_def split: if_splits)
  qed (use s inv_not_IN_ENTRY[OF s(1)] delta_state_inv[OF s(1), of l s'] in \<open>auto simp: delta_defs split: if_splits\<close>)
next
  fix s l e
  assume s: "LDIFDelta_inv s" and e: "LDIFDelta_logicalLineReceived l s = Inl e"
  have "safe (LDIFDelta_logicalLineReceived l s)"
    using s delta_HEADER_safe[of s l] delta_WAIT_FOR_DN_safe[of s l] delta_state_safe[OF s, of l]
    by (cases "lmode s") (auto simp: delta_defs LDIFDelta_inv_def)
  then show "\<not> internal e" using e by (simp add: safe_def)
qed

lemma LDIFDelta_init_inv: "LDIFDelta_inv LDIFDelta_init"
  by (simp add: LDIFDelta_inv_def LDIFDelta_init_def)

section \<open>Lemmas: changes are read as they were written\<close>

definition between_changes :: "ldif_delta \<Rightarrow> bool" where
  "between_changes s \<longleftrightarrow>
     (lmode s = HEADER \<or> lmode s = WAIT_FOR_DN) \<and> ldn s = None \<and> ldata s = None \<and> lastLine s = None \<and>
     dmods s = None \<and> mod_spec s = None \<and> mod_spec_attr s = None \<and> mod_spec_data s = None"

lemma change_dn_line:
  assumes "plain_line l" "parseLine l = Inr (lit ''dn'', v)" "between_changes s"
  shows "LDIFDelta_logicalLineReceived l s =
    Inr (s\<lparr>ldn := Some v, ldata := Some [], lmode := WAIT_FOR_CHANGETYPE\<rparr>)"
proof -
  have "bupper (lit ''dn'') = lit ''DN''" "lit ''dn'' \<noteq> lit ''version''" by code_simp+
  then show ?thesis using assms
    by (auto simp: delta_defs plain_line_def delta_WAIT_FOR_DN_def state_WAIT_FOR_DN_def state_HEADER_def
        Let_def between_changes_def simp del: lit_Cons)
qed

lemma changetypes:
  "lit ''add'' \<noteq> lit ''modify''" "lit ''delete'' \<noteq> lit ''modify''" "lit ''delete'' \<noteq> lit ''add''"
  "lit ''replace'' \<noteq> lit ''add''" "lit ''replace'' \<noteq> lit ''delete''" "lit ''add'' \<noteq> lit ''delete''"
  by code_simp+

lemma changetype_line:
  assumes "plain_line l" "parseLine l = Inr (lit ''changetype'', v)" "lmode s = WAIT_FOR_CHANGETYPE"
    "ldn s = Some d" "ldata s = Some []"
  shows "v = lit ''modify'' \<Longrightarrow>
      LDIFDelta_logicalLineReceived l s = Inr (s\<lparr>dmods := Some [], lmode := WAIT_FOR_MOD_SPEC\<rparr>)"
    and "v = lit ''add'' \<Longrightarrow> LDIFDelta_logicalLineReceived l s = Inr (s\<lparr>lmode := IN_ADD_ENTRY\<rparr>)"
    and "v = lit ''delete'' \<Longrightarrow> LDIFDelta_logicalLineReceived l s = Inr (s\<lparr>lmode := IN_DELETE\<rparr>)"
  using assms changetypes
  by (simp_all add: delta_defs plain_line_def state_WAIT_FOR_CHANGETYPE_def del: lit_Cons)

text \<open>A modification as lines, and as it is read from them: bytes, in sorted order.\<close>

definition mod_lines :: "modification \<Rightarrow> pytext list \<Rightarrow> bytes list" where
  "mod_lines m vs =
     attr_line (Str (mod_keyword m)) (akey (mod_set m)) # map (attr_line (akey (mod_set m))) vs @ [lit ''-'']"

fun with_set :: "modification \<Rightarrow> attrset \<Rightarrow> modification" where
  "with_set (Add a) b = Add b"
| "with_set (Delete a) b = Delete b"
| "with_set (Replace a) b = Replace b"

definition read_mod :: "modification \<Rightarrow> modification" where
  "read_mod m =
     with_set m (mkAttributeSet (canon (akey (mod_set m))) (map canon (sort (avals (mod_set m)))))"

lemma mod_spec_keyword: "MOD_SPEC_TO_DELTA (lit (mod_keyword m)) = Some (with_set m)"
proof -
  have "with_set (Add a) = Add" "with_set (Delete a) = Delete" "with_set (Replace a) = Replace" for a
    by (auto intro!: ext)
  then show ?thesis using changetypes by (cases m) (simp_all add: MOD_SPEC_TO_DELTA_def del: lit_Cons)
qed

lemma keyword_key: "key_ok (to_bytes (Str (mod_keyword m)))" "to_bytes (Str (mod_keyword m)) = lit (mod_keyword m)"
proof -
  have "utf8_encode ''add'' = lit ''add''" "utf8_encode ''delete'' = lit ''delete''"
    "utf8_encode ''replace'' = lit ''replace''" by code_simp+
  then show b: "to_bytes (Str (mod_keyword m)) = lit (mod_keyword m)" by (cases m) (simp_all del: lit_Cons)
  have "key_ok (lit ''add'')" "key_ok (lit ''delete'')" "key_ok (lit ''replace'')" by code_simp+
  then show "key_ok (to_bytes (Str (mod_keyword m)))" unfolding b by (cases m) (simp_all del: lit_Cons)
qed

lemma mod_value_lines:
  assumes "key_ok (to_bytes k)" "lmode s = IN_MOD_SPEC" "mod_spec_attr s = Some (to_bytes k)"
    "mod_spec_data s = Some data"
  shows "foldE LDIFDelta_logicalLineReceived (map (attr_line k) vs) s =
    Inr (s\<lparr>mod_spec_data := Some (data @ map to_bytes vs)\<rparr>)"
  using assms(2-)
proof (induction vs arbitrary: s data)
  case (Cons v vs)
  have dash: "attr_line k v \<noteq> lit ''-''"
  proof
    assume "attr_line k v = lit ''-''"
    moreover have "parseLine (lit ''-'') = Inl (LDIFParseError ''LDIFLineWithoutSemicolonError'')" by code_simp
    ultimately show False using attr_line(3)[OF assms(1), of v] by simp
  qed
  have "LDIFDelta_logicalLineReceived (attr_line k v) s = Inr (s\<lparr>mod_spec_data := Some (data @ [to_bytes v])\<rparr>)"
    using attr_line(2,3)[OF assms(1), of v] dash Cons.prems
    by (simp add: delta_defs plain_line_def state_IN_MOD_SPEC_def getattribute_def del: lit_Cons)
  then show ?case using Cons.IH[of "s\<lparr>mod_spec_data := Some (data @ [to_bytes v])\<rparr>"] Cons.prems by simp
qed simp

lemma mod_lines_read:
  assumes "key_ok (to_bytes (akey (mod_set m)))" "lmode s = WAIT_FOR_MOD_SPEC" "dmods s = Some ms"
    "mod_spec s = None" "mod_spec_attr s = None" "mod_spec_data s = None"
  shows "foldE LDIFDelta_logicalLineReceived (mod_lines m (sort (avals (mod_set m)))) s =
    Inr (s\<lparr>dmods := Some (ms @ [read_mod m])\<rparr>)"
proof -
  let ?k = "akey (mod_set m)" and ?vs = "sort (avals (mod_set m))"
  let ?s1 = "s\<lparr>mod_spec := Some (lit (mod_keyword m)), mod_spec_attr := Some (to_bytes ?k),
    mod_spec_data := Some [], lmode := IN_MOD_SPEC\<rparr>"
  have "LDIFDelta_logicalLineReceived (attr_line (Str (mod_keyword m)) ?k) s = Inr ?s1"
    using attr_line(2,3)[OF keyword_key(1), of m ?k] assms mod_spec_keyword[of m]
    by (simp add: delta_defs plain_line_def state_WAIT_FOR_MOD_SPEC_def keyword_key(2) del: to_bytes.simps)
  moreover have "foldE LDIFDelta_logicalLineReceived (map (attr_line ?k) ?vs) ?s1 =
      Inr (?s1\<lparr>mod_spec_data := Some (map to_bytes ?vs)\<rparr>)"
    using mod_value_lines[OF assms(1), of ?s1 "[]" ?vs] by simp
  moreover have "LDIFDelta_logicalLineReceived (lit ''-'') (?s1\<lparr>mod_spec_data := Some (map to_bytes ?vs)\<rparr>) =
      Inr (s\<lparr>dmods := Some (ms @ [read_mod m])\<rparr>)"
  proof -
    have "take 1 (lit ''-'') \<noteq> lit ''#''" "lit ''-'' \<noteq> []" by code_simp+
    moreover have "s\<lparr>dmods := x, mod_spec := None, mod_spec_attr := None, mod_spec_data := None,
        lmode := WAIT_FOR_MOD_SPEC\<rparr> = s\<lparr>dmods := x\<rparr>" for x
      using assms by simp
    ultimately show ?thesis using assms mod_spec_keyword[of m]
      by (simp add: delta_defs state_IN_MOD_SPEC_def getattribute_def read_mod_def comp_def
          del: lit_Cons)
  qed
  ultimately show ?thesis by (simp add: mod_lines_def foldE_append del: lit_Cons)
qed

definition mod_ok :: "modification \<Rightarrow> bool" where
  "mod_ok m \<longleftrightarrow> key_ok (to_bytes (akey (mod_set m)))"

lemma mods_read:
  assumes "\<forall>m \<in> set ms. mod_ok m" "lmode s = WAIT_FOR_MOD_SPEC" "dmods s = Some ns"
    "mod_spec s = None" "mod_spec_attr s = None" "mod_spec_data s = None"
  shows "foldE LDIFDelta_logicalLineReceived (concat (map (\<lambda>m. mod_lines m (sort (avals (mod_set m)))) ms)) s =
    Inr (s\<lparr>dmods := Some (ns @ map read_mod ms)\<rparr>)"
  using assms
proof (induction ms arbitrary: s ns)
  case (Cons m ms)
  then have "foldE LDIFDelta_logicalLineReceived (mod_lines m (sort (avals (mod_set m)))) s =
      Inr (s\<lparr>dmods := Some (ns @ [read_mod m])\<rparr>)"
    by (intro mod_lines_read) (auto simp: mod_ok_def)
  then show ?case using Cons by (simp add: foldE_append)
qed simp

text \<open>The lines of a change, and the change that is read from them.\<close>

definition dn_attr_line :: "dn \<Rightarrow> bytes" where
  "dn_attr_line d = attr_line (Str ''dn'') (Str (dn_text d))"

definition changetype_attr_line :: "string \<Rightarrow> bytes" where
  "changetype_attr_line t = attr_line (Str ''changetype'') (Str t)"

lemma dn_attr_line:
  "attributeAsLDIF (Str ''dn'') (Str (dn_text d)) = dn_attr_line d @ [10]"
  "plain_line (dn_attr_line d)" "parseLine (dn_attr_line d) = Inr (lit ''dn'', utf8_encode (dn_text d))"
proof -
  have b: "to_bytes (Str ''dn'') = lit ''dn''" and k: "key_ok (to_bytes (Str ''dn''))" by code_simp+
  show "attributeAsLDIF (Str ''dn'') (Str (dn_text d)) = dn_attr_line d @ [10]" "plain_line (dn_attr_line d)"
    "parseLine (dn_attr_line d) = Inr (lit ''dn'', utf8_encode (dn_text d))"
    using attr_line[OF k, of "Str (dn_text d)"]
    by (simp_all add: dn_attr_line_def b del: lit_Cons to_bytes.simps(1) flip: to_bytes.simps(1)[of "dn_text d"])
qed

lemma changetype_attr_line:
  assumes "utf8_encode t = lit t"
  shows "attributeAsLDIF (Str ''changetype'') (Str t) = changetype_attr_line t @ [10]"
    "plain_line (changetype_attr_line t)" "parseLine (changetype_attr_line t) = Inr (lit ''changetype'', lit t)"
proof -
  have b: "to_bytes (Str ''changetype'') = lit ''changetype''" and k: "key_ok (to_bytes (Str ''changetype''))"
    by code_simp+
  show "attributeAsLDIF (Str ''changetype'') (Str t) = changetype_attr_line t @ [10]"
    "plain_line (changetype_attr_line t)" "parseLine (changetype_attr_line t) = Inr (lit ''changetype'', lit t)"
    using attr_line[OF k, of "Str t"] assms[folded to_bytes.simps(1)]
    by (simp_all add: changetype_attr_line_def b del: lit_Cons to_bytes.simps(1))
qed

lemma changetype_texts:
  "utf8_encode ''modify'' = lit ''modify''" "utf8_encode ''delete'' = lit ''delete''"
  "utf8_encode ''add'' = lit ''add''"
  by code_simp+

definition modify_lines :: "modify_op \<Rightarrow> bytes list" where
  "modify_lines op =
     dn_attr_line (mop_dn op) # changetype_attr_line ''modify''
     # concat (map (\<lambda>m. mod_lines m (sort (avals (mod_set m)))) (modifications op))"

definition delete_lines :: "dn \<Rightarrow> bytes list" where
  "delete_lines d = [dn_attr_line d, changetype_attr_line ''delete'']"

lemma mod_lines_plain: "mod_ok m \<Longrightarrow> l \<in> set (mod_lines m vs) \<Longrightarrow> plain_line l"
proof -
  have "plain_line (lit ''-'')" by code_simp
  then show "mod_ok m \<Longrightarrow> l \<in> set (mod_lines m vs) \<Longrightarrow> plain_line l"
    using attr_line(2)[OF keyword_key(1)] attr_line(2)[of "akey (mod_set m)"]
    by (auto simp: mod_lines_def mod_ok_def simp del: lit_Cons to_bytes.simps)
qed

lemma modify_read:
  assumes "dn_ok (mop_dn op)" "\<forall>m \<in> set (modifications op). mod_ok m" "between_changes s"
  shows "foldE LDIFDelta_logicalLineReceived (modify_lines op @ [[]]) s =
    Inr (s\<lparr>lmode := WAIT_FOR_DN,
           collected := collected s @
             [ModifyOp \<lparr>mop_dn = mop_dn op, modifications = map read_mod (modifications op)\<rparr>]\<rparr>)"
proof -
  let ?d = "utf8_encode (dn_text (mop_dn op))"
  let ?s1 = "s\<lparr>ldn := Some ?d, ldata := Some [], lmode := WAIT_FOR_CHANGETYPE\<rparr>"
  let ?s2 = "?s1\<lparr>dmods := Some [], lmode := WAIT_FOR_MOD_SPEC\<rparr>"
  let ?s3 = "?s2\<lparr>dmods := Some (map read_mod (modifications op))\<rparr>"
  let ?s4 = "s\<lparr>lmode := WAIT_FOR_DN, collected := collected s @
             [ModifyOp \<lparr>mop_dn = mop_dn op, modifications = map read_mod (modifications op)\<rparr>]\<rparr>"
  have "LDIFDelta_logicalLineReceived (dn_attr_line (mop_dn op)) s = Inr ?s1"
    by (rule change_dn_line[OF dn_attr_line(2,3) assms(3)])
  moreover have "LDIFDelta_logicalLineReceived (changetype_attr_line ''modify'') ?s1 = Inr ?s2"
    by (rule changetype_line(1)[OF changetype_attr_line(2,3)[OF changetype_texts(1)]]) simp_all
  moreover have "foldE LDIFDelta_logicalLineReceived
      (concat (map (\<lambda>m. mod_lines m (sort (avals (mod_set m)))) (modifications op))) ?s2 = Inr ?s3"
    using mods_read[OF assms(2), of ?s2 "[]"] assms(3) by (simp add: between_changes_def)
  moreover have "LDIFDelta_logicalLineReceived [] ?s3 = Inr ?s4"
    using assms(1,3) by (simp add: delta_defs state_WAIT_FOR_MOD_SPEC_def mkModifyOp_def dn_of_def
        dn_of_text_show between_changes_def)
  ultimately show ?thesis by (simp add: modify_lines_def foldE_append)
qed

lemma delete_read:
  assumes "dn_ok d" "between_changes s"
  shows "foldE LDIFDelta_logicalLineReceived (delete_lines d @ [[]]) s =
    Inr (s\<lparr>lmode := WAIT_FOR_DN, collected := collected s @ [DeleteOp d]\<rparr>)"
proof -
  let ?s1 = "s\<lparr>ldn := Some (utf8_encode (dn_text d)), ldata := Some [], lmode := WAIT_FOR_CHANGETYPE\<rparr>"
  let ?s2 = "?s1\<lparr>lmode := IN_DELETE\<rparr>"
  have "LDIFDelta_logicalLineReceived (dn_attr_line d) s = Inr ?s1"
    by (rule change_dn_line[OF dn_attr_line(2,3) assms(2)])
  moreover have "LDIFDelta_logicalLineReceived (changetype_attr_line ''delete'') ?s1 = Inr ?s2"
    by (rule changetype_line(3)[OF changetype_attr_line(2,3)[OF changetype_texts(2)]]) simp_all
  moreover have "LDIFDelta_logicalLineReceived [] ?s2 =
      Inr (s\<lparr>lmode := WAIT_FOR_DN, collected := collected s @ [DeleteOp d]\<rparr>)"
    using assms by (simp add: delta_defs state_IN_DELETE_def dn_of_def dn_of_text_show between_changes_def)
  ultimately show ?thesis by (simp add: delete_lines_def)
qed

text \<open>An added entry is written through its own text, with a line put in.\<close>

definition wire_attrs :: "entry \<Rightarrow> exn + (pytext \<times> pytext list) list" where
  "wire_attrs self =
     bindE (mapE (\<lambda>key. bindE (entry_getitem self key) (\<lambda>vs. Inr (key, vs))) (entry_iter self))
       (\<lambda>items_gen.
     bindE (mapE (\<lambda>(key, vs). bindE (py_sort (avals vs)) (\<lambda>sorted_vs. Inr (key, sorted_vs)))
              (filter (\<lambda>(key, vs). text_lower key \<notin> set object_class_lower_keys)
                 (sort_key (\<lambda>kv. to_bytes (fst kv)) items_gen)))
       (\<lambda>rest. Inr (map (\<lambda>key. (key, object_classes self key)) object_class_keys @ rest)))"

lemma entry_toWire_attrs:
  "entry_toWire e = bindE (wire_attrs e) (\<lambda>attrs. Inr (asLDIF (Str (dn_text (edn e))) attrs))"
  by (simp add: entry_toWire_def wire_attrs_def bindE_assoc)

lemma splitlines_line:
  "10 \<notin> set l \<Longrightarrow> 13 \<notin> set l \<Longrightarrow> splitlines cur (l @ 10 # s) = (cur @ l) # splitlines [] s"
  by (induction l arbitrary: cur) auto

lemma splitlines_lines:
  "\<forall>l \<in> set ls. 10 \<notin> set l \<and> 13 \<notin> set l \<Longrightarrow> splitlines [] (concat (map (\<lambda>l. l @ [10]) ls)) = ls"
  by (induction ls) (simp_all add: splitlines_line)

lemma attr_line_no_return:
  assumes "key_ok (to_bytes k)" "13 \<notin> set (to_bytes k)"
  shows "13 \<notin> set (attr_line k v)"
proof -
  have "\<not> is_space 13 \<or> True" "is_space 13" by (simp_all add: is_space_def)
  then have "13 \<notin> set (encodebytes s)" for s
    using set_encodebytes[of s] alphabet_not_space[of 13] by auto
  then have "13 \<notin> set (attributeAsLDIF k v)"
    using assms(2) by (auto simp: attributeAsLDIF_def Let_def attributeAsLDIF_base64_def base64_encode_def
        containsNonprintable_def list_ex_iff split: if_splits)
  then show ?thesis by (simp add: attr_line(1)[OF assms(1)])
qed

lemma dn_line_no_return: "13 \<notin> set (dn_line d)"
proof -
  have "13 \<notin> set (lit ''dn: '')" by simp
  moreover have "13 \<notin> set (utf8_encode (dn_text d))"
    using utf8_char_printable[OF dn_text_printable[of _ d]] by (auto simp: utf8_encode_def)
  ultimately show ?thesis unfolding dn_line_def by simp
qed

definition add_lines :: "dn \<Rightarrow> (pytext \<times> pytext list) list \<Rightarrow> bytes list" where
  "add_lines d attrs = dn_line d # changetype_attr_line ''add'' # attr_lines attrs"

definition no_returns :: "(pytext \<times> pytext list) list \<Rightarrow> bool" where
  "no_returns attrs \<longleftrightarrow> (\<forall>(k, vs) \<in> set attrs. 13 \<notin> set (to_bytes k))"

lemma add_asLDIF_lines:
  assumes "wire_attrs e = Inr attrs" "keys_ok attrs" "no_returns attrs"
  shows "add_asLDIF e = Inr (concat (map (\<lambda>l. l @ [10]) (add_lines (edn e) attrs @ [[]])))"
proof -
  let ?ls = "dn_line (edn e) # attr_lines attrs @ [[]]"
  have "10 \<notin> set l \<and> 13 \<notin> set l" if "l \<in> set (attr_lines attrs)" for l
    using that attr_lines_plain[OF assms(2)] attr_line_no_return assms(2,3)
    by (fastforce simp: plain_line_def attr_lines_def keys_ok_def no_returns_def)
  then have "\<forall>l \<in> set ?ls. 10 \<notin> set l \<and> 13 \<notin> set l"
    using dn_line(1)[of "edn e"] dn_line_no_return by (auto simp: plain_line_def)
  then have "splitlines [] (asLDIF (Str (dn_text (edn e))) attrs) = ?ls"
    unfolding asLDIF_lines[OF assms(2)] by (rule splitlines_lines)
  moreover have "take 3 (dn_line (edn e)) = lit ''dn:''" by (simp add: dn_line_def)
  moreover have "rstrip_newlines (attributeAsLDIF (Str ''changetype'') (Str ''add'')) = changetype_attr_line ''add''"
    unfolding changetype_attr_line_def attr_line_def by code_simp
  ultimately show ?thesis
    by (simp add: add_asLDIF_def entry_toWire_attrs assms(1) add_lines_def)
qed

lemma add_lines_read:
  assumes "keys_ok attrs" "lmode s = IN_ADD_ENTRY" "ldn s = Some d" "ldata s = Some data"
  shows "foldE LDIFDelta_logicalLineReceived (attr_lines attrs) s =
    Inr (s\<lparr>ldata := Some (foldl (\<lambda>d (k, vs). foldl (\<lambda>d v. data_append d (to_bytes k) (to_bytes v)) d vs)
      data attrs)\<rparr>)"
  using assms
proof (induction attrs arbitrary: s data)
  case (Cons kv attrs)
  obtain k vs where kv: "kv = (k, vs)" by (cases kv)
  then have k: "key_ok (to_bytes k)" and rest: "keys_ok attrs" using Cons.prems(1) by (auto simp: keys_ok_def)
  have one: "foldE LDIFDelta_logicalLineReceived (map (attr_line k) vs) s =
      Inr (s\<lparr>ldata := Some (foldl (\<lambda>d v. data_append d (to_bytes k) (to_bytes v)) data vs)\<rparr>)"
    if "lmode s = IN_ADD_ENTRY" "ldn s = Some d" "ldata s = Some data" for s :: ldif_delta and data
    using that
  proof (induction vs arbitrary: s data)
    case (Cons v vs)
    then have "LDIFDelta_logicalLineReceived (attr_line k v) s =
        Inr (s\<lparr>ldata := Some (data_append data (to_bytes k) (to_bytes v))\<rparr>)"
      using attr_line(3,2)[OF k, of v] by (simp add: delta_defs plain_line_def state_IN_ADD_ENTRY_def)
    then show ?case using Cons by simp
  qed simp
  show ?case
    using one[OF Cons.prems(2-4)] Cons.IH[OF rest] Cons.prems
    by (simp add: attr_lines_def kv foldE_append)
qed (simp add: attr_lines_def)

lemma add_read:
  assumes "keys_ok attrs" "dn_ok d" "read_attrs attrs \<noteq> []" "between_changes s"
  shows "foldE LDIFDelta_logicalLineReceived (add_lines d attrs @ [[]]) s =
    Inr (s\<lparr>lmode := WAIT_FOR_DN,
           collected := collected s @ [AddOp (entry_init d (data_attributes (read_attrs attrs)))]\<rparr>)"
proof -
  let ?s1 = "s\<lparr>ldn := Some (utf8_encode (dn_text d)), ldata := Some [], lmode := WAIT_FOR_CHANGETYPE\<rparr>"
  let ?s2 = "?s1\<lparr>lmode := IN_ADD_ENTRY\<rparr>"
  let ?s3 = "?s2\<lparr>ldata := Some (read_attrs attrs)\<rparr>"
  have "LDIFDelta_logicalLineReceived (dn_line d) s = Inr ?s1"
    by (rule change_dn_line[OF dn_line(1,2) assms(4)])
  moreover have "LDIFDelta_logicalLineReceived (changetype_attr_line ''add'') ?s1 = Inr ?s2"
    by (rule changetype_line(2)[OF changetype_attr_line(2,3)[OF changetype_texts(3)]]) simp_all
  moreover have "foldE LDIFDelta_logicalLineReceived (attr_lines attrs) ?s2 = Inr ?s3"
    by (subst add_lines_read[OF assms(1)]) (simp_all add: read_attrs_def)
  moreover have "LDIFDelta_logicalLineReceived [] ?s3 =
      Inr (s\<lparr>lmode := WAIT_FOR_DN,
           collected := collected s @ [AddOp (entry_init d (data_attributes (read_attrs attrs)))]\<rparr>)"
    using assms(2-) by (simp add: delta_defs state_IN_ADD_ENTRY_def mkEntry_def dn_of_def dn_of_text_show
        between_changes_def)
  ultimately show ?thesis by (simp add: add_lines_def foldE_append)
qed

text \<open>A whole file of changes.\<close>

fun change_asLDIF :: "delta_op \<Rightarrow> exn + bytes" where
  "change_asLDIF (ModifyOp op) = modify_asLDIF op"
| "change_asLDIF (AddOp e) = add_asLDIF e"
| "change_asLDIF (DeleteOp d) = Inr (delete_asLDIF d)"
| "change_asLDIF (PlainEntry e) = Inl AttributeError"

text \<open>What can be written, and what is read from it.\<close>

fun change_ok :: "delta_op \<Rightarrow> bool" where
  "change_ok (ModifyOp op) \<longleftrightarrow> dn_ok (mop_dn op) \<and>
     (\<forall>m \<in> set (modifications op). mod_ok m \<and> one_kind (avals (mod_set m)))"
| "change_ok (AddOp e) \<longleftrightarrow> dn_ok (edn e) \<and>
     (case wire_attrs e of Inl _ \<Rightarrow> False
      | Inr attrs \<Rightarrow> keys_ok attrs \<and> no_returns attrs \<and> read_attrs attrs \<noteq> [])"
| "change_ok (DeleteOp d) \<longleftrightarrow> dn_ok d"
| "change_ok (PlainEntry e) \<longleftrightarrow> False"

fun change_read :: "delta_op \<Rightarrow> delta_op" where
  "change_read (ModifyOp op) =
     ModifyOp \<lparr>mop_dn = mop_dn op, modifications = map read_mod (modifications op)\<rparr>"
| "change_read (AddOp e) =
     AddOp (entry_init (edn e) (case wire_attrs e of Inl _ \<Rightarrow> [] | Inr attrs \<Rightarrow> data_attributes (read_attrs attrs)))"
| "change_read (DeleteOp d) = DeleteOp d"
| "change_read (PlainEntry e) = PlainEntry e"

fun change_lines :: "delta_op \<Rightarrow> bytes list" where
  "change_lines (ModifyOp op) = modify_lines op"
| "change_lines (AddOp e) = add_lines (edn e) (case wire_attrs e of Inl _ \<Rightarrow> [] | Inr attrs \<Rightarrow> attrs)"
| "change_lines (DeleteOp d) = delete_lines d"
| "change_lines (PlainEntry e) = []"

lemmas changetype_printed = changetype_texts[THEN changetype_attr_line(1)]

lemma modify_asLDIF_lines:
  assumes "\<forall>m \<in> set (modifications op). mod_ok m \<and> one_kind (avals (mod_set m))"
  shows "modify_asLDIF op = Inr (concat (map (\<lambda>l. l @ [10]) (modify_lines op @ [[]])))"
proof -
  have one: "mod_asLDIF m = Inr (concat (map (\<lambda>l. l @ [10]) (mod_lines m (sort (avals (mod_set m))))))"
    if "mod_ok m" "one_kind (avals (mod_set m))" for m
    using that(2) attr_line(1)[OF keyword_key(1)] attr_line(1)[OF that(1)[unfolded mod_ok_def], abs_def]
    by (simp add: mod_asLDIF_def py_sort_def mod_lines_def mod_ok_def comp_def del: to_bytes.simps)
  have "mapE mod_asLDIF (modifications op) =
      Inr (map (\<lambda>m. concat (map (\<lambda>l. l @ [10]) (mod_lines m (sort (avals (mod_set m)))))) (modifications op))"
    using one assms by (intro mapE_pure) auto
  moreover have "concat (map (\<lambda>m. concat (map (\<lambda>l. l @ [10]) (mod_lines m (sort (avals (mod_set m)))))) ms) =
      concat (map (\<lambda>l. l @ [10]) (concat (map (\<lambda>m. mod_lines m (sort (avals (mod_set m)))) ms)))" for ms
    by (induction ms) simp_all
  ultimately show ?thesis
    by (simp add: modify_asLDIF_def modify_lines_def dn_attr_line(1) changetype_printed)
qed

lemma change_asLDIF_lines:
  assumes "change_ok op"
  shows "change_asLDIF op = Inr (concat (map (\<lambda>l. l @ [10]) (change_lines op @ [[]])))"
proof (cases op)
  case (ModifyOp m)
  then show ?thesis using assms modify_asLDIF_lines by simp
next
  case (AddOp e)
  then show ?thesis using assms add_asLDIF_lines by (auto split: sum.splits)
next
  case (DeleteOp d)
  then show ?thesis
    by (simp add: delete_asLDIF_def delete_lines_def dn_attr_line(1) changetype_printed)
qed (use assms in simp)

lemma change_lines_plain:
  assumes "change_ok op" "l \<in> set (change_lines op)"
  shows "plain_line l"
proof (cases op)
  case (ModifyOp m)
  then show ?thesis using assms mod_lines_plain dn_attr_line(2) changetype_attr_line(2)[OF changetype_texts(1)]
    by (auto simp: modify_lines_def)
next
  case (AddOp e)
  then show ?thesis using assms attr_lines_plain dn_line(1) changetype_attr_line(2)[OF changetype_texts(3)]
    by (auto simp: add_lines_def split: sum.splits)
next
  case (DeleteOp d)
  then show ?thesis using assms dn_attr_line(2) changetype_attr_line(2)[OF changetype_texts(2)]
    by (auto simp: delete_lines_def)
qed (use assms in simp)

lemma change_read_lines:
  assumes "change_ok op" "between_changes s"
  shows "foldE (lineReceived LDIFDelta_logicalLineReceived) (change_lines op @ [[]]) s =
    Inr (s\<lparr>lmode := WAIT_FOR_DN, collected := collected s @ [change_read op]\<rparr>)"
proof -
  have "foldE (lineReceived LDIFDelta_logicalLineReceived) (change_lines op @ [[]]) s =
      foldE LDIFDelta_logicalLineReceived (change_lines op @ [[]]) s"
    using change_lines_plain[OF assms(1)] assms(2) by (intro changes.block) (auto simp: between_changes_def)
  then show ?thesis
    using assms modify_read add_read delete_read by (cases op) (auto split: sum.splits)
qed

lemma changes_read:
  assumes "\<forall>op \<in> set ops. change_ok op" "between_changes s" "ops \<noteq> [] \<or> lmode s = WAIT_FOR_DN"
  shows "foldE (lineReceived LDIFDelta_logicalLineReceived) (concat (map (\<lambda>op. change_lines op @ [[]]) ops)) s =
    Inr (s\<lparr>lmode := WAIT_FOR_DN, collected := collected s @ map change_read ops\<rparr>)"
  using assms
proof (induction ops arbitrary: s)
  case (Cons op ops)
  let ?s = "s\<lparr>lmode := WAIT_FOR_DN, collected := collected s @ [change_read op]\<rparr>"
  have b: "between_changes ?s" using Cons.prems(2) by (simp add: between_changes_def)
  have one: "foldE (lineReceived LDIFDelta_logicalLineReceived) (change_lines op @ [[]]) s = Inr ?s"
    using Cons.prems by (intro change_read_lines) auto
  have c: "concat (map (\<lambda>op. change_lines op @ [[]]) (op # ops)) =
      (change_lines op @ [[]]) @ concat (map (\<lambda>op. change_lines op @ [[]]) ops)" by simp
  have rest: "\<forall>op \<in> set ops. change_ok op" "ops \<noteq> [] \<or> lmode ?s = WAIT_FOR_DN" using Cons.prems(1) by simp_all
  show ?case unfolding c foldE_append[of _ "change_lines op @ [[]]"] one bindE.simps Cons.IH[OF rest(1) b rest(2)] by simp
qed simp

lemma changes_text_read:
  assumes "\<forall>op \<in> set ops. change_ok op" "ops \<noteq> []" "mapE change_asLDIF ops = Inr texts"
  shows "receive_lines (lineReceived LDIFDelta_logicalLineReceived) (concat texts) LDIFDelta_init =
    Inr (LDIFDelta_init\<lparr>lmode := WAIT_FOR_DN, collected := map change_read ops\<rparr>, [])"
proof -
  let ?ls = "concat (map (\<lambda>op. change_lines op @ [[]]) ops)"
  have "mapE change_asLDIF ops = Inr (map (\<lambda>op. concat (map (\<lambda>l. l @ [10]) (change_lines op @ [[]]))) ops)"
    using change_asLDIF_lines assms(1) by (intro mapE_pure) auto
  moreover have "concat (map (\<lambda>op. concat (map (\<lambda>l. l @ [10]) (change_lines op @ [[]]))) ops) =
      concat (map (\<lambda>l. l @ [10]) ?ls)" by (induction ops) simp_all
  ultimately have whole: "concat texts = concat (map (\<lambda>l. l @ [10]) ?ls) @ []" using assms(3) by simp
  have nonl: "\<forall>l \<in> set ?ls. 10 \<notin> set l"
  proof
    fix l assume "l \<in> set ?ls"
    then obtain op where "op \<in> set ops" "l \<in> set (change_lines op) \<or> l = []" by (cases ops) (auto split: if_splits)
    then show "10 \<notin> set l" using change_lines_plain[of op l] assms(1) by (auto simp: plain_line_def)
  qed
  have b: "between_changes LDIFDelta_init" by (simp add: between_changes_def LDIFDelta_init_def)
  show ?thesis
    unfolding whole receive_lines_lines[OF nonl] changes_read[OF assms(1) b disjI1[OF assms(2)]]
    by (simp add: LDIFDelta_init_def)
qed

end
