(* ===== verification/Matching.thy ===== *)
theory Matching
  imports Delta
begin

text \<open>
  \<open>MatchMixin\<close> of \<open>entryhelpers.py\<close>: whether an entry matches a search filter, one case per class
  of filter, with the short circuits and the exceptions of the code; and what matching means,
  stated without them.
\<close>

section \<open>Comparing values\<close>

definition folded_value :: "pytext \<Rightarrow> bytes" where
  "folded_value v = blower (to_bytes v)"

text \<open>The attribute \<open>value\<close> of a member of a filter, which the decoder makes an octet string.\<close>

fun member_value :: "ber \<Rightarrow> exn + pytext" where
  "member_value (OOctetString k t v) = Inr v"
| "member_value _ = Inl OutsideModel"

text \<open>\<open>self.get(attr, []) or ()\<close>, and \<open>self[attr]\<close>, as lists of values.\<close>

definition get_values :: "entry \<Rightarrow> pytext \<Rightarrow> exn + pytext list" where
  "get_values self key =
     bindE (entry_get self key (Some [])) (\<lambda>r. Inr (case r of Some vs \<Rightarrow> vs | None \<Rightarrow> []))"

definition item_values :: "entry \<Rightarrow> pytext \<Rightarrow> exn + pytext list" where
  "item_values self key = bindE (entry_getitem self key) (\<lambda>a. Inr (avals a))"

text \<open>A loop that returns true at the first element that satisfies a test that may raise.\<close>

fun anyE :: "('a \<Rightarrow> exn + bool) \<Rightarrow> 'a list \<Rightarrow> exn + bool" where
  "anyE f [] = Inr False"
| "anyE f (x # xs) = bindE (f x) (\<lambda>b. if b then Inr True else anyE f xs)"

section \<open>Substrings\<close>

definition starts_with :: "'a list \<Rightarrow> 'a list \<Rightarrow> bool" where
  "starts_with x p \<longleftrightarrow> take (length p) x = p"

definition ends_with :: "'a list \<Rightarrow> 'a list \<Rightarrow> bool" where
  "ends_with x s \<longleftrightarrow> length s \<le> length x \<and> drop (length x - length s) x = s"

text \<open>\<open>x.find(pat)\<close>, with None for -1.\<close>

fun find_sub :: "'a list \<Rightarrow> 'a list \<Rightarrow> nat option" where
  "find_sub pat [] = (if pat = [] then Some 0 else None)"
| "find_sub pat (c # s) =
     (if starts_with (c # s) pat then Some 0 else map_option Suc (find_sub pat s))"

text \<open>\<open>x[: -n]\<close>, which for zero is \<open>x[:0]\<close>.\<close>

definition but_last :: "nat \<Rightarrow> 'a list \<Rightarrow> 'a list" where
  "but_last n x = (if n = 0 then [] else take (length x - n) x)"

text \<open>\<open>isinstance\<close> for the three classes of parts.\<close>

definition is_part :: "octet_cls \<Rightarrow> ber \<Rightarrow> bool" where
  "is_part k x \<longleftrightarrow> (case x of OOctetString k' t v \<Rightarrow> k' = k | _ \<Rightarrow> False)"

definition take_initial :: "bytes list \<Rightarrow> ber list \<Rightarrow> bytes list \<times> ber list" where
  "take_initial possible subs =
     (if subs \<noteq> [] \<and> is_part LDAPFilter_substrings_initial (hd subs) then
        let p = folded_value (svalue (hd subs)) in
        (map (drop (length p)) (filter (\<lambda>x. starts_with x p) possible), tl subs)
      else (possible, subs))"

definition take_final :: "bytes list \<Rightarrow> ber list \<Rightarrow> bytes list \<times> ber list" where
  "take_final possible subs =
     (if subs \<noteq> [] \<and> is_part LDAPFilter_substrings_final (last subs) then
        let s = folded_value (svalue (last subs)) in
        (map (but_last (length s)) (filter (\<lambda>x. ends_with x s) possible), butlast subs)
      else (possible, subs))"

text \<open>One round of the loop over the parts between: the found part itself is kept.\<close>

definition after_find :: "bytes \<Rightarrow> bytes list \<Rightarrow> bytes list" where
  "after_find pat possible =
     concat (map (\<lambda>x. case find_sub pat x of Some i \<Rightarrow> [drop i x] | None \<Rightarrow> []) possible)"

fun match_any :: "bytes list \<Rightarrow> ber list \<Rightarrow> exn + bool" where
  "match_any possible [] = Inr (possible \<noteq> [])"
| "match_any possible (x # subs) =
     (if possible = [] then Inr False
      else if is_part LDAPFilter_substrings_any x then
        match_any (after_find (folded_value (svalue x)) possible) subs
      else Inl AssertionError)"

definition match_substrings :: "bytes list \<Rightarrow> ber list \<Rightarrow> exn + bool" where
  "match_substrings possible subs =
     (let (possible1, subs1) = take_initial possible subs;
          (possible2, subs2) = take_final possible1 subs1
      in match_any possible2 subs2)"

section \<open>Filters\<close>

text \<open>The attribute types and values of the name of an entry.\<close>

definition name_avas :: "entry \<Rightarrow> ava list" where
  "name_avas self = concat (edn self)"

definition match_extensible :: "entry \<Rightarrow> ber option \<Rightarrow> ber option \<Rightarrow> ber \<Rightarrow> exn + bool" where
  "match_extensible self rule ty v =
     (if rule \<noteq> None then Inl MatchNotImplemented
      else
        bindE (case ty of None \<Rightarrow> Inr None | Some t \<Rightarrow> bindE (member_value t) (\<lambda>a. Inr (Some a)))
          (\<lambda>attrib.
        bindE (member_value v) (\<lambda>mv.
        let wanted = folded_value mv in
        bindE (case attrib of
                 None \<Rightarrow> Inr False
               | Some a \<Rightarrow>
                   bindE (get_values self a) (\<lambda>vs. Inr (\<exists>x \<in> set vs. folded_value x = wanted)))
          (\<lambda>found.
        if found then Inr True
        else
          Inr (\<exists>av \<in> set (name_avas self).
            (attrib = None \<or> attrib = Some (Str (attributeType av))) \<and>
            wanted = folded_value (Str (avalue av)))))))"

fun match :: "entry \<Rightarrow> ber \<Rightarrow> exn + bool" and match_all :: "entry \<Rightarrow> ber list \<Rightarrow> exn + bool"
  and match_some :: "entry \<Rightarrow> ber list \<Rightarrow> exn + bool" where
  "match self (OOctetString k t v) =
     (if k = LDAPFilter_present then bindE (get_strings v) (anyE (entry_has_key self))
      else Inl MatchNotImplemented)"
| "match self (OAttributeValueAssertion k t d v) =
     (if k = LDAPFilter_equalityMatch then
        (case v of
           None \<Rightarrow> Inl AssertionError
         | Some av \<Rightarrow>
             bindE (member_value av) (\<lambda>w. bindE (member_value d) (\<lambda>a.
             bindE (get_values self a) (\<lambda>vs.
               Inr (\<exists>x \<in> set vs. folded_value x = folded_value w)))))
      else if k = LDAPFilter_greaterOrEqual \<or> k = LDAPFilter_lessOrEqual then
        bindE (member_value d) (\<lambda>a. bindE (entry_has_key self a) (\<lambda>has.
          if \<not> has then Inr False
          else
            (case v of
               None \<Rightarrow> Inl AssertionError
             | Some av \<Rightarrow>
                 bindE (member_value av) (\<lambda>w. bindE (item_values self a) (\<lambda>vs.
                   Inr (\<exists>x \<in> set vs.
                     if k = LDAPFilter_greaterOrEqual then to_bytes w \<le> to_bytes x
                     else to_bytes x \<le> to_bytes w))))))
      else Inl MatchNotImplemented)"
| "match self (OFilter_substrings t ty subs) =
     bindE (entry_has_key self ty) (\<lambda>has.
       if \<not> has then Inr False
       else bindE (item_values self ty) (\<lambda>vs. match_substrings (map folded_value vs) subs))"
| "match self (OSequence k t fs) =
     (if k = LDAPFilter_and then match_all self fs
      else if k = LDAPFilter_or then match_some self fs
      else Inl MatchNotImplemented)"
| "match self (OFilter_not t f) = bindE (match self f) (\<lambda>b. Inr (\<not> b))"
| "match self (OMatchingRuleAssertion k t rule ty v d) =
     (if k = LDAPFilter_extensibleMatch then match_extensible self rule ty v
      else Inl MatchNotImplemented)"
| "match self _ = Inl MatchNotImplemented"
| "match_all self [] = Inr True"
| "match_all self (f # fs) = bindE (match self f) (\<lambda>b. if b then match_all self fs else Inr False)"
| "match_some self [] = Inr False"
| "match_some self (f # fs) = bindE (match self f) (\<lambda>b. if b then Inr True else match_some self fs)"

section \<open>Lemmas: spellings of attribute types\<close>

lemma byte_eqI: "(\<And>n. n \<in> {0, 1, 2, 3, 4, 5, 6, 7} \<Longrightarrow> bit a n = bit b n) \<Longrightarrow> a = b" for a b :: byte
proof (rule bit_word_eqI)
  fix n assume n: "n < LENGTH(8)"
  assume eq: "\<And>n. n \<in> {0, 1, 2, 3, 4, 5, 6, 7} \<Longrightarrow> bit a n = bit b n"
  have "n \<in> {0, 1, 2, 3, 4, 5, 6, 7}" using n by auto
  then show "bit a n = bit b n" by (rule eq)
qed

lemma high_bit: "bit x 7 \<Longrightarrow> \<not> x < (0x80 :: byte)"
proof
  assume b: "bit x 7" and "x < 0x80"
  then have "unat x < 128" by (simp add: word_less_nat_alt)
  then have "\<not> bit (unat x) 7" by (simp add: bit_nat_def)
  then show False using b by (simp add: bit_unsigned_iff)
qed

lemma utf8_two_bytes:
  assumes v: "(v :: byte) AND 0xC0 = 0x80" and w: "w = 0xC2 \<or> w = 0xC3"
  shows "utf8_char (char_of (unat (push_bit 6 (w AND 0x1F) OR (v AND 0x3F)))) = [w, v]"
proof -
  let ?x = "push_bit 6 (w AND 0x1F) OR (v AND 0x3F)"
  have "bit (v AND 0xC0) 7 = bit (0x80 :: byte) 7" "bit (v AND 0xC0) 6 = bit (0x80 :: byte) 6"
    using v by simp_all
  then have b: "bit v 7" "\<not> bit v 6" by (simp_all add: bit_simps)
  have "bit ?x 7" using w by (auto simp: bit_simps)
  then have "\<not> ?x < 0x80" by (rule high_bit)
  moreover have "0xC0 OR drop_bit 6 ?x = w" by (rule byte_eqI) (use w in \<open>auto simp: bit_simps\<close>)
  moreover have "0x80 OR (?x AND 0x3F) = v" by (rule byte_eqI) (use b in \<open>auto simp: bit_simps\<close>)
  ultimately show ?thesis by (simp only: utf8_char_def Let_def of_char_char_of_byte if_False)
qed

lemma utf8_encode_decode: "utf8_decode b = Inr s \<Longrightarrow> utf8_encode s = b"
proof (induction b arbitrary: s rule: utf8_decode.induct)
  case (2 w ws)
  show ?case
  proof (cases "w < 0x80")
    case True
    then obtain r where "utf8_decode ws = Inr r" "s = char_of (unat w) # r" using 2(3) by auto
    then show ?thesis using 2(1) True by (simp add: utf8_char_def)
  next
    case False
    then obtain v vs where ws: "ws = v # vs" "w = 0xC2 \<or> w = 0xC3" "v AND 0xC0 = 0x80"
      using 2(3) by (auto split: if_splits list.splits)
    then obtain r where r: "utf8_decode vs = Inr r"
        "s = char_of (unat (push_bit 6 (w AND 0x1F) OR (v AND 0x3F))) # r"
      using 2(3) False by (auto split: if_splits)
    let ?x = "push_bit 6 (w AND 0x1F) OR (v AND 0x3F)"
    have "utf8_encode r = vs" using 2(2)[OF False ws(2,1,3) r(1)] .
    moreover have "utf8_char (char_of (unat ?x)) = [w, v]" by (rule utf8_two_bytes[OF ws(3,2)])
    ultimately show ?thesis using r(2) ws(1) by simp
  qed
qed simp

lemma get_strings_spellings:
  "get_strings v = Inr ks \<longleftrightarrow>
   (\<exists>s. to_unicode v = Inr s \<and> ks = (if is_str v then [Str s, Byt (utf8_encode s)] else [Byt (utf8_encode s), Str s]))"
  by (cases v) (auto simp: utf8_encode_decode)

lemma text_ok_unicode: "text_ok v \<longleftrightarrow> (\<exists>s. to_unicode v = Inr s)"
  by (cases v) (auto simp: text_ok_def bindE_eq_Inl split: sum.splits)

section \<open>What matching means\<close>

text \<open>The entry has an attribute under the text or under its bytes; the values found there.\<close>

definition has_attr :: "entry \<Rightarrow> pytext \<Rightarrow> bool" where
  "has_attr e v \<longleftrightarrow>
     (\<exists>s. to_unicode v = Inr s \<and>
       (id_contains (eattrs e) (Str s) \<or> id_contains (eattrs e) (Byt (utf8_encode s))))"

definition attr_list :: "entry \<Rightarrow> pytext \<Rightarrow> pytext list" where
  "attr_list e v = (case get_values e v of Inr vs \<Rightarrow> vs | Inl exc \<Rightarrow> [])"

lemma entry_has_key_attr: "text_ok v \<Longrightarrow> entry_has_key e v = Inr (has_attr e v)"
proof -
  assume "text_ok v"
  then obtain s where s: "to_unicode v = Inr s" by (auto simp: text_ok_unicode)
  have "\<exists>ks. get_strings v = Inr ks \<and> set ks = {Str s, Byt (utf8_encode s)}"
    using s by (cases "is_str v") (auto simp: get_strings_spellings)
  then obtain ks where ks: "get_strings v = Inr ks" "set ks = {Str s, Byt (utf8_encode s)}" by blast
  have "find (id_contains (eattrs e)) ks \<noteq> None \<longleftrightarrow> (\<exists>k \<in> set ks. id_contains (eattrs e) k)"
    by (metis find_None_iff)
  also have "\<dots> \<longleftrightarrow> has_attr e v" unfolding ks(2) has_attr_def s by simp
  finally show ?thesis by (simp only: entry_has_key_def find_spelling_def ks(1) bindE.simps)
qed

lemma id_getitem_contains: "id_contains m k \<Longrightarrow> \<exists>v. id_getitem m k = Inr v"
  using insensitive.getitem_has by metis

lemma find_spelling_attr:
  assumes "text_ok v"
  obtains k where "find_spelling e v = Inr k" "k \<noteq> None \<longleftrightarrow> has_attr e v"
    "\<And>k'. k = Some k' \<Longrightarrow> \<exists>a. id_getitem (eattrs e) k' = Inr a"
proof -
  obtain k where k: "find_spelling e v = Inr k" "k \<noteq> None \<longleftrightarrow> has_attr e v"
    using entry_has_key_attr[OF assms, of e] by (auto simp: entry_has_key_def)
  have "id_contains (eattrs e) k'" if "k = Some k'" for k'
    using k(1) that by (auto simp: find_spelling_def find_Some_iff)
  then show ?thesis using that[OF k] id_getitem_contains by blast
qed

lemma get_values_attr:
  assumes "text_ok v"
  shows "get_values e v = Inr (attr_list e v)" and "has_attr e v \<Longrightarrow> item_values e v = Inr (attr_list e v)"
    and "\<not> has_attr e v \<Longrightarrow> attr_list e v = []"
proof -
  obtain k where k: "find_spelling e v = Inr k" "k \<noteq> None \<longleftrightarrow> has_attr e v"
    "\<And>k'. k = Some k' \<Longrightarrow> \<exists>a. id_getitem (eattrs e) k' = Inr a"
    using find_spelling_attr[OF assms, of e] by metis
  have "get_values e v = Inr (attr_list e v) \<and> (has_attr e v \<longrightarrow> item_values e v = Inr (attr_list e v)) \<and>
      (\<not> has_attr e v \<longrightarrow> attr_list e v = [])"
  proof (cases k)
    case None
    then have "get_values e v = Inr []" using k(1) by (simp add: get_values_def entry_get_def)
    then show ?thesis using k(2) None by (simp add: attr_list_def)
  next
    case (Some k')
    then obtain a where a: "id_getitem (eattrs e) k' = Inr a" using k(3) by blast
    then have "get_values e v = Inr (avals a)" "item_values e v = Inr (avals a)"
      using k(1) Some by (simp_all add: get_values_def entry_get_def item_values_def entry_getitem_def)
    then show ?thesis using k(2) Some by (simp add: attr_list_def)
  qed
  then show "get_values e v = Inr (attr_list e v)" "has_attr e v \<Longrightarrow> item_values e v = Inr (attr_list e v)"
    "\<not> has_attr e v \<Longrightarrow> attr_list e v = []" by auto
qed

text \<open>
  The parts of a substrings filter as values: what comes first, what comes last (each empty when
  it is not given) and what lies between; and the values that are made of them.
\<close>

definition split_parts :: "ber list \<Rightarrow> bytes \<times> ber list \<times> bytes" where
  "split_parts subs =
     (let (i, r) = (if subs \<noteq> [] \<and> is_part LDAPFilter_substrings_initial (hd subs)
            then (folded_value (svalue (hd subs)), tl subs) else ([], subs));
          (f, m) = (if r \<noteq> [] \<and> is_part LDAPFilter_substrings_final (last r)
            then (folded_value (svalue (last r)), butlast r) else ([], r))
      in (i, m, f))"

fun in_order :: "bytes list \<Rightarrow> bytes \<Rightarrow> bool" where
  "in_order [] x \<longleftrightarrow> True"
| "in_order (p # ps) x \<longleftrightarrow> (\<exists>pre post. x = pre @ p @ post \<and> in_order ps post)"

definition made_of :: "bytes \<times> ber list \<times> bytes \<Rightarrow> bytes \<Rightarrow> bool" where
  "made_of parts x \<longleftrightarrow>
     (case parts of (i, m, f) \<Rightarrow>
        \<exists>mid. x = i @ mid @ f \<and> in_order (map (\<lambda>p. folded_value (svalue p)) m) mid)"

fun holds :: "entry \<Rightarrow> ber \<Rightarrow> bool" where
  "holds e (OOctetString k t v) \<longleftrightarrow> has_attr e v"
| "holds e (OAttributeValueAssertion k t d v) \<longleftrightarrow>
     (\<exists>x \<in> set (attr_list e (svalue d)).
        if k = LDAPFilter_equalityMatch then folded_value x = folded_value (svalue (the v))
        else if k = LDAPFilter_greaterOrEqual then to_bytes (svalue (the v)) \<le> to_bytes x
        else to_bytes x \<le> to_bytes (svalue (the v)))"
| "holds e (OFilter_substrings t ty subs) \<longleftrightarrow>
     (\<exists>x \<in> set (attr_list e ty). made_of (split_parts subs) (folded_value x))"
| "holds e (OSequence k t fs) \<longleftrightarrow>
     (if k = LDAPFilter_and then \<forall>f \<in> set fs. holds e f else \<exists>f \<in> set fs. holds e f)"
| "holds e (OFilter_not t f) \<longleftrightarrow> \<not> holds e f"
| "holds e (OMatchingRuleAssertion k t rule ty v d) \<longleftrightarrow>
     (\<exists>a. ty = Some a \<and> (\<exists>x \<in> set (attr_list e (svalue a)). folded_value x = folded_value (svalue v))) \<or>
     (\<exists>av \<in> set (name_avas e).
        (\<forall>a. ty = Some a \<longrightarrow> svalue a = Str (attributeType av)) \<and>
        folded_value (svalue v) = folded_value (Str (avalue av)))"
| "holds e _ \<longleftrightarrow> False"

fun is_octets :: "ber \<Rightarrow> bool" where
  "is_octets (OOctetString k t v) \<longleftrightarrow> True"
| "is_octets _ \<longleftrightarrow> False"

text \<open>Filters whose attribute types decode and whose kinds the code implements.\<close>

definition named :: "ber \<Rightarrow> bool" where
  "named d \<longleftrightarrow> is_octets d \<and> text_ok (svalue d)"

text \<open>Filters whose attribute types decode, of the kinds that the code implements.\<close>

fun supported :: "(ber list \<Rightarrow> bool) \<Rightarrow> ber \<Rightarrow> bool" where
  "supported P (OOctetString k t v) \<longleftrightarrow> k = LDAPFilter_present \<and> text_ok v"
| "supported P (OAttributeValueAssertion k t d v) \<longleftrightarrow>
     k \<in> {LDAPFilter_equalityMatch, LDAPFilter_greaterOrEqual, LDAPFilter_lessOrEqual} \<and>
     named d \<and> (case v of None \<Rightarrow> False | Some av \<Rightarrow> is_octets av)"
| "supported P (OFilter_substrings t ty subs) \<longleftrightarrow> text_ok ty \<and> P subs"
| "supported P (OSequence k t fs) \<longleftrightarrow>
     (k = LDAPFilter_and \<or> k = LDAPFilter_or) \<and> (\<forall>f \<in> set fs. supported P f)"
| "supported P (OFilter_not t f) \<longleftrightarrow> supported P f"
| "supported P (OMatchingRuleAssertion k t rule ty v d) \<longleftrightarrow>
     k = LDAPFilter_extensibleMatch \<and> rule = None \<and> (\<forall>a. ty = Some a \<longrightarrow> named a) \<and> is_octets v"
| "supported P _ \<longleftrightarrow> False"

text \<open>At most a first and a last part, the latter not empty.\<close>

definition no_empty_final :: "ber list \<Rightarrow> bool" where
  "no_empty_final subs \<longleftrightarrow> \<not> (is_part LDAPFilter_substrings_final (last subs) \<and> to_bytes (svalue (last subs)) = [])"

definition ends_only :: "ber list \<Rightarrow> bool" where
  "ends_only subs \<longleftrightarrow> fst (snd (split_parts subs)) = [] \<and> no_empty_final subs"

section \<open>Lemmas: substrings\<close>

lemma find_sub_Some: "find_sub pat x = Some i \<Longrightarrow> \<exists>pre post. x = pre @ pat @ post \<and> length pre = i"
proof (induction x arbitrary: i)
  case (Cons c s)
  show ?case
  proof (cases "starts_with (c # s) pat")
    case True
    then have "c # s = [] @ pat @ drop (length pat) (c # s)" by (metis append_Nil append_take_drop_id starts_with_def)
    then show ?thesis using True Cons.prems by (metis find_sub.simps(2) list.size(3) option.inject)
  next
    case False
    then obtain j where "find_sub pat s = Some j" "i = Suc j" using Cons.prems by auto
    with Cons.IH obtain pre post where "s = pre @ pat @ post" "length pre = j" by blast
    then have "c # s = (c # pre) @ pat @ post" "length (c # pre) = i" using \<open>i = Suc j\<close> by simp_all
    then show ?thesis by blast
  qed
qed (auto split: if_splits)

lemma find_sub_leftmost: "find_sub pat (pre @ pat @ post) \<noteq> None \<and>
    the (find_sub pat (pre @ pat @ post)) \<le> length pre"
proof (induction pre)
  case Nil
  have "starts_with (pat @ post) pat" by (simp add: starts_with_def)
  then show ?case by (cases "pat @ post") (auto simp: starts_with_def)
next
  case (Cons c pre)
  then show ?case by auto
qed

text \<open>The loop over the parts between, on one value.\<close>

fun loose :: "bytes list \<Rightarrow> bytes \<Rightarrow> bool" where
  "loose [] x \<longleftrightarrow> True"
| "loose (p # ps) x \<longleftrightarrow> (\<exists>i. find_sub p x = Some i \<and> loose ps (drop i x))"

lemma match_any_loose:
  "\<forall>x \<in> set m. is_part LDAPFilter_substrings_any x \<Longrightarrow>
   match_any possible m = Inr (\<exists>x \<in> set possible. loose (map (\<lambda>p. folded_value (svalue p)) m) x)"
proof (induction m arbitrary: possible)
  case Nil
  then show ?case by (cases possible) auto
next
  case (Cons p m)
  have "x \<in> set (after_find q possible) \<longleftrightarrow> (\<exists>y \<in> set possible. \<exists>i. find_sub q y = Some i \<and> x = drop i y)" for q x
    by (auto simp: after_find_def split: option.splits) metis+
  then have "(\<exists>x \<in> set (after_find q possible). loose ps x) \<longleftrightarrow> (\<exists>x \<in> set possible. loose (q # ps) x)" for q ps
    by (metis loose.simps(2))
  then show ?case using Cons by auto
qed

lemma in_order_longer: "in_order ps x \<Longrightarrow> in_order ps (w @ x)"
  by (cases ps) (auto, metis append_assoc)

text \<open>What is in order is found: keeping the found part only makes more match.\<close>

lemma in_order_loose: "in_order ps x \<Longrightarrow> loose ps x"
proof (induction ps arbitrary: x)
  case (Cons p ps)
  then obtain pre post where x: "x = pre @ p @ post" "in_order ps post" by auto
  obtain i where i: "find_sub p x = Some i" "i \<le> length pre"
    using find_sub_leftmost[of p pre post] x(1) by auto
  have "drop i x = (drop i pre @ p) @ post" using i(2) x(1) by simp
  then have "in_order ps (drop i x)" using in_order_longer[OF x(2)] by metis
  then show ?case using Cons.IH i(1) by auto
qed simp

text \<open>What the code does with the parts, in one equation.\<close>

definition passes :: "bytes \<times> ber list \<times> bytes \<Rightarrow> bytes \<Rightarrow> bool" where
  "passes parts x \<longleftrightarrow>
     (case parts of (i, m, f) \<Rightarrow>
        \<exists>mid. x = i @ mid @ f \<and> loose (map (\<lambda>p. folded_value (svalue p)) m) mid)"

lemma starts_with_iff: "starts_with x p \<longleftrightarrow> (\<exists>y. x = p @ y)"
  by (metis append_eq_conv_conj append_take_drop_id starts_with_def)

lemma ends_with_iff: "ends_with x s \<longleftrightarrow> (\<exists>y. x = y @ s)"
  by (auto simp: ends_with_def) (metis append_take_drop_id)

lemma match_substrings_passes:
  assumes "\<forall>x \<in> set (fst (snd (split_parts subs))). is_part LDAPFilter_substrings_any x" "no_empty_final subs"
  shows "match_substrings possible subs = Inr (\<exists>x \<in> set possible. passes (split_parts subs) x)"
proof -
  define r where "r = (if subs \<noteq> [] \<and> is_part LDAPFilter_substrings_initial (hd subs) then tl subs else subs)"
  obtain i m f where p: "split_parts subs = (i, m, f)" by (cases "split_parts subs")
  have ini: "take_initial possible subs = (map (drop (length i)) (filter (\<lambda>x. starts_with x i) possible), r)"
    using p by (auto simp: split_parts_def take_initial_def r_def Let_def starts_with_def map_idI split: if_splits)
  have last: "r \<noteq> [] \<Longrightarrow> last r = last subs" by (cases subs) (auto simp: r_def)
  have fin: "take_final poss r = (map (\<lambda>x. take (length x - length f) x) (filter (\<lambda>x. ends_with x f) poss), m)" for poss
  proof (cases "r \<noteq> [] \<and> is_part LDAPFilter_substrings_final (last r)")
    case True
    then have "f = folded_value (svalue (last r))" "m = butlast r" using p
      by (auto simp: split_parts_def r_def Let_def split: if_splits)
    moreover have "f \<noteq> []" using True assms(2) last \<open>f = _\<close>
      by (auto simp: no_empty_final_def folded_value_def blower_def)
    ultimately show ?thesis using True by (auto simp: take_final_def Let_def but_last_def)
  next
    case False
    then have "f = []" "m = r" using p by (auto simp: split_parts_def r_def Let_def split: if_splits)
    then show ?thesis using False by (auto simp: take_final_def ends_with_def map_idI)
  qed
  have "match_substrings possible subs = Inr (\<exists>x \<in> set (map (\<lambda>x. take (length x - length f) x)
      (filter (\<lambda>x. ends_with x f) (map (drop (length i)) (filter (\<lambda>x. starts_with x i) possible)))).
        loose (map (\<lambda>p. folded_value (svalue p)) m) x)"
    using assms(1) by (simp add: match_substrings_def ini fin match_any_loose p)
  also have "\<dots> = Inr (\<exists>x \<in> set possible. passes (i, m, f) x)"
    by (force simp: passes_def starts_with_iff ends_with_iff)
  finally show ?thesis by (simp add: p)
qed

section \<open>Lemmas: the code against the meaning\<close>

lemma passes_made_of: "fst (snd parts) = [] \<Longrightarrow> passes parts x = made_of parts x"
  by (cases parts) (auto simp: passes_def made_of_def)

lemma made_of_passes: "made_of parts x \<Longrightarrow> passes parts x"
  using in_order_loose by (cases parts) (auto simp: passes_def made_of_def)

lemma named_value: "is_octets d \<Longrightarrow> member_value d = Inr (svalue d)"
  by (cases d) simp_all

lemma match_substrings_filter:
  assumes "text_ok ty" "\<forall>x \<in> set (fst (snd (split_parts subs))). is_part LDAPFilter_substrings_any x"
    "no_empty_final subs"
  shows "match e (OFilter_substrings t ty subs) =
    Inr (\<exists>x \<in> set (attr_list e ty). passes (split_parts subs) (folded_value x))"
  using assms match_substrings_passes[OF assms(2,3)]
  by (cases "has_attr e ty") (simp_all add: entry_has_key_attr get_values_attr)

lemma match_holds: "supported ends_only f \<Longrightarrow> match e f = Inr (holds e f)"
  and match_all_holds: "\<forall>f \<in> set fs. supported ends_only f \<Longrightarrow> match_all e fs = Inr (\<forall>f \<in> set fs. holds e f)"
  and match_some_holds: "\<forall>f \<in> set fs. supported ends_only f \<Longrightarrow> match_some e fs = Inr (\<exists>f \<in> set fs. holds e f)"
proof (induction e f and e fs and e fs rule: match_match_all_match_some.induct)
  case (1 e k t v)
  then obtain s where "to_unicode v = Inr s" by (auto simp: text_ok_unicode)
  then have ks: "get_strings v = Inr (if is_str v then [Str s, Byt (utf8_encode s)] else [Byt (utf8_encode s), Str s])"
    by (simp add: get_strings_spellings)
  moreover have "text_ok (Str s)" "text_ok (Byt (utf8_encode s))" by (simp_all add: text_ok_unicode)
  moreover have "has_attr e (Str s) = has_attr e v" "has_attr e (Byt (utf8_encode s)) = has_attr e v"
    using \<open>to_unicode v = Inr s\<close> by (simp_all add: has_attr_def)
  ultimately show ?case using 1 by (simp add: entry_has_key_attr)
next
  case (2 e k t d v)
  then obtain av where v: "v = Some av" "is_octets av" by (auto split: option.splits)
  have d: "is_octets d" "text_ok (svalue d)" using 2 by (simp_all add: named_def)
  show ?case using 2 v d get_values_attr[OF d(2), of e]
    by (cases "has_attr e (svalue d)") (auto simp: named_value entry_has_key_attr)
next
  case (3 e t ty subs)
  then have s: "text_ok ty" "fst (snd (split_parts subs)) = []" "no_empty_final subs"
    by (simp_all add: ends_only_def)
  then show ?case using match_substrings_filter[of ty subs e t] passes_made_of by simp
next
  case (6 e k t rule ty v d)
  have v: "is_octets v" using 6 by simp
  show ?case
  proof (cases ty)
    case None
    then show ?thesis using 6 v by (simp add: match_extensible_def named_value)
  next
    case (Some a)
    then have a: "is_octets a" "text_ok (svalue a)" using 6 by (simp_all add: named_def)
    then show ?thesis using 6 v Some get_values_attr(1)[OF a(2)]
      by (simp add: match_extensible_def named_value Let_def)
  qed
qed auto

end
