(* ===== verification/LdapErrors.thy ===== *)
theory LdapErrors
  imports PyText
begin

text \<open>
  \<open>protocols/ldap/ldaperrors.py\<close>: the result codes and their names. An LDAP exception is the
  value \<open>LDAPException code message\<close> of the exceptions; its class is found by its code. The class
  that the registry gives for a code is a constructor of \<open>ldap_error\<close>, in the order of the code.
\<close>

datatype ldap_error =
    Success | LDAPOperationsError | LDAPProtocolError | LDAPTimeLimitExceeded | LDAPSizeLimitExceeded
  | LDAPCompareFalse | LDAPCompareTrue | LDAPAuthMethodNotSupported | LDAPStrongAuthRequired
  | LDAPReferralError | LDAPAdminLimitExceeded | LDAPUnavailableCriticalExtension
  | LDAPConfidentialityRequired | LDAPSaslBindInProgress | LDAPNoSuchAttribute
  | LDAPUndefinedAttributeType | LDAPInappropriateMatching | LDAPConstraintViolation
  | LDAPAttributeOrValueExists | LDAPInvalidAttributeSyntax | LDAPNoSuchObject | LDAPAliasProblem
  | LDAPInvalidDNSyntax | LDAPAliasDereferencingProblem | LDAPInappropriateAuthentication
  | LDAPInvalidCredentials | LDAPInsufficientAccessRights | LDAPBusy | LDAPUnavailable
  | LDAPUnwillingToPerform | LDAPLoopDetect | LDAPNamingViolation | LDAPObjectClassViolation
  | LDAPNotAllowedOnNonLeaf | LDAPNotAllowedOnRDN | LDAPEntryAlreadyExists
  | LDAPObjectClassModsProhibited | LDAPAffectsMultipleDSAs | LDAPOther

fun result_code :: "ldap_error \<Rightarrow> int" where
  "result_code Success = 0"
| "result_code LDAPOperationsError = 1"
| "result_code LDAPProtocolError = 2"
| "result_code LDAPTimeLimitExceeded = 3"
| "result_code LDAPSizeLimitExceeded = 4"
| "result_code LDAPCompareFalse = 5"
| "result_code LDAPCompareTrue = 6"
| "result_code LDAPAuthMethodNotSupported = 7"
| "result_code LDAPStrongAuthRequired = 8"
| "result_code LDAPReferralError = 10"
| "result_code LDAPAdminLimitExceeded = 11"
| "result_code LDAPUnavailableCriticalExtension = 12"
| "result_code LDAPConfidentialityRequired = 13"
| "result_code LDAPSaslBindInProgress = 14"
| "result_code LDAPNoSuchAttribute = 16"
| "result_code LDAPUndefinedAttributeType = 17"
| "result_code LDAPInappropriateMatching = 18"
| "result_code LDAPConstraintViolation = 19"
| "result_code LDAPAttributeOrValueExists = 20"
| "result_code LDAPInvalidAttributeSyntax = 21"
| "result_code LDAPNoSuchObject = 32"
| "result_code LDAPAliasProblem = 33"
| "result_code LDAPInvalidDNSyntax = 34"
| "result_code LDAPAliasDereferencingProblem = 36"
| "result_code LDAPInappropriateAuthentication = 48"
| "result_code LDAPInvalidCredentials = 49"
| "result_code LDAPInsufficientAccessRights = 50"
| "result_code LDAPBusy = 51"
| "result_code LDAPUnavailable = 52"
| "result_code LDAPUnwillingToPerform = 53"
| "result_code LDAPLoopDetect = 54"
| "result_code LDAPNamingViolation = 64"
| "result_code LDAPObjectClassViolation = 65"
| "result_code LDAPNotAllowedOnNonLeaf = 66"
| "result_code LDAPNotAllowedOnRDN = 67"
| "result_code LDAPEntryAlreadyExists = 68"
| "result_code LDAPObjectClassModsProhibited = 69"
| "result_code LDAPAffectsMultipleDSAs = 71"
| "result_code LDAPOther = 80"

fun error_name :: "ldap_error \<Rightarrow> string" where
  "error_name Success = ''success''"
| "error_name LDAPOperationsError = ''operationsError''"
| "error_name LDAPProtocolError = ''protocolError''"
| "error_name LDAPTimeLimitExceeded = ''timeLimitExceeded''"
| "error_name LDAPSizeLimitExceeded = ''sizeLimitExceeded''"
| "error_name LDAPCompareFalse = ''compareFalse''"
| "error_name LDAPCompareTrue = ''compareTrue''"
| "error_name LDAPAuthMethodNotSupported = ''authMethodNotSupported''"
| "error_name LDAPStrongAuthRequired = ''strongAuthRequired''"
| "error_name LDAPReferralError = ''referral''"
| "error_name LDAPAdminLimitExceeded = ''adminLimitExceeded''"
| "error_name LDAPUnavailableCriticalExtension = ''unavailableCriticalExtension''"
| "error_name LDAPConfidentialityRequired = ''confidentialityRequired''"
| "error_name LDAPSaslBindInProgress = ''saslBindInProgress''"
| "error_name LDAPNoSuchAttribute = ''noSuchAttribute''"
| "error_name LDAPUndefinedAttributeType = ''undefinedAttributeType''"
| "error_name LDAPInappropriateMatching = ''inappropriateMatching''"
| "error_name LDAPConstraintViolation = ''constraintViolation''"
| "error_name LDAPAttributeOrValueExists = ''attributeOrValueExists''"
| "error_name LDAPInvalidAttributeSyntax = ''invalidAttributeSyntax''"
| "error_name LDAPNoSuchObject = ''noSuchObject''"
| "error_name LDAPAliasProblem = ''aliasProblem''"
| "error_name LDAPInvalidDNSyntax = ''invalidDNSyntax''"
| "error_name LDAPAliasDereferencingProblem = ''aliasDereferencingProblem''"
| "error_name LDAPInappropriateAuthentication = ''inappropriateAuthentication''"
| "error_name LDAPInvalidCredentials = ''invalidCredentials''"
| "error_name LDAPInsufficientAccessRights = ''insufficientAccessRights''"
| "error_name LDAPBusy = ''busy''"
| "error_name LDAPUnavailable = ''unavailable''"
| "error_name LDAPUnwillingToPerform = ''unwillingToPerform''"
| "error_name LDAPLoopDetect = ''loopDetect''"
| "error_name LDAPNamingViolation = ''namingViolation''"
| "error_name LDAPObjectClassViolation = ''objectClassViolation''"
| "error_name LDAPNotAllowedOnNonLeaf = ''notAllowedOnNonLeaf''"
| "error_name LDAPNotAllowedOnRDN = ''notAllowedOnRDN''"
| "error_name LDAPEntryAlreadyExists = ''entryAlreadyExists''"
| "error_name LDAPObjectClassModsProhibited = ''objectClassModsProhibited''"
| "error_name LDAPAffectsMultipleDSAs = ''affectsMultipleDSAs''"
| "error_name LDAPOther = ''other''"

text \<open>The registry: every class that has a result code, under that code.\<close>

definition error_classes :: "ldap_error list" where
  "error_classes =
     [Success, LDAPOperationsError, LDAPProtocolError, LDAPTimeLimitExceeded, LDAPSizeLimitExceeded,
      LDAPCompareFalse, LDAPCompareTrue, LDAPAuthMethodNotSupported, LDAPStrongAuthRequired,
      LDAPReferralError, LDAPAdminLimitExceeded, LDAPUnavailableCriticalExtension,
      LDAPConfidentialityRequired, LDAPSaslBindInProgress, LDAPNoSuchAttribute,
      LDAPUndefinedAttributeType, LDAPInappropriateMatching, LDAPConstraintViolation,
      LDAPAttributeOrValueExists, LDAPInvalidAttributeSyntax, LDAPNoSuchObject, LDAPAliasProblem,
      LDAPInvalidDNSyntax, LDAPAliasDereferencingProblem, LDAPInappropriateAuthentication,
      LDAPInvalidCredentials, LDAPInsufficientAccessRights, LDAPBusy, LDAPUnavailable,
      LDAPUnwillingToPerform, LDAPLoopDetect, LDAPNamingViolation, LDAPObjectClassViolation,
      LDAPNotAllowedOnNonLeaf, LDAPNotAllowedOnRDN, LDAPEntryAlreadyExists,
      LDAPObjectClassModsProhibited, LDAPAffectsMultipleDSAs, LDAPOther]"

definition error_collection :: "(int \<times> ldap_error) list" where
  "error_collection = map (\<lambda>c. (result_code c, c)) error_classes"

text \<open>An instance: a known class with its message, or an unknown code.\<close>

datatype ldap_result_instance = Known ldap_error "pytext option" | LDAPUnknownError int "pytext option"

text \<open>\<open>get_instance\<close>; \<open>Success\<close> drops the message it is given.\<close>

definition get_instance :: "int \<Rightarrow> pytext \<Rightarrow> ldap_result_instance" where
  "get_instance code message =
     (case map_of error_collection code of
        Some c \<Rightarrow> Known c (if c = Success then None else Some message)
      | None \<Rightarrow> LDAPUnknownError code (Some message))"

definition get_exception :: "int \<Rightarrow> pytext \<Rightarrow> exn + ldap_result_instance" where
  "get_exception code message =
     (case get_instance code message of
        Known c m \<Rightarrow> if c = Success then Inl AssertionError else Inr (Known c m)
      | r \<Rightarrow> Inr r)"

section \<open>Text\<close>

text \<open>\<open>str\<close> of an integer.\<close>

fun nat_digits :: "nat \<Rightarrow> string" where
  "nat_digits n =
     (if n < 10 then [char_of (48 + n)] else nat_digits (n div 10) @ [char_of (48 + n mod 10)])"

declare nat_digits.simps [simp del]

definition int_text :: "int \<Rightarrow> string" where
  "int_text i = (if i < 0 then CHR ''-'' # nat_digits (nat (- i)) else nat_digits (nat i))"

fun message_given :: "pytext option \<Rightarrow> bool" where
  "message_given None \<longleftrightarrow> False"
| "message_given (Some m) \<longleftrightarrow> to_bytes m \<noteq> []"

fun exception_toWire :: "ldap_result_instance \<Rightarrow> bytes" where
  "exception_toWire (Known c message) =
     lit (error_name c) @ (if message_given message then lit '': '' @ to_bytes (the message) else [])"
| "exception_toWire (LDAPUnknownError code message) =
     lit ''unknownError('' @ lit (int_text code) @ lit '')''
     @ (if message_given message then lit '': '' @ to_bytes (the message) else [])"

text \<open>The exception of a known class, as the exceptions have it.\<close>

definition raiseE :: "ldap_error \<Rightarrow> pytext option \<Rightarrow> exn" where
  "raiseE c message = LDAPException (result_code c) message"

section \<open>Lemmas\<close>

lemma result_code_inj: "result_code a = result_code b \<Longrightarrow> a = b"
  by (cases a; cases b; simp only: result_code.simps; simp)

lemma all_error_classes: "c \<in> set error_classes"
  by (cases c) (simp_all add: error_classes_def)

lemma get_instance_code: "map_of error_collection (result_code c) = Some c"
proof -
  have "distinct (map fst error_collection)" unfolding error_collection_def error_classes_def
    by (simp only: list.map fst_conv result_code.simps) simp
  moreover have "(result_code c, c) \<in> set error_collection"
    using all_error_classes[of c] by (auto simp: error_collection_def)
  ultimately show ?thesis by simp
qed

end
