(* ===== verification/InMemory.thy ===== *)
theory InMemory
  imports Matching LdapErrors LdifProtocol
begin

text \<open>
  \<open>inmemory.py\<close> with the mixins of \<open>entryhelpers.py\<close>: the tree of entries. An object is a node with
  an identity of its own; its parent is where it stands, so a reference to an object that is used at
  once is the path of dictionary keys that leads to it from the root. An entry that leaves the tree
  is handed back, since references to it may remain. Changes that fail half way leave what they have
  done, so they give the exception that escaped, if any, beside the tree as it is then.
\<close>

section \<open>Nodes\<close>

datatype node = Node (nid: nat) (nentry: entry) (nchildren: "(string \<times> node) list")

type_synonym path = "string list"

fun at_path :: "path \<Rightarrow> node \<Rightarrow> node option" where
  "at_path [] n = Some n"
| "at_path (k # p) n = (case map_of (nchildren n) k of None \<Rightarrow> None | Some c \<Rightarrow> at_path p c)"

fun on_path :: "path \<Rightarrow> (node \<Rightarrow> node) \<Rightarrow> node \<Rightarrow> node" where
  "on_path [] f n = f n"
| "on_path (k # p) f n =
     Node (nid n) (nentry n)
       (map (\<lambda>(k', c). if k' = k then (k', on_path p f c) else (k', c)) (nchildren n))"

definition set_entry :: "entry \<Rightarrow> node \<Rightarrow> node" where
  "set_entry e n = Node (nid n) e (nchildren n)"

definition set_child :: "string \<Rightarrow> node \<Rightarrow> node \<Rightarrow> node" where
  "set_child k c n = Node (nid n) (nentry n) (dict_set k c (nchildren n))"

definition remove_child :: "string \<Rightarrow> node \<Rightarrow> node" where
  "remove_child k n = Node (nid n) (nentry n) (filter (\<lambda>kc. fst kc \<noteq> k) (nchildren n))"

definition children :: "node \<Rightarrow> node list" where
  "children n = map snd (nchildren n)"

section \<open>Looking up\<close>

fun lookup :: "dn \<Rightarrow> node \<Rightarrow> exn + path" and lookup_children :: "dn \<Rightarrow> (string \<times> node) list \<Rightarrow> exn + path"
where
  "lookup d (Node i e cs) =
     (if \<not> contains (edn e) d then Inl (raiseE LDAPNoSuchObject (Some (Str (dn_text d))))
      else if dn_eq d (edn e) then Inr []
      else lookup_children d cs)"
| "lookup_children d [] = Inl (raiseE LDAPNoSuchObject (Some (Str (dn_text d))))"
| "lookup_children d (kc # cs) =
     (if contains (edn (nentry (snd kc))) d then
        bindE (lookup d (snd kc)) (\<lambda>p. Inr (fst kc # p))
      else lookup_children d cs)"

section \<open>Adding and deleting\<close>

text \<open>
  The parent with the new object, whose identity is given. What gives the attributes may raise, as the
  \<open>items\<close> of an entry can.
\<close>

definition addChild :: "rdn \<Rightarrow> exn + (pytext \<times> pytext list) list \<Rightarrow> nat \<Rightarrow> node \<Rightarrow> exn + node" where
  "addChild rdn attributes new n =
     (case map_of (nchildren n) (rdn_text rdn) of
        Some c \<Rightarrow> Inl (raiseE LDAPEntryAlreadyExists (Some (Str (dn_text (edn (nentry c))))))
      | None \<Rightarrow>
          bindE attributes (\<lambda>items.
            Inr (set_child (rdn_text rdn) (Node new (entry_init (rdn # edn (nentry n)) items) []) n)))"

definition deleteChild :: "rdn \<Rightarrow> node \<Rightarrow> exn + (node \<times> node)" where
  "deleteChild rdn n =
     (case map_of (nchildren n) (rdn_text rdn) of
        Some c \<Rightarrow> Inr (c, remove_child (rdn_text rdn) n)
      | None \<Rightarrow> Inl (raiseE LDAPNoSuchObject (Some (Str (rdn_text rdn)))))"

text \<open>\<open>delete\<close> of the object at a path: the object removed, and the tree.\<close>

definition delete_entry :: "path \<Rightarrow> node \<Rightarrow> exn + (node \<times> node)" where
  "delete_entry p root =
     (if p = [] then Inl (raiseE LDAPNamingViolation None)
      else
        (case (at_path p root, at_path (butlast p) root) of
           (Some self, Some parent) \<Rightarrow>
             if nchildren self \<noteq> [] then
               Inl (raiseE LDAPNotAllowedOnNonLeaf (Some (Str (dn_text (edn (nentry self))))))
             else
               (case edn (nentry self) of
                  [] \<Rightarrow> Inl IndexError
                | rdn # up \<Rightarrow>
                    bindE (deleteChild rdn parent) (\<lambda>(c, parent').
                      Inr (c, on_path (butlast p) (\<lambda>_. parent') root)))
         | _ \<Rightarrow> Inl OutsideModel))"

section \<open>Moving\<close>

text \<open>The attributes of the old name go, those of the new name come.\<close>

definition rename_entry :: "dn \<Rightarrow> entry \<Rightarrow> exn option \<times> entry" where
  "rename_entry newDN e =
     (case (edn e, newDN) of
        (old # up, new # newup) \<Rightarrow>
          (case for_each (\<lambda>a e. or_raise e
                   (entry_change e (Str (attributeType a)) (\<lambda>s. attrset_remove s (Str (avalue a))))) old e of
             (Some exc, e1) \<Rightarrow> (Some exc, e1)
           | (None, e1) \<Rightarrow>
               (case for_each (\<lambda>a e. or_raise e
                        (entry_change e (Str (attributeType a)) (\<lambda>s. attrset_add s (Str (avalue a))))) new e1 of
                  (Some exc, e2) \<Rightarrow> (Some exc, e2)
                | (None, e2) \<Rightarrow> (None, e2\<lparr>edn := newDN\<rparr>)))
      | (old # up, []) \<Rightarrow>
          (case for_each (\<lambda>a e. or_raise e
                   (entry_change e (Str (attributeType a)) (\<lambda>s. attrset_remove s (Str (avalue a))))) old e of
             (Some exc, e1) \<Rightarrow> (Some exc, e1)
           | (None, e1) \<Rightarrow> (Some IndexError, e1))
      | ([], new) \<Rightarrow> (Some IndexError, e))"

definition is_prefix :: "path \<Rightarrow> path \<Rightarrow> bool" where
  "is_prefix p q \<longleftrightarrow> take (length p) q = p"

text \<open>
  \<open>_move2\<close> for the object at the path \<open>p\<close> and the new parent at the path \<open>q\<close>, if there is one: the
  exception, the tree, and the objects that are no longer in it. Under a new parent of its own
  descent the object is out of the tree's reach, with all that is below it.
\<close>

definition move2 :: "path \<Rightarrow> path option \<Rightarrow> dn \<Rightarrow> node \<Rightarrow> exn option \<times> node \<times> node list" where
  "move2 p newParent newDN root =
     (case at_path p root of
        None \<Rightarrow> (Some OutsideModel, root, [])
      | Some self \<Rightarrow>
          (case newParent of
             None \<Rightarrow>
               (let (exc, e) = rename_entry newDN (nentry self) in (exc, on_path p (set_entry e) root, []))
           | Some q \<Rightarrow>
               (case (edn (nentry self), at_path (butlast p) root) of
                  (old # up, Some parent) \<Rightarrow>
                    if map_of (nchildren parent) (rdn_text old) = None then (Some KeyError, root, [])
                    else
                      let root1 = on_path (butlast p) (remove_child (rdn_text old)) root in
                      (case newDN of
                         [] \<Rightarrow> (Some IndexError, root1, [self])
                       | new # newup \<Rightarrow>
                           let (exc, e) = rename_entry newDN (nentry self);
                               self' = set_entry e self in
                           if is_prefix p q then (exc, root1, [self'])
                           else
                             (exc, on_path q (set_child (rdn_text new) self') root1,
                              case at_path q root1 of
                                None \<Rightarrow> []
                              | Some n \<Rightarrow>
                                  (case map_of (nchildren n) (rdn_text new) of None \<Rightarrow> [] | Some c \<Rightarrow> [c])))
                | _ \<Rightarrow> (Some IndexError, root, []))))"

definition move :: "path \<Rightarrow> dn \<Rightarrow> node \<Rightarrow> exn option \<times> node \<times> node list" where
  "move p newDN root =
     (case at_path p root of
        None \<Rightarrow> (Some OutsideModel, root, [])
      | Some self \<Rightarrow>
          if p \<noteq> [] \<and> \<not> dn_eq (dn_up newDN) (dn_up (edn (nentry self))) then
            (case lookup (dn_up newDN) root of
               Inl exc \<Rightarrow> (Some exc, root, [])
             | Inr q \<Rightarrow> move2 p (Some q) newDN root)
          else move2 p (if p = [] then None else Some (butlast p)) newDN root)"

section \<open>Walking\<close>

text \<open>The walk takes the children from the last to the first.\<close>

fun subtree :: "node \<Rightarrow> node list" and subtrees :: "(string \<times> node) list \<Rightarrow> node list" where
  "subtree (Node i e cs) = Node i e cs # subtrees cs"
| "subtrees [] = []"
| "subtrees (kc # cs) = subtrees cs @ subtree (snd kc)"

definition LDAP_SCOPE_baseObject :: int where "LDAP_SCOPE_baseObject = 0"
definition LDAP_SCOPE_singleLevel :: int where "LDAP_SCOPE_singleLevel = 1"
definition LDAP_SCOPE_wholeSubtree :: int where "LDAP_SCOPE_wholeSubtree = 2"

definition scope_nodes :: "int option \<Rightarrow> node \<Rightarrow> exn + node list" where
  "scope_nodes scp self =
     (let s = (case scp of None \<Rightarrow> LDAP_SCOPE_wholeSubtree | Some s \<Rightarrow> s) in
      if s = LDAP_SCOPE_wholeSubtree then Inr (subtree self)
      else if s = LDAP_SCOPE_singleLevel then Inr (children self)
      else if s = LDAP_SCOPE_baseObject then Inr [self]
      else Inl (raiseE LDAPProtocolError (Some (Str (''unknown search scope: '' @ int_text s)))))"

definition LDAPFilterMatchAll :: ber where
  "LDAPFilterMatchAll =
     OOctetString LDAPFilter_present (class_tag (COctetString LDAPFilter_present)) (Str ''objectClass'')"

text \<open>The filter from a text, which the filter parser given reads, an object, both or none.\<close>

definition choose_filter ::
    "(string \<Rightarrow> exn + ber) \<Rightarrow> string option \<Rightarrow> ber option \<Rightarrow> exn + ber" where
  "choose_filter parseFilter filterText filterObject =
     (case (filterObject, filterText) of
        (None, None) \<Rightarrow> Inr LDAPFilterMatchAll
      | (None, Some t) \<Rightarrow> parseFilter t
      | (Some f, None) \<Rightarrow> Inr f
      | (Some f, Some t) \<Rightarrow>
          bindE (parseFilter t) (\<lambda>g.
            Inr (OSequence LDAPFilter_and (class_tag (CSequence LDAPFilter_and)) [g, f])))"

text \<open>
  \<open>search\<close> with a callback, which may change a state and raise: entries are handed over as they
  are found, so that what was found before an exception has been handed over.
\<close>

definition search ::
    "(string \<Rightarrow> exn + ber) \<Rightarrow> string option \<Rightarrow> ber option \<Rightarrow> int option \<Rightarrow>
     (node \<Rightarrow> 's \<Rightarrow> exn option \<times> 's) \<Rightarrow> node \<Rightarrow> 's \<Rightarrow> exn option \<times> 's" where
  "search parseFilter filterText filterObject scp callback self s =
     (case bindE (choose_filter parseFilter filterText filterObject) (\<lambda>f.
             bindE (scope_nodes scp self) (\<lambda>ns. Inr (f, ns))) of
        Inl exc \<Rightarrow> (Some exc, s)
      | Inr (f, ns) \<Rightarrow>
          for_each (\<lambda>n s. case match (nentry n) f of
              Inl exc \<Rightarrow> (Some exc, s)
            | Inr b \<Rightarrow> if b then callback n s else (None, s)) ns s)"

text \<open>Without a callback the entries found are the result.\<close>

definition search_list ::
    "(string \<Rightarrow> exn + ber) \<Rightarrow> string option \<Rightarrow> ber option \<Rightarrow> int option \<Rightarrow> node \<Rightarrow> exn + node list" where
  "search_list parseFilter filterText filterObject scp self =
     (case search parseFilter filterText filterObject scp (\<lambda>n s. (None, s @ [n])) self [] of
        (Some exc, s) \<Rightarrow> Inl exc
      | (None, s) \<Rightarrow> Inr s)"

section \<open>Operations on a tree\<close>

text \<open>\<open>AddOp.patch\<close>, \<open>DeleteOp.patch\<close> and \<open>ModifyOp.patch\<close> given the root of the tree.\<close>

definition add_patch :: "entry \<Rightarrow> nat \<Rightarrow> node \<Rightarrow> exn + node" where
  "add_patch e new root =
     bindE (lookup (dn_up (edn e)) root) (\<lambda>p.
       case (edn e, at_path p root) of
         ([], _) \<Rightarrow> Inl IndexError
       | (_, None) \<Rightarrow> Inl OutsideModel
       | (rdn # up, Some parent) \<Rightarrow>
           bindE (addChild rdn (entry_items e) new parent) (\<lambda>parent'.
             Inr (on_path p (\<lambda>_. parent') root)))"

definition delete_patch :: "dn \<Rightarrow> node \<Rightarrow> exn + node" where
  "delete_patch d root =
     bindE (lookup d root) (\<lambda>p. bindE (delete_entry p root) (\<lambda>(c, root'). Inr root'))"

definition modify_tree :: "modify_op \<Rightarrow> node \<Rightarrow> exn option \<times> node" where
  "modify_tree op root =
     (case lookup (mop_dn op) root of
        Inl exc \<Rightarrow> (Some exc, root)
      | Inr p \<Rightarrow>
          (case at_path p root of
             None \<Rightarrow> (Some OutsideModel, root)
           | Some n \<Rightarrow>
               let (exc, e) = modify_patch op (nentry n) in (exc, on_path p (set_entry e) root)))"

section \<open>Loading from LDIF\<close>

text \<open>
  The first entry becomes the root; each later one is put under the entry its name says, as
  \<open>completed\<close> does when the file has been read. The default hooks pass every error on.
\<close>

fun add_pending :: "entry list \<Rightarrow> nat \<Rightarrow> node \<Rightarrow> exn + node" where
  "add_pending [] new db = Inr db"
| "add_pending (e # es) new db = bindE (add_patch e new db) (add_pending es (Suc new))"

definition root_of :: "entry \<Rightarrow> exn + node" where
  "root_of e = bindE (entry_items e) (\<lambda>attributes. Inr (Node 0 (entry_init (edn e) attributes) []))"

definition completed :: "entry list \<Rightarrow> exn + node" where
  "completed received =
     (case received of
        [] \<Rightarrow> Inl AssertionError
      | e # es \<Rightarrow> bindE (root_of e) (add_pending es 1))"

definition mem_fromLDIFFile :: "bytes list \<Rightarrow> exn + node" where
  "mem_fromLDIFFile reads =
     bindE (foldE LDIF_dataReceived (takeWhile (\<lambda>data. data \<noteq> []) reads) (LDIF_init, []))
       (\<lambda>(s, buffer). bindE (LDIF_connectionLost s) (\<lambda>_. completed (got s)))"

section \<open>Lemmas: paths\<close>

text \<open>The tree as a map from paths to entries.\<close>

definition view :: "node \<Rightarrow> path \<Rightarrow> entry option" where
  "view n p = map_option nentry (at_path p n)"

lemma map_of_replace:
  "map_of (map (\<lambda>(k', c). if k' = k then (k', g c) else (k', c)) cs) x =
     (if x = k then map_option g (map_of cs k) else map_of cs x)"
  by (induction cs) auto

lemma at_path_append: "at_path (p @ q) n = (case at_path p n of None \<Rightarrow> None | Some m \<Rightarrow> at_path q m)"
  by (induction p arbitrary: n) (auto split: option.splits)

lemma at_on_path: "at_path p n = Some m \<Longrightarrow> at_path (p @ q) (on_path p f n) = at_path q (f m)"
  by (induction p arbitrary: n) (auto simp: map_of_replace split: option.splits)

lemma view_Nil [simp]: "view n [] = Some (nentry n)"
  by (simp add: view_def)

lemma view_Cons: "view n (k # p) = (case map_of (nchildren n) k of None \<Rightarrow> None | Some c \<Rightarrow> view c p)"
  by (simp add: view_def split: option.split)

lemma is_prefix_Nil [simp]: "is_prefix [] q"
  by (simp add: is_prefix_def)

lemma is_prefix_Cons [simp]: "is_prefix (k # p) q \<longleftrightarrow> (\<exists>q'. q = k # q' \<and> is_prefix p q')"
  by (cases q) (auto simp: is_prefix_def)

lemma view_on_path:
  assumes "at_path p n = Some m"
  shows "view (on_path p f n) q = (if is_prefix p q then view (f m) (drop (length p) q) else view n q)"
  using assms
proof (induction p arbitrary: n q)
  case (Cons k p)
  then obtain c where c: "map_of (nchildren n) k = Some c" "at_path p c = Some m" by (auto split: option.splits)
  show ?case
  proof (cases q)
    case (Cons k' q')
    then show ?thesis using Cons.IH[OF c(2), of q'] c(1) by (auto simp: view_Cons map_of_replace)
  qed simp
qed simp

lemma edn_set_entry [simp]: "nentry (set_entry e n) = e" "nchildren (set_entry e n) = nchildren n"
  and edn_set_child [simp]: "nentry (set_child k c n) = nentry n" "nchildren (set_child k c n) = dict_set k c (nchildren n)"
  and edn_remove_child [simp]: "nentry (remove_child k n) = nentry n"
    "nchildren (remove_child k n) = filter (\<lambda>kc. fst kc \<noteq> k) (nchildren n)"
  by (simp_all add: set_entry_def set_child_def remove_child_def)

lemma map_of_without: "map_of (filter (\<lambda>kc. fst kc \<noteq> k) cs) x = (if x = k then None else map_of cs x)"
  by (induction cs) auto

section \<open>Well-formed trees\<close>

text \<open>
  Every entry's name is a relative name before its parent's, the key it stands under is the text
  of that relative name, and siblings differ in it also without regard to case.
\<close>

fun tree_ok :: "node \<Rightarrow> bool" and forest_ok :: "dn \<Rightarrow> (string \<times> node) list \<Rightarrow> bool" where
  "tree_ok (Node i e cs) \<longleftrightarrow> forest_ok (edn e) cs"
| "forest_ok d [] \<longleftrightarrow> True"
| "forest_ok d (kc # cs) \<longleftrightarrow>
     (\<exists>r. edn (nentry (snd kc)) = r # d \<and> fst kc = rdn_text r) \<and> tree_ok (snd kc) \<and>
     (\<forall>kc' \<in> set cs. fst kc' \<noteq> fst kc \<and>
        \<not> rdn_eq (hd (edn (nentry (snd kc')))) (hd (edn (nentry (snd kc))))) \<and>
     forest_ok d cs"

lemma tree_ok_iff: "tree_ok n \<longleftrightarrow> forest_ok (edn (nentry n)) (nchildren n)"
  by (cases n) simp

lemma forest_ok_child:
  "forest_ok d cs \<Longrightarrow> (k, c) \<in> set cs \<Longrightarrow> tree_ok c \<and> (\<exists>r. edn (nentry c) = r # d \<and> k = rdn_text r)"
  by (induction cs) auto

lemma forest_ok_distinct: "forest_ok d cs \<Longrightarrow> distinct (map fst cs)"
  by (induction cs) (auto simp: image_iff)

lemma forest_ok_apart:
  "forest_ok d cs \<Longrightarrow> (k, c) \<in> set cs \<Longrightarrow> (k', c') \<in> set cs \<Longrightarrow>
   rdn_eq (hd (edn (nentry c))) (hd (edn (nentry c'))) \<Longrightarrow> k = k' \<and> c = c'"
  using rdn_eq_sym by (induction cs) auto

lemma tree_ok_child:
  "tree_ok n \<Longrightarrow> map_of (nchildren n) k = Some c \<Longrightarrow>
   tree_ok c \<and> (\<exists>r. edn (nentry c) = r # edn (nentry n) \<and> k = rdn_text r)"
  using forest_ok_child map_of_SomeD by (metis tree_ok_iff)

lemma tree_ok_at: "tree_ok n \<Longrightarrow> at_path p n = Some m \<Longrightarrow>
    tree_ok m \<and> (\<exists>rs. edn (nentry m) = rs @ edn (nentry n) \<and> length rs = length p)"
proof (induction p arbitrary: n)
  case (Cons k p)
  then obtain c where c: "map_of (nchildren n) k = Some c" "at_path p c = Some m" by (auto split: option.splits)
  obtain r where r: "tree_ok c" "edn (nentry c) = r # edn (nentry n)"
    using tree_ok_child[OF Cons.prems(1) c(1)] by blast
  obtain rs where "tree_ok m" "edn (nentry m) = rs @ edn (nentry c)" "length rs = length p"
    using Cons.IH[OF r(1) c(2)] by blast
  then have "edn (nentry m) = (rs @ [r]) @ edn (nentry n)" "length (rs @ [r]) = length (k # p)"
    using r(2) by simp_all
  then show ?case using \<open>tree_ok m\<close> by blast
qed simp

section \<open>Lemmas: looking up\<close>

lemma under_name:
  assumes "contains (r # d) x" "contains (r' # d) x"
  shows "rdn_eq r r'"
proof -
  obtain pre rest where a: "x = pre @ rest" "dn_eq (r # d) rest"
    using assms(1) unfolding contains_iff dn_under_def by blast
  obtain pre' rest' where b: "x = pre' @ rest'" "dn_eq (r' # d) rest'"
    using assms(2) unfolding contains_iff dn_under_def by blast
  have "length (r # d) = length rest" "length (r' # d) = length rest'"
    using a(2) b(2) unfolding dn_eq_def by (auto dest: list_all2_lengthD)
  then have "rest = rest'" using a(1) b(1) by (metis append_eq_append_conv length_Cons)
  then have "dn_eq (r' # d) rest" using b(2) by simp
  then show ?thesis using a(2) unfolding dn_eq_def
    by (auto simp: list_all2_Cons1 intro: rdn_eq_trans rdn_eq_sym)
qed

lemma dn_eq_length: "dn_eq a b \<Longrightarrow> length a = length b"
  unfolding dn_eq_def by (rule list_all2_lengthD)

lemma contains_longer: "dn_eq d (rs @ base) \<Longrightarrow> contains base d"
proof -
  assume "dn_eq d (rs @ base)"
  then obtain pre rest where "d = pre @ rest" "dn_eq rest base"
    unfolding dn_eq_def by (auto simp: list_all2_append2)
  then show ?thesis unfolding contains_iff dn_under_def using dn_eq_sym by blast
qed

lemma lookup_children_find:
  assumes "(k, c) \<in> set cs" "contains (edn (nentry c)) d" "distinct (map fst cs)"
    "\<forall>(k', c') \<in> set cs. contains (edn (nentry c')) d \<longrightarrow> k' = k \<and> c' = c"
  shows "lookup_children d cs = bindE (lookup d c) (\<lambda>p. Inr (k # p))"
  using assms
proof (induction cs)
  case (Cons kc cs)
  show ?case
  proof (cases "contains (edn (nentry (snd kc))) d")
    case True
    then have "fst kc = k \<and> snd kc = c" using Cons.prems(4) by (cases kc) auto
    then show ?thesis using True by simp
  qed (use Cons in auto)
qed simp

lemma lookup_complete:
  "tree_ok n \<Longrightarrow> at_path p n = Some m \<Longrightarrow> dn_eq d (edn (nentry m)) \<Longrightarrow> lookup d n = Inr p"
proof (induction p arbitrary: n)
  case Nil
  obtain i e cs where n: "n = Node i e cs" by (cases n)
  then have m: "m = Node i e cs" using Nil(2) by simp
  have "dn_eq d (edn e)" using Nil(3) unfolding m by simp
  then show ?case using contains_longer[of d "[]" "edn e"] by (simp add: n)
next
  case (Cons k p)
  then obtain c where c: "map_of (nchildren n) k = Some c" "at_path p c = Some m" by (auto split: option.splits)
  obtain r where r: "tree_ok c" "edn (nentry c) = r # edn (nentry n)"
    using tree_ok_child[OF Cons.prems(1) c(1)] by blast
  obtain rs where rs: "edn (nentry m) = rs @ edn (nentry c)" using tree_ok_at[OF r(1) c(2)] by blast
  have under: "contains (edn (nentry c)) d" using contains_longer Cons.prems(3) rs by metis
  have "dn_eq d ((rs @ [r]) @ edn (nentry n))" using Cons.prems(3) rs r(2) by simp
  then have up: "contains (edn (nentry n)) d" "\<not> dn_eq d (edn (nentry n))"
    using contains_longer by (blast, auto dest!: dn_eq_length)
  have f: "forest_ok (edn (nentry n)) (nchildren n)" using Cons.prems(1) by (simp add: tree_ok_iff)
  have "k' = k \<and> c' = c" if kc: "(k', c') \<in> set (nchildren n)" "contains (edn (nentry c')) d" for k' c'
  proof -
    obtain r' where "edn (nentry c') = r' # edn (nentry n)" using forest_ok_child[OF f kc(1)] by blast
    then have "rdn_eq (hd (edn (nentry c'))) (hd (edn (nentry c)))"
      using under_name[of r' "edn (nentry n)" d r] kc(2) under r(2) by simp
    then show ?thesis using forest_ok_apart[OF f kc(1) map_of_SomeD[OF c(1)]] by blast
  qed
  then have "lookup_children d (nchildren n) = bindE (lookup d c) (\<lambda>p. Inr (k # p))"
    by (intro lookup_children_find[OF map_of_SomeD[OF c(1)] under forest_ok_distinct[OF f]]) blast
  then show ?case using Cons.IH[OF r(1) c(2) Cons.prems(3)] up by (cases n) simp
qed

lemma lookup_sound: "tree_ok n \<Longrightarrow> lookup d n = Inr p \<Longrightarrow> \<exists>m. at_path p n = Some m \<and> dn_eq d (edn (nentry m))"
  and lookup_children_sound: "(\<forall>(k, c) \<in> set cs. tree_ok c) \<Longrightarrow> distinct (map fst cs) \<Longrightarrow>
    lookup_children d cs = Inr p \<Longrightarrow>
    \<exists>k c q m. p = k # q \<and> map_of cs k = Some c \<and> at_path q c = Some m \<and> dn_eq d (edn (nentry m))"
proof (induction d n and d cs arbitrary: p and p rule: lookup_lookup_children.induct)
  case (1 d i e cs)
  show ?case
  proof (cases "dn_eq d (edn e)")
    case True
    then show ?thesis using 1(3) by (auto split: if_splits)
  next
    case False
    have f: "forest_ok (edn e) cs" using 1(2) by simp
    have "contains (edn e) d" "lookup_children d cs = Inr p" using 1(3) False by (auto split: if_splits)
    then obtain k c q m where "p = k # q" "map_of cs k = Some c" "at_path q c = Some m" "dn_eq d (edn (nentry m))"
      using 1(1)[OF _ False] forest_ok_child[OF f] forest_ok_distinct[OF f] by fast
    then show ?thesis by auto
  qed
next
  case (3 d kc cs)
  show ?case
  proof (cases "contains (edn (nentry (snd kc))) d")
    case True
    then obtain q where "lookup d (snd kc) = Inr q" "p = fst kc # q" using 3(5) by auto
    moreover then obtain m where "at_path q (snd kc) = Some m" "dn_eq d (edn (nentry m))"
      using 3(1)[OF True] 3(3) by (cases kc) auto
    ultimately show ?thesis by (cases kc) auto
  next
    case False
    then obtain k c q m where "p = k # q" "map_of cs k = Some c" "at_path q c = Some m" "dn_eq d (edn (nentry m))"
      using 3(2)[OF False] 3(3-5) by auto
    moreover have "k \<noteq> fst kc" using \<open>map_of cs k = Some c\<close> 3(4) by (metis distinct.simps(2) list.simps(9) map_of_SomeD image_eqI fst_conv set_map)
    ultimately show ?thesis by (cases kc) auto
  qed
qed auto

lemma lookup_exact:
  "tree_ok n \<Longrightarrow> lookup d n = Inr p \<longleftrightarrow> (\<exists>m. at_path p n = Some m \<and> dn_eq d (edn (nentry m)))"
  using lookup_sound lookup_complete by blast

lemma lookup_error: "lookup d n = Inl e \<Longrightarrow> e = raiseE LDAPNoSuchObject (Some (Str (dn_text d)))"
  and lookup_children_error: "lookup_children d cs = Inl e \<Longrightarrow> e = raiseE LDAPNoSuchObject (Some (Str (dn_text d)))"
  by (induction d n and d cs rule: lookup_lookup_children.induct) (auto simp: bindE_eq_Inl split: if_splits)

section \<open>Lemmas: changing a tree\<close>

lemma forest_ok_replace:
  assumes "forest_ok d cs" "\<And>c. (k, c) \<in> set cs \<Longrightarrow> tree_ok (g c) \<and> edn (nentry (g c)) = edn (nentry c)"
  shows "forest_ok d (map (\<lambda>(k', c). if k' = k then (k', g c) else (k', c)) cs)"
  using assms
proof (induction cs)
  case (Cons kc cs)
  let ?r = "\<lambda>(k', c). if k' = k then (k', g c) else (k', c)"
  have edn: "fst (?r x) = fst x \<and> edn (nentry (snd (?r x))) = edn (nentry (snd x))" if "x \<in> set (kc # cs)" for x
    using Cons.prems(2) that by (cases x) auto
  have "tree_ok (snd (?r kc))" using Cons.prems by (cases kc) auto
  moreover have "forest_ok d (map ?r cs)" using Cons by auto
  moreover have "\<forall>x \<in> set cs. fst (?r x) \<noteq> fst (?r kc) \<and>
      \<not> rdn_eq (hd (edn (nentry (snd (?r x))))) (hd (edn (nentry (snd (?r kc)))))"
    using Cons.prems(1) edn by auto
  moreover have "\<exists>r. edn (nentry (snd (?r kc))) = r # d \<and> fst (?r kc) = rdn_text r"
    using Cons.prems(1) edn[of kc] by auto
  ultimately show ?case by simp
qed simp

lemma tree_ok_on_path:
  "tree_ok n \<Longrightarrow> at_path p n = Some m \<Longrightarrow> tree_ok (f m) \<Longrightarrow> edn (nentry (f m)) = edn (nentry m) \<Longrightarrow>
   tree_ok (on_path p f n) \<and> edn (nentry (on_path p f n)) = edn (nentry n)"
proof (induction p arbitrary: n)
  case (Cons k p)
  then obtain c where c: "map_of (nchildren n) k = Some c" "at_path p c = Some m" by (auto split: option.splits)
  have f: "forest_ok (edn (nentry n)) (nchildren n)" using Cons.prems(1) by (simp add: tree_ok_iff)
  have "tree_ok c" using tree_ok_child[OF Cons.prems(1) c(1)] by blast
  then have "tree_ok (on_path p f c) \<and> edn (nentry (on_path p f c)) = edn (nentry c)"
    using Cons.IH c(2) Cons.prems(3,4) by blast
  moreover have "c' = c" if "(k, c') \<in> set (nchildren n)" for c'
    using that c(1) forest_ok_distinct[OF f] by simp
  ultimately show ?case using forest_ok_replace[OF f, of k "on_path p f"] by (auto simp: tree_ok_iff)
qed simp

lemma forest_ok_filter: "forest_ok d cs \<Longrightarrow> forest_ok d (filter P cs)"
  by (induction cs) auto

lemma forest_ok_snoc:
  "forest_ok d cs \<Longrightarrow> edn (nentry c) = r # d \<Longrightarrow> tree_ok c \<Longrightarrow> map_of cs (rdn_text r) = None \<Longrightarrow>
   \<forall>kc \<in> set cs. \<not> rdn_eq (hd (edn (nentry (snd kc)))) r \<Longrightarrow> forest_ok d (cs @ [(rdn_text r, c)])"
proof (induction cs)
  case (Cons kc cs)
  have "\<not> rdn_eq r (hd (edn (nentry (snd kc))))" using Cons.prems(5) rdn_eq_sym by auto
  then show ?case using Cons by (auto split: if_splits)
qed simp

lemma addChild_tree_ok:
  assumes "tree_ok n" "addChild rdn attributes new n = Inr n'"
    and "\<forall>c \<in> set (children n). \<not> rdn_eq (hd (edn (nentry c))) rdn"
  shows "tree_ok n'"
proof -
  have "map_of (nchildren n) (rdn_text rdn) = None" using assms(2) by (auto simp: addChild_def split: option.splits)
  then show ?thesis
    using assms forest_ok_snoc[of "edn (nentry n)" "nchildren n"]
    by (auto simp: addChild_def tree_ok_iff dict_set_new children_def entry_init_def)
qed

lemma addChild_view:
  assumes "addChild rdn attributes new n = Inr n'"
  obtains items where "attributes = Inr items" "nentry n' = nentry n"
    "view n' = (view n)([rdn_text rdn] \<mapsto> entry_init (rdn # edn (nentry n)) items)"
proof -
  obtain items where items: "attributes = Inr items" "map_of (nchildren n) (rdn_text rdn) = None"
    "n' = set_child (rdn_text rdn) (Node new (entry_init (rdn # edn (nentry n)) items) []) n"
    using assms by (auto simp: addChild_def split: option.splits)
  have "view n' p = ((view n)([rdn_text rdn] \<mapsto> entry_init (rdn # edn (nentry n)) items)) p" for p
  proof (cases p)
    case (Cons k q)
    then show ?thesis using items(2) by (cases q) (auto simp: items(3) view_Cons)
  qed (simp add: items(3))
  then show ?thesis using that[OF items(1)] items(3) by (auto simp: fun_eq_iff)
qed

lemma view_update_on_path:
  assumes "at_path p n = Some m" "view (f m) = (view m)(q := x)"
  shows "view (on_path p f n) = (view n)(p @ q := x)"
proof
  fix r
  have below: "view m s = view n (p @ s)" for s by (simp add: view_def at_path_append assms(1))
  show "view (on_path p f n) r = ((view n)(p @ q := x)) r"
  proof (cases "is_prefix p r")
    case True
    then have "r = p @ drop (length p) r" unfolding is_prefix_def by (metis append_take_drop_id)
    then obtain s where r: "r = p @ s" by blast
    then show ?thesis using assms(2) below True by (simp add: view_on_path[OF assms(1)])
  next
    case False
    then have "r \<noteq> p @ q" by (auto simp: is_prefix_def)
    then show ?thesis using False by (simp add: view_on_path[OF assms(1)])
  qed
qed

lemma add_patch_view:
  assumes "add_patch e new root = Inr root'"
  obtains rdn up p parent items where "edn e = rdn # up" "lookup up root = Inr p" "at_path p root = Some parent"
    "entry_items e = Inr items"
    "view root' = (view root)(p @ [rdn_text rdn] \<mapsto> entry_init (rdn # edn (nentry parent)) items)"
    "tree_ok root \<Longrightarrow> \<forall>c \<in> set (children parent). \<not> rdn_eq (hd (edn (nentry c))) rdn \<Longrightarrow> tree_ok root'"
proof -
  have "edn e \<noteq> []" using assms by (auto simp: add_patch_def split: option.splits)
  then obtain rdn up where e: "edn e = rdn # up" by (cases "edn e") auto
  obtain p parent parent' where "lookup up root = Inr p" "at_path p root = Some parent"
    "addChild rdn (entry_items e) new parent = Inr parent'" "root' = on_path p (\<lambda>_. parent') root"
    using assms by (auto simp: add_patch_def dn_up_def e split: option.splits)
  note a = e this
  obtain items where i: "entry_items e = Inr items" "nentry parent' = nentry parent"
    "view parent' = (view parent)([rdn_text rdn] \<mapsto> entry_init (rdn # edn (nentry parent)) items)"
    by (rule addChild_view[OF a(4)])
  have "view root' = (view root)(p @ [rdn_text rdn] \<mapsto> entry_init (rdn # edn (nentry parent)) items)"
    unfolding a(5) by (rule view_update_on_path[OF a(3) i(3)])
  moreover have "tree_ok root'" if "tree_ok root" "\<forall>c \<in> set (children parent). \<not> rdn_eq (hd (edn (nentry c))) rdn"
    using tree_ok_on_path[OF that(1) a(3), of "\<lambda>_. parent'"] addChild_tree_ok[OF _ a(4) that(2)]
      tree_ok_at[OF that(1) a(3)] i(2) a(5) by auto
  ultimately show ?thesis using that a(1-3) i(1) by blast
qed

lemma deleteChild_view:
  assumes "deleteChild rdn n = Inr (c, n')" "nchildren c = []"
  shows "view n' = (view n)([rdn_text rdn] := None)" "nentry n' = nentry n" "tree_ok n \<Longrightarrow> tree_ok n'"
proof -
  have c: "map_of (nchildren n) (rdn_text rdn) = Some c" "n' = remove_child (rdn_text rdn) n"
    using assms(1) by (auto simp: deleteChild_def split: option.splits)
  have "view n' p = ((view n)([rdn_text rdn] := None)) p" for p
  proof (cases p)
    case (Cons k q)
    then show ?thesis using c(1) assms(2) by (cases q) (auto simp: c(2) view_Cons map_of_without)
  qed (simp add: c(2))
  then show "view n' = (view n)([rdn_text rdn] := None)" "nentry n' = nentry n" "tree_ok n \<Longrightarrow> tree_ok n'"
    using c(2) forest_ok_filter by (auto simp: fun_eq_iff tree_ok_iff)
qed

lemma delete_entry_view:
  assumes "tree_ok root" "delete_entry p root = Inr (c, root')"
  shows "at_path p root = Some c" "nchildren c = []" "p \<noteq> []" "view root' = (view root)(p := None)" "tree_ok root'"
proof -
  obtain self parent rdn up n' where d: "p \<noteq> []" "at_path p root = Some self" "at_path (butlast p) root = Some parent"
    "nchildren self = []" "edn (nentry self) = rdn # up" "deleteChild rdn parent = Inr (c, n')"
    "root' = on_path (butlast p) (\<lambda>_. n') root"
    using assms(2) by (auto simp: delete_entry_def split: if_splits option.splits list.splits)
  have p: "p = butlast p @ [last p]" using d(1) by simp
  then have self: "map_of (nchildren parent) (last p) = Some self"
    using d(2,3) at_path_append[of "butlast p" "[last p]" root] by (auto split: option.splits)
  have ok: "tree_ok parent" using tree_ok_at[OF assms(1) d(3)] by blast
  then have key: "last p = rdn_text rdn" using tree_ok_child[OF ok self] d(5) by auto
  then have c: "c = self" using d(6) self by (auto simp: deleteChild_def)
  note v = deleteChild_view[OF d(6), unfolded c, OF d(4)]
  show "at_path p root = Some c" "nchildren c = []" "p \<noteq> []" using c d(1,2,4) by simp_all
  have "view root' = (view root)(butlast p @ [rdn_text rdn] := None)"
    unfolding d(7) by (rule view_update_on_path[OF d(3) v(1)])
  then show "view root' = (view root)(p := None)" using p key by simp
  show "tree_ok root'" using tree_ok_on_path[OF assms(1) d(3), of "\<lambda>_. n'"] v(2,3) ok d(7) by simp
qed

lemma set_entry_view: "view (set_entry e n) = (view n)([] \<mapsto> e)"
proof
  fix p show "view (set_entry e n) p = ((view n)([] \<mapsto> e)) p" by (cases p) (simp_all add: view_Cons)
qed

lemma modify_tree_view:
  assumes "lookup (mop_dn op) root = Inr p" "at_path p root = Some n"
  shows "fst (modify_tree op root) = fst (modify_patch op (nentry n))"
    and "view (snd (modify_tree op root)) = (view root)(p \<mapsto> snd (modify_patch op (nentry n)))"
proof -
  obtain exc e where m: "modify_patch op (nentry n) = (exc, e)" by (cases "modify_patch op (nentry n)")
  then have "modify_tree op root = (exc, on_path p (set_entry e) root)" by (simp add: modify_tree_def assms)
  then show "fst (modify_tree op root) = fst (modify_patch op (nentry n))"
    "view (snd (modify_tree op root)) = (view root)(p \<mapsto> snd (modify_patch op (nentry n)))"
    using m view_update_on_path[OF assms(2), of "set_entry e" "[]" "Some e"] set_entry_view[of e n] by simp_all
qed

section \<open>Lemmas: searching\<close>

text \<open>The walk meets every entry of the tree, and meets it once.\<close>

definition forest_at :: "(string \<times> node) list \<Rightarrow> path \<Rightarrow> node option" where
  "forest_at cs p = (case p of [] \<Rightarrow> None | k # q \<Rightarrow> (case map_of cs k of None \<Rightarrow> None | Some c \<Rightarrow> at_path q c))"

lemma at_path_forest: "at_path p (Node i e cs) = (if p = [] then Some (Node i e cs) else forest_at cs p)"
  by (cases p) (simp_all add: forest_at_def)

lemma subtree_paths:
  "tree_ok n \<Longrightarrow>
   \<exists>ps. distinct ps \<and> set ps = {p. at_path p n \<noteq> None} \<and> map (\<lambda>p. at_path p n) ps = map Some (subtree n)"
  and subtrees_paths: "forest_ok d cs \<Longrightarrow>
   \<exists>ps. distinct ps \<and> set ps = {p. forest_at cs p \<noteq> None} \<and> map (forest_at cs) ps = map Some (subtrees cs)"
proof (induction n and cs arbitrary: and d rule: subtree_subtrees.induct)
  case (1 i e cs)
  then obtain ps where ps: "distinct ps" "set ps = {p. forest_at cs p \<noteq> None}"
    "map (forest_at cs) ps = map Some (subtrees cs)" by force
  have "[] \<notin> set ps" using ps(2) by (simp add: forest_at_def)
  then have "map (\<lambda>p. at_path p (Node i e cs)) ps = map Some (subtrees cs)"
    unfolding ps(3)[symmetric] by (intro map_cong) (auto simp: at_path_forest)
  then have "map (\<lambda>p. at_path p (Node i e cs)) ([] # ps) = map Some (subtree (Node i e cs))" by simp
  moreover have "distinct ([] # ps)" "set ([] # ps) = {p. at_path p (Node i e cs) \<noteq> None}"
    using ps(1,2) \<open>[] \<notin> set ps\<close> by (auto simp: at_path_forest)
  ultimately show ?case by blast
next
  case 2
  show ?case by (rule exI[of _ "[]"]) (auto simp: forest_at_def split: list.splits)
next
  case (3 kc cs)
  obtain k c where kc: "kc = (k, c)" by (cases kc)
  have "tree_ok c" "forest_ok d cs" using 3(3) by (simp_all add: kc)
  then obtain ps qs where ps: "distinct ps" "set ps = {p. at_path p c \<noteq> None}"
      "map (\<lambda>p. at_path p c) ps = map Some (subtree c)"
    and qs: "distinct qs" "set qs = {p. forest_at cs p \<noteq> None}" "map (forest_at cs) qs = map Some (subtrees cs)"
    using 3(1)[of d] 3(2) by (auto simp: kc)
  have none: "map_of cs k = None" using 3(3) by (auto simp: kc map_of_eq_None_iff)
  have at: "forest_at (kc # cs) p = (if p \<noteq> [] \<and> hd p = k then at_path (tl p) c else forest_at cs p)" for p
    by (cases p) (simp_all add: forest_at_def kc)
  have qk: "q \<noteq> [] \<and> hd q \<noteq> k" if "q \<in> set qs" for q
  proof -
    have "forest_at cs q \<noteq> None" using that qs(2) by blast
    then show ?thesis using none by (cases q) (auto simp: forest_at_def)
  qed
  have "map (forest_at (kc # cs)) qs = map Some (subtrees cs)"
    unfolding qs(3)[symmetric] by (intro map_cong) (auto simp: at dest: qk)
  moreover have "map (forest_at (kc # cs)) (map ((#) k) ps) = map Some (subtree c)"
    unfolding ps(3)[symmetric] by (simp add: at comp_def)
  ultimately have "map (forest_at (kc # cs)) (qs @ map ((#) k) ps) = map Some (subtrees (kc # cs))"
    by (simp add: kc)
  moreover have "distinct (qs @ map ((#) k) ps)" using ps(1) qs(1) by (auto simp: distinct_map dest: qk)
  moreover have "set (qs @ map ((#) k) ps) = {p. forest_at (kc # cs) p \<noteq> None}"
  proof -
    have "p \<in> set (qs @ map ((#) k) ps) \<longleftrightarrow> forest_at (kc # cs) p \<noteq> None" for p
      using ps(2) qs(2) none by (cases p) (auto simp: forest_at_def kc image_iff split: option.splits)
    then show ?thesis by blast
  qed
  ultimately show ?case by blast
qed

text \<open>What a search visits, as paths.\<close>

definition in_scope :: "int option \<Rightarrow> path \<Rightarrow> bool" where
  "in_scope scp p \<longleftrightarrow>
     (case scp of None \<Rightarrow> True
      | Some s \<Rightarrow> s = LDAP_SCOPE_wholeSubtree \<or> s = LDAP_SCOPE_singleLevel \<and> length p = 1
          \<or> s = LDAP_SCOPE_baseObject \<and> p = [])"

definition scope_known :: "int option \<Rightarrow> bool" where
  "scope_known scp \<longleftrightarrow> (case scp of None \<Rightarrow> True | Some s \<Rightarrow> 0 \<le> s \<and> s \<le> 2)"

lemmas scope_defs = LDAP_SCOPE_baseObject_def LDAP_SCOPE_singleLevel_def LDAP_SCOPE_wholeSubtree_def

lemma scope_nodes_paths:
  assumes "tree_ok n" "scope_known scp"
  shows "\<exists>ps ns. scope_nodes scp n = Inr ns \<and> distinct ps \<and> set ps = {p. at_path p n \<noteq> None \<and> in_scope scp p} \<and>
    map (\<lambda>p. at_path p n) ps = map Some ns"
proof -
  have "scp = None \<or> scp = Some 2 \<or> scp = Some 1 \<or> scp = Some 0"
    using assms(2) by (cases scp) (simp_all add: scope_known_def, presburger)
  then consider (sub) "scp = None \<or> scp = Some 2" | (one) "scp = Some 1" | (base) "scp = Some 0" by blast
  then show ?thesis
  proof cases
    case sub
    then have "scope_nodes scp n = Inr (subtree n)" "in_scope scp p" for p
      by (auto simp: scope_nodes_def in_scope_def scope_defs)
    then show ?thesis using subtree_paths[OF assms(1)] by simp
  next
    case one
    have f: "distinct (map fst (nchildren n))" using assms(1) forest_ok_distinct by (auto simp: tree_ok_iff)
    let ?ps = "map (\<lambda>kc. [fst kc]) (nchildren n)"
    have "scope_nodes scp n = Inr (children n)" using one by (simp add: scope_nodes_def scope_defs)
    moreover have "distinct ?ps" using f by (simp add: distinct_map inj_on_def)
    moreover have "p \<in> set ?ps \<longleftrightarrow> at_path p n \<noteq> None \<and> in_scope scp p" for p
    proof (cases p)
      case (Cons k q)
      have "map_of (nchildren n) k \<noteq> None \<longleftrightarrow> k \<in> fst ` set (nchildren n)"
        by (simp add: map_of_eq_None_iff)
      then show ?thesis using one Cons by (cases q) (auto simp: in_scope_def scope_defs split: option.splits)
    qed (use one in \<open>auto simp: in_scope_def scope_defs\<close>)
    moreover have "map (\<lambda>p. at_path p n) ?ps = map Some (children n)"
      using f by (auto simp: children_def)
    ultimately show ?thesis by blast
  next
    case base
    then have "scope_nodes scp n = Inr [n]" "{p. at_path p n \<noteq> None \<and> in_scope scp p} = set [[]]"
      by (auto simp: scope_nodes_def in_scope_def scope_defs)
    then show ?thesis by (intro exI[of _ "[[]]"] exI[of _ "[n]"]) simp
  qed
qed

lemma for_each_collect:
  "\<forall>n \<in> set ns. match (nentry n) f = Inr (holds (nentry n) f) \<Longrightarrow>
   for_each (\<lambda>n s. case match (nentry n) f of Inl exc \<Rightarrow> (Some exc, s)
      | Inr b \<Rightarrow> if b then (None, s @ [n]) else (None, s)) ns s =
   (None, s @ filter (\<lambda>n. holds (nentry n) f) ns)"
  by (induction ns arbitrary: s) auto

lemma search_list_holds:
  assumes "supported ends_only f" "scope_nodes scp n = Inr ns"
  shows "search_list parseFilter None (Some f) scp n = Inr (filter (\<lambda>n. holds (nentry n) f) ns)"
  using for_each_collect[of ns f "[]"] match_holds[OF assms(1)]
  by (simp add: search_list_def search_def choose_filter_def assms(2))

section \<open>Lemmas: names and places\<close>

lemma child_at:
  assumes "tree_ok n" "c \<in> set (children n)"
  obtains k r where "map_of (nchildren n) k = Some c" "edn (nentry c) = r # edn (nentry n)" "k = rdn_text r"
proof -
  have f: "forest_ok (edn (nentry n)) (nchildren n)" using assms(1) by (simp add: tree_ok_iff)
  obtain k where "(k, c) \<in> set (nchildren n)" using assms(2) by (auto simp: children_def)
  then show ?thesis
    using that f forest_ok_distinct[OF f] forest_ok_child[OF f] by (metis map_of_is_SomeI)
qed

text \<open>Where no entry bears the name, no child of the parent bears it.\<close>

lemma unborne_name:
  assumes "tree_ok root" "at_path p root = Some parent" "c \<in> set (children parent)"
    and "dn_eq up (edn (nentry parent))" "lookup (rdn # up) root = Inl exc"
  shows "\<not> rdn_eq (hd (edn (nentry c))) rdn"
proof
  assume eq: "rdn_eq (hd (edn (nentry c))) rdn"
  have "tree_ok parent" using tree_ok_at[OF assms(1,2)] by blast
  then obtain k r where c: "map_of (nchildren parent) k = Some c" "edn (nentry c) = r # edn (nentry parent)"
    using child_at[OF _ assms(3)] by blast
  have "at_path (p @ [k]) root = Some c" using assms(2) c(1) by (simp add: at_path_append)
  moreover have "dn_eq (rdn # up) (edn (nentry c))"
    using eq c(2) assms(4) rdn_eq_sym by (simp add: dn_eq_def)
  ultimately show False using lookup_complete[OF assms(1)] assms(5) by fastforce
qed

lemma view_at: "view n p = Some e \<longleftrightarrow> (\<exists>m. at_path p n = Some m \<and> nentry m = e)"
  by (auto simp: view_def)

lemma lookup_view:
  "tree_ok n \<Longrightarrow> lookup d n = Inr p \<longleftrightarrow> (\<exists>e. view n p = Some e \<and> dn_eq d (edn e))"
  using lookup_exact by (auto simp: view_at)

section \<open>Lemmas: moving below itself\<close>

lemma is_prefix_append: "is_prefix p (p @ r)"
  by (simp add: is_prefix_def)

lemma prefix_snoc: "is_prefix (p @ [k]) q \<longleftrightarrow> is_prefix p q \<and> is_prefix [k] (drop (length p) q)"
  by (induction p arbitrary: q) auto

lemma move_below:
  assumes "tree_ok root" and "p \<noteq> []" and "at_path p root = Some n"
    and "lookup (dn_up newDN) root = Inr (p @ r)"
  shows "view (fst (snd (move p newDN root))) = (\<lambda>q. if is_prefix p q then None else view root q)"
proof -
  obtain m where m: "at_path (p @ r) root = Some m" "dn_eq (dn_up newDN) (edn (nentry m))"
    using lookup_exact[OF assms(1)] assms(4) by blast
  obtain rs rs' where len: "edn (nentry n) = rs @ edn (nentry root)" "length rs = length p"
    "edn (nentry m) = rs' @ edn (nentry root)" "length rs' = length (p @ r)"
    using tree_ok_at[OF assms(1)] assms(3) m(1) by metis
  have "length (dn_up newDN) = length (edn (nentry m))" using dn_eq_length[OF m(2)] .
  then have "length (dn_up newDN) \<noteq> length (dn_up (edn (nentry n)))"
    using len assms(2) by (cases p) (simp_all add: dn_up_def)
  then have "\<not> dn_eq (dn_up newDN) (dn_up (edn (nentry n)))" using dn_eq_length by blast
  then have mv: "move p newDN root = move2 p (Some (p @ r)) newDN root"
    using assms(2-4) by (simp add: move_def)
  obtain parent where par: "at_path (butlast p) root = Some parent" "map_of (nchildren parent) (last p) = Some n"
    using assms(2,3) at_path_append[of "butlast p" "[last p]" root] by (auto split: option.splits)
  obtain old where old: "edn (nentry n) = old # edn (nentry parent)" "last p = rdn_text old"
    using tree_ok_child[OF _ par(2)] tree_ok_at[OF assms(1) par(1)] by blast
  have tree: "fst (snd (move p newDN root)) = on_path (butlast p) (remove_child (last p)) root"
    unfolding mv using assms(2,3) par old
    by (simp add: move2_def is_prefix_append Let_def split: list.split prod.split)
  show ?thesis
  proof
    fix q
    have gone: "view (remove_child (last p) parent) s = (if is_prefix [last p] s then None else view parent s)" for s
      by (cases s) (auto simp: view_Cons map_of_without)
    have pre: "is_prefix p q \<longleftrightarrow> is_prefix (butlast p) q \<and> is_prefix [last p] (drop (length (butlast p)) q)"
      using prefix_snoc[of "butlast p" "last p" q] assms(2) by simp
    have below: "is_prefix (butlast p) q \<Longrightarrow> view parent (drop (length (butlast p)) q) = view root q"
      using at_path_append[of "butlast p" "drop (length (butlast p)) q" root] par(1)
      by (auto simp: view_def is_prefix_def) (metis append_take_drop_id)
    show "view (fst (snd (move p newDN root))) q = (if is_prefix p q then None else view root q)"
      unfolding tree view_on_path[OF par(1)] gone pre using below by simp
  qed
qed



section \<open>Lemmas: places of what is found\<close>

lemma filtered_places:
  "map f ps = map Some ns \<Longrightarrow>
   map f (filter (\<lambda>p. case f p of None \<Rightarrow> False | Some n \<Rightarrow> P n) ps) = map Some (filter P ns)"
  by (induction ps arbitrary: ns) (auto simp: map_eq_Cons_conv Cons_eq_map_conv)


end
