(* ===== verification/Framing.thy ===== *)
theory Framing
  imports LdapRoundtrip
begin

text \<open>
  The receive loops: \<open>LDAPServer.data_received_async\<close> with the reader \<open>_read_from_stream\<close>
  (\<open>ldapserver.py\<close>) and \<open>LDAPClient.dataReceived_async\<close> (\<open>ldapclient.py\<close>). What the loops rely
  on is the interface \<open>frame_decoder\<close>; what both promise their handlers is proved once in
  \<open>receive_loop\<close> and holds for each loop by interpretation.

  A handler takes a message and the state, and gives the new state with the exception it let
  escape, if any. A loop gives that exception, the bytes left in the buffer, and the state.
\<close>

section \<open>What a handler accepts\<close>

text \<open>\<open>isinstance(x, LDAPProtocolRequest)\<close> and \<open>isinstance(x, LDAPProtocolResponse)\<close>.\<close>

fun is_request :: "ber \<Rightarrow> bool" where
  "is_request (OBindRequest t v dn au sasl) = True"
| "is_request (ONull k t) = (k = LDAPUnbindRequest)"
| "is_request (OSearchRequest t b sc d slim tlim ty f at) = True"
| "is_request (OModifyRequest t x m) = True"
| "is_request (OAddRequest t e a) = True"
| "is_request (OOctetString k t v) = (k = LDAPDelRequest)"
| "is_request (OModifyDNRequest t e r d n) = True"
| "is_request (OCompareRequest t e a) = True"
| "is_request (OInteger k t v) = (k = LDAPAbandonRequest)"
| "is_request (OExtendedRequest k t n v) = True"
| "is_request _ = False"

fun is_response :: "ber \<Rightarrow> bool" where
  "is_response (OSearchResultReference t us) = True"
| "is_response (OResult k t r) = True"
| "is_response (OExtendedResponse k t r n v) = True"
| "is_response (OSearchResultEntry t n at) = True"
| "is_response (OIntermediateResponse t n v) = True"
| "is_response _ = False"

fun is_message :: "ber \<Rightarrow> bool" where
  "is_message (OMessage t i v c) = True"
| "is_message _ = False"

section \<open>The loops\<close>

type_synonym 's handler = "ber \<Rightarrow> 's \<Rightarrow> exn option \<times> 's"
type_synonym 's outcome = "exn option \<times> bytes \<times> 's"

text \<open>The body of \<open>while True\<close> in \<open>data_received_async\<close>, on the whole buffer.\<close>

function server_loop :: "'s handler \<Rightarrow> bytes \<Rightarrow> 's \<Rightarrow> 's outcome" where
  "server_loop handle_async buffer s =
     (case berDecodeObject berdecoder buffer of
        Inl (BERExceptionInsufficientData _) \<Rightarrow> (None, buffer, s)
      | Inl e \<Rightarrow> (Some e, buffer, s)
      | Inr (None, used) \<Rightarrow> (None, drop (nat used) buffer, s)
      | Inr (Some message, used) \<Rightarrow>
          if \<not> is_message message then (Some AssertionError, drop (nat used) buffer, s)
          else case handle_async message s of
              (Some e, s') \<Rightarrow> (Some e, drop (nat used) buffer, s')
            | (None, s') \<Rightarrow> server_loop handle_async (drop (nat used) buffer) s')"
  by pat_completeness auto
termination
  by (relation "measure (\<lambda>(h, buffer, s). length buffer)") (auto dest: berDecodeObject_bounds)

definition data_received_async :: "'s handler \<Rightarrow> bytes \<Rightarrow> bytes \<Rightarrow> 's \<Rightarrow> 's outcome" where
  "data_received_async handle_async buffer recd s = server_loop handle_async (buffer @ recd) s"

text \<open>
  \<open>_read_from_stream\<close>: the chunks in the order they arrive, until one of them raises; what
  escapes \<open>data_received_async\<close> ends the reader.
\<close>

fun read_from_stream :: "'s handler \<Rightarrow> bytes list \<Rightarrow> bytes \<Rightarrow> 's \<Rightarrow> 's outcome" where
  "read_from_stream handle_async [] buffer s = (None, buffer, s)"
| "read_from_stream handle_async (data # chunks) buffer s =
     (case data_received_async handle_async buffer data s of
        (Some e, buffer', s') \<Rightarrow> (Some e, buffer', s')
      | (None, buffer', s') \<Rightarrow> read_from_stream handle_async chunks buffer' s')"

function client_loop :: "'s handler \<Rightarrow> bytes \<Rightarrow> 's \<Rightarrow> 's outcome" where
  "client_loop handle buffer s =
     (case berDecodeObject berdecoder buffer of
        Inl (BERExceptionInsufficientData _) \<Rightarrow> (None, buffer, s)
      | Inl e \<Rightarrow> (Some e, buffer, s)
      | Inr (None, used) \<Rightarrow> (None, drop (nat used) buffer, s)
      | Inr (Some ob, used) \<Rightarrow>
          if \<not> is_message ob then (Some AssertionError, drop (nat used) buffer, s)
          else case handle ob s of
              (Some e, s') \<Rightarrow> (Some e, drop (nat used) buffer, s')
            | (None, s') \<Rightarrow> client_loop handle (drop (nat used) buffer) s')"
  by pat_completeness auto
termination
  by (relation "measure (\<lambda>(h, buffer, s). length buffer)") (auto dest: berDecodeObject_bounds)

definition dataReceived_async :: "'s handler \<Rightarrow> bytes \<Rightarrow> bytes \<Rightarrow> 's \<Rightarrow> 's outcome" where
  "dataReceived_async handle buffer recd s = client_loop handle (buffer @ recd) s"

fun client_read_from_stream :: "'s handler \<Rightarrow> bytes list \<Rightarrow> bytes \<Rightarrow> 's \<Rightarrow> 's outcome" where
  "client_read_from_stream handle [] buffer s = (None, buffer, s)"
| "client_read_from_stream handle (data # chunks) buffer s =
     (case dataReceived_async handle buffer data s of
        (Some e, buffer', s') \<Rightarrow> (Some e, buffer', s')
      | (None, buffer', s') \<Rightarrow> client_read_from_stream handle chunks buffer' s')"

declare server_loop.simps [simp del] client_loop.simps [simp del]

section \<open>The interface of a decoder of frames\<close>

locale frame_decoder =
  fixes dec :: "bytes \<Rightarrow> exn + ('m option \<times> int)"
  assumes dec_Nil: "dec [] = Inr (None, 0)"
    and dec_bounds: "dec m = Inr (r, used) \<Longrightarrow> m \<noteq> [] \<Longrightarrow> 2 \<le> used \<and> used \<le> int (length m)"
    and dec_append: "dec m = Inr (r, used) \<Longrightarrow> m \<noteq> [] \<Longrightarrow> dec (m @ rest) = Inr (r, used)"
    and dec_error_append:
      "dec m = Inl e \<Longrightarrow> (\<And>d. e \<noteq> BERExceptionInsufficientData d) \<Longrightarrow> dec (m @ rest) = Inl e"
begin

definition frame :: "bytes \<Rightarrow> 'm \<Rightarrow> bool" where
  "frame w m \<longleftrightarrow> w \<noteq> [] \<and> dec w = Inr (Some m, int (length w))"

text \<open>A frame cut short asks for more data, never anything else.\<close>

lemma partial_frame:
  assumes "frame (p @ q) m" "p \<noteq> []" "q \<noteq> []"
  shows "\<exists>d. dec p = Inl (BERExceptionInsufficientData d)"
proof (rule ccontr)
  assume no: "\<not> ?thesis"
  have w: "dec (p @ q) = Inr (Some m, int (length (p @ q)))"
    using assms(1) by (simp add: frame_def)
  show False
  proof (cases "dec p")
    case (Inl e)
    then have "dec (p @ q) = Inl e" using no dec_error_append by blast
    with w show False by simp
  next
    case (Inr r)
    obtain x used where r: "r = (x, used)" by (cases r)
    have "dec (p @ q) = Inr (x, used)" using Inr r assms(2) dec_append by simp
    then have "used = int (length (p @ q))" using w by simp
    moreover have "used \<le> int (length p)" using Inr r assms(2) dec_bounds by blast
    ultimately show False using assms(3) by simp
  qed
qed

end

section \<open>The contract of a receive loop\<close>

locale receive_loop = frame_decoder dec
  for dec :: "bytes \<Rightarrow> exn + ('m option \<times> int)" +
  fixes hd1 :: "'m \<Rightarrow> 's \<Rightarrow> exn option \<times> 's"
    and loop :: "bytes \<Rightarrow> 's \<Rightarrow> 's outcome"
    and reader :: "bytes list \<Rightarrow> bytes \<Rightarrow> 's \<Rightarrow> 's outcome"
  assumes loop_unfold:
    "loop b s =
      (case dec b of
         Inl (BERExceptionInsufficientData _) \<Rightarrow> (None, b, s)
       | Inl e \<Rightarrow> (Some e, b, s)
       | Inr (None, used) \<Rightarrow> (None, drop (nat used) b, s)
       | Inr (Some m, used) \<Rightarrow>
           (case hd1 m s of
              (Some e, s') \<Rightarrow> (Some e, drop (nat used) b, s')
            | (None, s') \<Rightarrow> loop (drop (nat used) b) s'))"
    and reader_Nil: "reader [] b s = (None, b, s)"
    and reader_Cons: "reader (c # cs) b s =
      (case loop (b @ c) s of
         (Some e, b', s') \<Rightarrow> (Some e, b', s')
       | (None, b', s') \<Rightarrow> reader cs b' s')"
begin

lemma loop_frame:
  "frame w m \<Longrightarrow> loop (w @ rest) s =
     (case hd1 m s of (Some e, s') \<Rightarrow> (Some e, rest, s') | (None, s') \<Rightarrow> loop rest s')"
  using dec_append[of w "Some m" "int (length w)" rest]
  by (simp add: loop_unfold[of "w @ rest"] frame_def split: prod.splits option.splits)

definition partial :: "bytes \<Rightarrow> bool" where
  "partial p \<longleftrightarrow> p = [] \<or> (\<exists>q m. q \<noteq> [] \<and> frame (p @ q) m)"

lemma partial_Nil [simp]: "partial []"
  by (simp add: partial_def)

lemma partial_prefix: "partial (p @ q) \<Longrightarrow> partial p"
  unfolding partial_def by (metis append_assoc append_is_Nil_conv)

lemma loop_partial: "partial p \<Longrightarrow> loop p s = (None, p, s)"
proof (cases "p = []")
  case True
  then show ?thesis by (simp add: loop_unfold[of "[]"] dec_Nil)
next
  case False
  moreover assume "partial p"
  ultimately obtain d where "dec p = Inl (BERExceptionInsufficientData d)"
    using partial_frame[of p] unfolding partial_def by blast
  then show ?thesis by (simp add: loop_unfold[of p])
qed

lemma loop_frames:
  "list_all2 frame ws ms \<Longrightarrow>
   (\<forall>s'. for_each hd1 ms s = (None, s') \<longrightarrow> loop (concat ws @ rest) s = loop rest s') \<and>
   (\<forall>e s'. for_each hd1 ms s = (Some e, s') \<longrightarrow> (\<exists>b. loop (concat ws @ rest) s = (Some e, b, s')))"
proof (induction ws ms arbitrary: s rule: list_all2_induct)
  case (Cons w ws m ms)
  then show ?case by (auto simp: loop_frame split: prod.splits option.splits)
qed simp

text \<open>Wherever a stream of frames is cut, whole frames and a partial one lie before the cut.\<close>

lemma split_stream:
  "list_all2 frame ws ms \<Longrightarrow> partial part \<Longrightarrow> concat ws @ part = p @ rest \<Longrightarrow>
   \<exists>ws1 ws2 ms1 ms2 r. ms = ms1 @ ms2 \<and> list_all2 frame ws1 ms1 \<and> list_all2 frame ws2 ms2 \<and>
     p = concat ws1 @ r \<and> partial r \<and> r @ rest = concat ws2 @ part"
proof (induction ws ms arbitrary: p rule: list_all2_induct)
  case Nil
  then have part: "p @ rest = concat [] @ part" by simp
  moreover have "partial p" using Nil.prems(1) part partial_prefix[of p rest] by simp
  moreover have "p = concat [] @ p" by simp
  ultimately show ?case
    by (intro exI[of _ "[]"] exI[of _ p] conjI) (assumption | rule list.rel_intros append_Nil[symmetric])+
next
  case (Cons w ws m ms)
  show ?case
  proof (cases "length p < length w")
    case True
    then obtain q where q: "w = p @ q" "q \<noteq> []" using Cons.prems(2)
      by (auto simp: append_eq_append_conv2)
    then have "partial p" using Cons.hyps(1) by (auto simp: partial_def)
    then have "m # ms = [] @ m # ms \<and> list_all2 frame [] [] \<and> list_all2 frame (w # ws) (m # ms) \<and>
        p = concat [] @ p \<and> partial p \<and> p @ rest = concat (w # ws) @ part"
      using Cons by simp
    then show ?thesis by blast
  next
    case False
    define p' where "p' = drop (length w) p"
    have eq: "w @ (concat ws @ part) = p @ rest" using Cons.prems(2) by simp
    have "take (length w) p = w" using arg_cong[OF eq, of "take (length w)"] False by simp
    then have p: "p = w @ p'" by (metis append_take_drop_id p'_def)
    with eq have p2: "concat ws @ part = p' @ rest" by simp
    obtain ws1 ws2 ms1 ms2 r where "ms = ms1 @ ms2" "list_all2 frame ws1 ms1"
      "list_all2 frame ws2 ms2" "p' = concat ws1 @ r" "partial r" "r @ rest = concat ws2 @ part"
      using Cons.IH[OF Cons.prems(1) p2] by blast
    then have "m # ms = (m # ms1) @ ms2 \<and> list_all2 frame (w # ws1) (m # ms1) \<and>
        list_all2 frame ws2 ms2 \<and> p = concat (w # ws1) @ r \<and> partial r \<and>
        r @ rest = concat ws2 @ part"
      using Cons.hyps(1) p by simp
    then show ?thesis by blast
  qed
qed

lemma reader_frames:
  assumes "list_all2 frame ws ms" "partial part" "partial b" "b @ concat cs = concat ws @ part"
  shows "(\<forall>s'. for_each hd1 ms s = (None, s') \<longrightarrow> reader cs b s = (None, part, s')) \<and>
    (\<forall>e s'. for_each hd1 ms s = (Some e, s') \<longrightarrow> (\<exists>b'. reader cs b s = (Some e, b', s')))"
  using assms
proof (induction cs arbitrary: b ws ms s)
  case Nil
  then have "for_each hd1 ms s = (None, s') \<Longrightarrow> loop b s = loop part s'"
    and "for_each hd1 ms s = (Some e, s') \<Longrightarrow> \<exists>b'. loop b s = (Some e, b', s')" for e s'
    using loop_frames[of ws ms s part] by auto
  moreover have "loop b s = (None, b, s)" "\<And>s'. loop part s' = (None, part, s')"
    using Nil.prems by (auto intro: loop_partial)
  ultimately show ?case by (auto simp: reader_Nil)
next
  case (Cons c cs)
  have "concat ws @ part = (b @ c) @ concat cs" using Cons.prems(4) by simp
  from split_stream[OF Cons.prems(1,2) this] obtain ws1 ws2 ms1 ms2 r where
    *: "ms = ms1 @ ms2" "list_all2 frame ws1 ms1" "list_all2 frame ws2 ms2"
    "b @ c = concat ws1 @ r" "partial r" "r @ concat cs = concat ws2 @ part" by blast
  have l: "\<And>s'. for_each hd1 ms1 s = (None, s') \<Longrightarrow> loop (b @ c) s = (None, r, s')"
      "\<And>e s'. for_each hd1 ms1 s = (Some e, s') \<Longrightarrow> \<exists>b'. loop (b @ c) s = (Some e, b', s')"
    using loop_frames[OF *(2), of s r] loop_partial[OF *(5)] *(4) by auto
  show ?case
  proof (cases "for_each hd1 ms1 s")
    case (Pair e s1)
    then show ?thesis
      using l Cons.IH[OF *(3) Cons.prems(2) *(5,6), of s1]
      by (cases e) (force simp: reader_Cons for_each_append *(1))+
  qed
qed

end

section \<open>The loops meet the contract\<close>

interpretation ber: frame_decoder "berDecodeObject ctx" for ctx
  by unfold_locales
    (use berDecodeObject_bounds berDecodeObject_append berDecodeObject_error_append in auto)

text \<open>The assertion on the class of the message counted to the handler.\<close>

definition checked :: "'s handler \<Rightarrow> 's handler" where
  "checked handle m s = (if is_message m then handle m s else (Some AssertionError, s))"

interpretation server: receive_loop "berDecodeObject berdecoder" "checked handle"
    "server_loop handle" "read_from_stream handle" for handle
  by unfold_locales
    (simp_all add: server_loop.simps[of handle] data_received_async_def checked_def
      split: sum.split option.split exn.split prod.split)

interpretation client: receive_loop "berDecodeObject berdecoder" "checked handle"
    "client_loop handle" "client_read_from_stream handle" for handle
  by unfold_locales
    (simp_all add: client_loop.simps[of handle] dataReceived_async_def checked_def
      split: sum.split option.split exn.split prod.split)

section \<open>Messages on the wire are frames\<close>

text \<open>\<open>w\<close> is what a peer sends for the message \<open>m\<close>.\<close>

definition encodes :: "ber \<Rightarrow> bytes \<Rightarrow> bool" where
  "encodes m w \<longleftrightarrow> is_message m \<and> wf_op (msg_value m) \<and> toWire m = Inr w"

lemma is_message_iff: "is_message m \<longleftrightarrow> (\<exists>t i v c. m = OMessage t i v c)"
  by (cases m) auto

lemma is_message_canon [simp]: "is_message (canon_message m)"
  by (simp add: canon_message_def)

lemma encodes_frame: "encodes m w \<Longrightarrow> ber.frame berdecoder w (canon_message m)"
proof -
  assume m: "encodes m w"
  then have "decodes berdecoder w (canon_message m)"
    using decodesE_message[of "msg_value m"] by (auto simp: encodes_def is_message_iff decodesE_def)
  then show ?thesis
    using berDecodeObject_decodes[of berdecoder w _ "[]"] decodes_nonempty
    by (simp add: ber.frame_def)
qed

lemma encodes_frames:
  "list_all2 encodes ms ws \<Longrightarrow> list_all2 (ber.frame berdecoder) ws (map canon_message ms)"
  by (induction ms ws rule: list_all2_induct) (auto simp: encodes_frame)

lemma deliver_checked:
  "for_each (checked handle) (map canon_message ms) s = for_each handle (map canon_message ms) s"
  by (induction ms arbitrary: s) (auto simp: checked_def split: prod.split option.split)

text \<open>Part of a message, of which some bytes are still to come; nothing at all included.\<close>

definition message_part :: "bytes \<Rightarrow> bool" where
  "message_part p \<longleftrightarrow> p = [] \<or> (\<exists>m q. q \<noteq> [] \<and> encodes m (p @ q))"

lemma server_partial: "message_part p \<Longrightarrow> server.partial p"
  using encodes_frame unfolding message_part_def server.partial_def by blast

lemma client_partial: "message_part p \<Longrightarrow> client.partial p"
  using encodes_frame unfolding message_part_def client.partial_def by blast

section \<open>What stops a loop for good\<close>

text \<open>
  A complete object whose members are cut short raises the exception that means "wait for the
  rest" in the loop.
\<close>

definition malformed_inside :: "bytes \<Rightarrow> bool" where
  "malformed_inside b \<longleftrightarrow>
     (\<exists>i content used d. ber_header b = Inr (i, content, used) \<and>
        decode_body berdecoder i content = Inl (BERExceptionInsufficientData d))"

lemma malformed_append: "malformed_inside b \<Longrightarrow> malformed_inside (b @ rest)"
  using ber_header_append unfolding malformed_inside_def by blast

lemma server_loop_malformed: "malformed_inside b \<Longrightarrow> server_loop handle b s = (None, b, s)"
  using berDecodeObject_body_error_append[of b _ _ _ berdecoder _ "[]"]
  by (auto simp: malformed_inside_def server_loop.simps[of handle b])

lemma reader_malformed:
  "malformed_inside b \<Longrightarrow> read_from_stream handle chunks b s = (None, b @ concat chunks, s)"
  by (induction chunks arbitrary: b)
    (simp_all add: data_received_async_def server_loop_malformed malformed_append)

end
