(* ===== verification/Programs.thy ===== *)
theory Programs
  imports Prelude
begin

text \<open>
  Coroutines that change a state and may raise: the operators that the handlers of the server are
  written with, and the rule that a relation between states which every step keeps is kept by the
  whole.
\<close>

section \<open>Programs over a state\<close>

text \<open>
  A coroutine that changes a state, as a function to its result or exception and the state it
  leaves; the operations that only read or compute are lifted into it.
\<close>

type_synonym ('s, 'e, 'a) prog = "'s \<Rightarrow> ('e + 'a) \<times> 's"

definition returnP :: "'a \<Rightarrow> ('s, 'e, 'a) prog" where
  "returnP a s = (Inr a, s)"

definition raiseP :: "'e \<Rightarrow> ('s, 'e, 'a) prog" where
  "raiseP e s = (Inl e, s)"

definition liftP :: "'e + 'a \<Rightarrow> ('s, 'e, 'a) prog" where
  "liftP r s = (r, s)"

definition bindP :: "('s, 'e, 'a) prog \<Rightarrow> ('a \<Rightarrow> ('s, 'e, 'b) prog) \<Rightarrow> ('s, 'e, 'b) prog" where
  "bindP m f s = (case m s of (Inl e, s') \<Rightarrow> (Inl e, s') | (Inr a, s') \<Rightarrow> f a s')"

definition catchP :: "('s, 'e, 'a) prog \<Rightarrow> ('e \<Rightarrow> ('s, 'e, 'a) prog) \<Rightarrow> ('s, 'e, 'a) prog" where
  "catchP m h s = (case m s of (Inl e, s') \<Rightarrow> h e s' | (Inr a, s') \<Rightarrow> (Inr a, s'))"

definition getP :: "('s \<Rightarrow> 'a) \<Rightarrow> ('s, 'e, 'a) prog" where
  "getP f s = (Inr (f s), s)"

definition updateP :: "('s \<Rightarrow> 's) \<Rightarrow> ('s, 'e, unit) prog" where
  "updateP f s = (Inr (), f s)"

definition unlessP :: "bool \<Rightarrow> 'e \<Rightarrow> ('s, 'e, unit) prog" where
  "unlessP b e = (if b then returnP () else raiseP e)"

text \<open>What changes a state and gives the exception that escaped, if any, as a program.\<close>

definition effectP :: "('s \<Rightarrow> 'e option \<times> 's) \<Rightarrow> ('s, 'e, unit) prog" where
  "effectP f s = (case f s of (Some e, s') \<Rightarrow> (Inl e, s') | (None, s') \<Rightarrow> (Inr (), s'))"

lemmas prog_defs = returnP_def raiseP_def liftP_def bindP_def catchP_def getP_def updateP_def
  unlessP_def effectP_def

text \<open>A relation of states that every step keeps is kept by the whole.\<close>

definition keeps :: "('s \<Rightarrow> 's \<Rightarrow> bool) \<Rightarrow> ('s, 'e, 'a) prog \<Rightarrow> bool" where
  "keeps R m \<longleftrightarrow> (\<forall>s. R s (snd (m s)))"

named_theorems keeps_rules \<open>introduction rules of keeps\<close>

lemma keeps_still [keeps_rules]:
  "reflp R \<Longrightarrow> keeps R (returnP a)" "reflp R \<Longrightarrow> keeps R (raiseP e)" "reflp R \<Longrightarrow> keeps R (liftP r)"
  "reflp R \<Longrightarrow> keeps R (getP f)" "reflp R \<Longrightarrow> keeps R (unlessP b e)"
  by (auto simp: keeps_def prog_defs reflpD)

lemma keeps_bindP [keeps_rules]:
  "transp R \<Longrightarrow> keeps R m \<Longrightarrow> (\<And>a. keeps R (f a)) \<Longrightarrow> keeps R (bindP m f)"
  unfolding keeps_def bindP_def
  by (auto split: prod.split sum.split) (metis snd_conv transpD)+

lemma keeps_catchP [keeps_rules]:
  "transp R \<Longrightarrow> keeps R m \<Longrightarrow> (\<And>e. keeps R (h e)) \<Longrightarrow> keeps R (catchP m h)"
  unfolding keeps_def catchP_def
  by (auto split: prod.split sum.split) (metis snd_conv transpD)+

lemma keeps_updateP: "(\<And>s. R s (f s)) \<Longrightarrow> keeps R (updateP f)"
  by (simp add: keeps_def updateP_def)

lemma keeps_effectP: "(\<And>s. R s (snd (f s))) \<Longrightarrow> keeps R (effectP f)"
  unfolding keeps_def effectP_def by (auto split: prod.split option.split) (metis snd_conv)+

lemma keeps_if [keeps_rules]: "keeps R m \<Longrightarrow> keeps R n \<Longrightarrow> keeps R (if b then m else n)"
  by simp

lemma keeps_case [keeps_rules]:
  "(\<And>a. keeps R (f a)) \<Longrightarrow> keeps R n \<Longrightarrow> keeps R (case x of Some a \<Rightarrow> f a | None \<Rightarrow> n)"
  "(\<And>a b. keeps R (g a b)) \<Longrightarrow> keeps R (case p of (a, b) \<Rightarrow> g a b)"
  by (auto split: option.split prod.split)

lemma bindP_unless: "b \<Longrightarrow> bindP (unlessP b e) f c = f () c"
  and bindP_get: "bindP (getP g) h c = h (g c) c"
  and bindP_lift: "bindP (liftP (Inr x)) h c = h x c"
  by (simp_all add: bindP_def unlessP_def returnP_def getP_def liftP_def)

end
