(* ===== verification/LdapServer.thy ===== *)
theory LdapServer
  imports InMemory Framing Programs
begin

text \<open>
  The request handlers of \<open>ldapserver.py\<close> over a tree of \<open>inmemory.py\<close>: dispatch on the class of
  the request, the answer to exceptions, and every \<open>handle_\<close> method. The state is the tree that the
  factory holds, the objects that have left it, the identity of the bound user, and the messages
  sent. SHA-1, the salt drawn, the filter parser and the text of a general exception are parameters.
\<close>

section \<open>The state of a connection\<close>

record server =
  stree :: node
  detached :: "node list"
  fresh :: nat
  boundUser :: "nat option"
  sent :: "ber list"
  closing :: bool

type_synonym 'a run = "(server, exn, 'a) prog"

text \<open>The object of an identity, wherever it is, and a change of its entry.\<close>

definition object_entry :: "nat \<Rightarrow> server \<Rightarrow> entry option" where
  "object_entry i s =
     map_option nentry (find (\<lambda>n. nid n = i) (concat (map subtree (stree s # detached s))))"

fun update_object :: "nat \<Rightarrow> (entry \<Rightarrow> entry) \<Rightarrow> node \<Rightarrow> node"
  and update_objects :: "nat \<Rightarrow> (entry \<Rightarrow> entry) \<Rightarrow> (string \<times> node) list \<Rightarrow> (string \<times> node) list" where
  "update_object i f (Node j e cs) = Node j (if j = i then f e else e) (update_objects i f cs)"
| "update_objects i f [] = []"
| "update_objects i f (kc # cs) = (fst kc, update_object i f (snd kc)) # update_objects i f cs"

section \<open>Responses\<close>

definition ldap_response :: "result_cls \<Rightarrow> int \<Rightarrow> pytext option \<Rightarrow> pytext option \<Rightarrow> ber" where
  "ldap_response k code matched message =
     OResult k (class_tag (CResult k))
       \<lparr>resultCode = code, matchedDN = (case matched of None \<Rightarrow> Str [] | Some d \<Rightarrow> d),
        errorMessage = (case message of None \<Rightarrow> Str [] | Some m \<Rightarrow> m),
        referral = None, serverSaslCreds = None\<rparr>"

definition extended_response :: "int \<Rightarrow> pytext option \<Rightarrow> pytext option \<Rightarrow> ber" where
  "extended_response code message name =
     OExtendedResponse LDAPExtendedResponse (class_tag (CExtendedResponse LDAPExtendedResponse))
       \<lparr>resultCode = code, matchedDN = Str [],
        errorMessage = (case message of None \<Rightarrow> Str [] | Some m \<Rightarrow> m),
        referral = None, serverSaslCreds = None\<rparr> name None"

definition notice_of_disconnection :: pytext where
  "notice_of_disconnection = Str ''1.3.6.1.4.1.1466.20036''"

definition LDAPPasswordModifyRequest_oid :: bytes where
  "LDAPPasswordModifyRequest_oid = lit ''1.3.6.1.4.1.4203.1.11.1''"

text \<open>\<open>_respond\<close>: a response is encoded and written.\<close>

definition respond :: "int \<Rightarrow> ber \<Rightarrow> unit run" where
  "respond msgid r =
     (let m = OMessage (class_tag LDAPMessage) msgid r None in
      bindP (liftP (toWire m)) (\<lambda>w. updateP (\<lambda>s. s\<lparr>sent := sent s @ [m]\<rparr>)))"

section \<open>Controls\<close>

fun checkControls :: "control list option \<Rightarrow> exn + unit" where
  "checkControls None = Inr ()"
| "checkControls (Some []) = Inr ()"
| "checkControls (Some ((ctype, crit, cvalue) # cs)) =
     (if crit \<noteq> None \<and> crit \<noteq> Some 0 then
        Inl (raiseE LDAPUnavailableCriticalExtension
          (Some (Byt (lit ''Unknown control '' @ to_bytes ctype))))
      else checkControls (Some cs))"

section \<open>Handlers\<close>

text \<open>The object a name leads to: its path and its node.\<close>

definition lookup_object :: "dn \<Rightarrow> (path \<times> node) run" where
  "lookup_object d =
     bindP (getP stree) (\<lambda>root.
     bindP (liftP (lookup d root)) (\<lambda>p.
       case at_path p root of Some n \<Rightarrow> returnP (p, n) | None \<Rightarrow> raiseP OutsideModel))"

definition is_noSuchObject :: "exn \<Rightarrow> bool" where
  "is_noSuchObject e \<longleftrightarrow>
     (case e of LDAPException c m \<Rightarrow> c = result_code LDAPNoSuchObject | _ \<Rightarrow> False)"

fun is_ldap_exception :: "exn \<Rightarrow> bool" where
  "is_ldap_exception (LDAPException c m) \<longleftrightarrow> True"
| "is_ldap_exception _ \<longleftrightarrow> False"

definition handle_LDAPBindRequest ::
    "(bytes \<Rightarrow> bytes) \<Rightarrow> int \<Rightarrow> pytext \<Rightarrow> bind_auth \<Rightarrow> bool \<Rightarrow> control list option \<Rightarrow> ber run" where
  "handle_LDAPBindRequest sha1 version dn auth sasl controls =
     bindP (unlessP (version = 3)
       (raiseE LDAPProtocolError (Some (Str (''Version '' @ int_text version @ '' not supported''))))) (\<lambda>_.
     bindP (liftP (checkControls controls)) (\<lambda>_.
     bindP (unlessP (\<not> sasl)
       (raiseE LDAPAuthMethodNotSupported (Some (Str ''SASL authentication is not supported'')))) (\<lambda>_.
     if dn = Byt [] then
       bindP (updateP (\<lambda>s. s\<lparr>boundUser := None\<rparr>)) (\<lambda>_.
         returnP (ldap_response LDAPBindResponse 0 None None))
     else
       bindP (liftP (dn_of dn)) (\<lambda>d.
       bindP (catchP (lookup_object d) (\<lambda>e.
           if is_noSuchObject e then raiseP (raiseE LDAPInvalidCredentials None) else raiseP e)) (\<lambda>(p, n).
       case auth of
         Sasl m c \<Rightarrow> raiseP AssertionError
       | Simple pw \<Rightarrow>
           bindP (liftP (entry_bind sha1 (nentry n) pw)) (\<lambda>bound.
           bindP (updateP (\<lambda>s. s\<lparr>boundUser := Some (nid n)\<rparr>)) (\<lambda>_.
             returnP (ldap_response LDAPBindResponse (result_code Success)
               (Some (Str (dn_text (edn bound)))) None))))))))"

definition handle_LDAPUnbindRequest :: "unit run" where
  "handle_LDAPUnbindRequest = updateP (\<lambda>s. s\<lparr>closing := True\<rparr>)"

definition getRootDSE :: "(ber \<Rightarrow> unit run) \<Rightarrow> ber run" where
  "getRootDSE reply =
     bindP (getP stree) (\<lambda>root.
     bindP (reply (OSearchResultEntry (class_tag LDAPSearchResultEntry) (Str [])
         [(Str ''supportedLDAPVersion'', [Str ''3'']),
          (Str ''namingContexts'', [Str (dn_text (edn (nentry root)))]),
          (Str ''supportedExtension'', [Byt LDAPPasswordModifyRequest_oid])])) (\<lambda>_.
       returnP (ldap_response LDAPSearchResultDone (result_code Success) None None)))"

definition handle_LDAPCompareRequest ::
    "(string \<Rightarrow> exn + ber) \<Rightarrow> (exn \<Rightarrow> string) \<Rightarrow> pytext \<Rightarrow> ber \<Rightarrow> control list option \<Rightarrow> ber run" where
  "handle_LDAPCompareRequest parseFilter errtext entry ava controls =
     bindP (liftP (checkControls controls)) (\<lambda>_.
     bindP (liftP (dn_of entry)) (\<lambda>d.
       catchP
         (bindP (lookup_object d) (\<lambda>(p, base).
          bindP (case ava of
              OAttributeValueAssertion k t a v \<Rightarrow>
                returnP (OAttributeValueAssertion LDAPFilter_equalityMatch
                  (class_tag (CAssertion LDAPFilter_equalityMatch)) a v)
            | _ \<Rightarrow> raiseP AttributeError) (\<lambda>search_filter.
          bindP (liftP (search_list parseFilter None (Some search_filter) (Some LDAP_SCOPE_baseObject) base))
            (\<lambda>result_list.
              returnP (ldap_response LDAPCompareResponse
                (result_code (if result_list \<noteq> [] then LDAPCompareTrue else LDAPCompareFalse)) None None)))))
         (\<lambda>e. case e of
            LDAPException c m \<Rightarrow> returnP (ldap_response LDAPCompareResponse c None None)
          | _ \<Rightarrow> returnP (ldap_response LDAPCompareResponse (result_code LDAPOther) None (Some (Str (errtext e)))))))"

text \<open>The entry as it is sent: the attributes asked for that it has, or all of them.\<close>

definition filtered_attribs :: "pytext list \<Rightarrow> entry \<Rightarrow> exn + (pytext \<times> pytext list) list" where
  "filtered_attribs requested e =
     (if requested \<noteq> [] \<and> Byt (lit ''*'') \<notin> set requested then
        bindE (mapE (\<lambda>k. bindE (entry_has_key e k) (\<lambda>has.
            if has then bindE (item_values e k) (\<lambda>vs. Inr [(k, vs)]) else Inr [])) requested)
          (\<lambda>xs. Inr (concat xs))
      else entry_items e)"

definition sendEntryToClient :: "pytext list \<Rightarrow> (ber \<Rightarrow> unit run) \<Rightarrow> node \<Rightarrow> unit run" where
  "sendEntryToClient requested reply n =
     bindP (liftP (filtered_attribs requested (nentry n))) (\<lambda>attribs.
       reply (OSearchResultEntry (class_tag LDAPSearchResultEntry) (Str (dn_text (edn (nentry n)))) attribs))"

text \<open>A coroutine as the callback of a walk.\<close>

definition as_callback :: "(node \<Rightarrow> unit run) \<Rightarrow> node \<Rightarrow> server \<Rightarrow> exn option \<times> server" where
  "as_callback f n s = (case f n s of (Inl e, s') \<Rightarrow> (Some e, s') | (Inr u, s') \<Rightarrow> (None, s'))"

definition cbSearchGotBase ::
    "(string \<Rightarrow> exn + ber) \<Rightarrow> int \<Rightarrow> ber \<Rightarrow> pytext list \<Rightarrow> (ber \<Rightarrow> unit run) \<Rightarrow> node \<Rightarrow> ber run" where
  "cbSearchGotBase parseFilter sc filt attrs reply base =
     bindP (effectP (search parseFilter None (Some filt) (Some sc)
         (as_callback (sendEntryToClient attrs reply)) base)) (\<lambda>_.
       returnP (ldap_response LDAPSearchResultDone (result_code Success) None None))"

definition handle_LDAPSearchRequest ::
    "(string \<Rightarrow> exn + ber) \<Rightarrow> (exn \<Rightarrow> string) \<Rightarrow> pytext \<Rightarrow> int \<Rightarrow> ber \<Rightarrow> pytext list \<Rightarrow>
     control list option \<Rightarrow> (ber \<Rightarrow> unit run) \<Rightarrow> ber run" where
  "handle_LDAPSearchRequest parseFilter errtext base sc filt attrs controls reply =
     bindP (liftP (checkControls controls)) (\<lambda>_.
     bindP (liftP (if base = Byt [] \<and> sc = LDAP_SCOPE_baseObject then
                     bindE (toWire filt) (\<lambda>a. bindE (toWire LDAPFilterMatchAll) (\<lambda>b. Inr (a = b)))
                   else Inr False)) (\<lambda>root_dse.
     if root_dse then getRootDSE reply
     else
       bindP (liftP (dn_of base)) (\<lambda>d.
         catchP
           (bindP (lookup_object d) (\<lambda>(p, n). cbSearchGotBase parseFilter sc filt attrs reply n))
           (\<lambda>e. case e of
              LDAPException c m \<Rightarrow> returnP (ldap_response LDAPSearchResultDone c None None)
            | _ \<Rightarrow> returnP (ldap_response LDAPSearchResultDone (result_code LDAPOther) None
                     (Some (Str (errtext e))))))))"

definition handle_LDAPDelRequest :: "pytext \<Rightarrow> control list option \<Rightarrow> ber run" where
  "handle_LDAPDelRequest v controls =
     bindP (liftP (checkControls controls)) (\<lambda>_.
     bindP (liftP (dn_of v)) (\<lambda>d.
     bindP (lookup_object d) (\<lambda>(p, n).
     bindP (getP stree) (\<lambda>root.
     bindP (liftP (delete_entry p root)) (\<lambda>(c, root').
     bindP (updateP (\<lambda>s. s\<lparr>stree := root', detached := c # detached s\<rparr>)) (\<lambda>_.
       returnP (ldap_response LDAPDelResponse 0 None None)))))))"

text \<open>The dictionary of sets that an add request's attributes make.\<close>

definition add_request_pair :: "ber list \<Rightarrow> (pytext, pytext list) dict \<Rightarrow> exn + (pytext, pytext list) dict" where
  "add_request_pair pair attributes =
     bindE (unpack2 pair) (\<lambda>(name, vals).
     bindE (as_octets name) (\<lambda>key.
     bindE (as_sequence vals) (\<lambda>xs.
       let old = (case map_of attributes key of None \<Rightarrow> [] | Some vs \<Rightarrow> vs);
           new = map svalue (filter (\<lambda>x. case x of OOctetString k t v \<Rightarrow> True | _ \<Rightarrow> False) xs)
       in Inr (dict_set key (foldl (\<lambda>vs v. if v \<in> set vs then vs else vs @ [v]) old new) attributes))))"

definition handle_LDAPAddRequest ::
    "pytext option \<Rightarrow> ber list list option \<Rightarrow> control list option \<Rightarrow> ber run" where
  "handle_LDAPAddRequest entry attrs controls =
     bindP (liftP (checkControls controls)) (\<lambda>_.
     bindP (liftP (case attrs of None \<Rightarrow> Inl AssertionError | Some ps \<Rightarrow> foldE add_request_pair ps [])) (\<lambda>attributes.
     bindP (liftP (case entry of None \<Rightarrow> Inl OutsideModel | Some v \<Rightarrow> dn_of v)) (\<lambda>d.
     bindP (liftP (case d of [] \<Rightarrow> Inl IndexError | r # up \<Rightarrow> Inr (rdn_text r))) (\<lambda>rdn.
     bindP (lookup_object (dn_up d)) (\<lambda>(p, parent).
     bindP (liftP (rdn_of_text rdn)) (\<lambda>r.
     bindP (getP fresh) (\<lambda>new.
     bindP (liftP (addChild r (Inr attributes) new parent)) (\<lambda>parent'.
     bindP (updateP (\<lambda>s. s\<lparr>stree := on_path p (\<lambda>_. parent') (stree s), fresh := Suc new\<rparr>)) (\<lambda>_.
       returnP (ldap_response LDAPAddResponse 0 None None))))))))))"

definition handle_LDAPModifyDNRequest ::
    "pytext \<Rightarrow> pytext \<Rightarrow> int \<Rightarrow> pytext option \<Rightarrow> control list option \<Rightarrow> ber run" where
  "handle_LDAPModifyDNRequest entry rdn delold newsup controls =
     bindP (liftP (checkControls controls)) (\<lambda>_.
     bindP (liftP (dn_of entry)) (\<lambda>d.
     bindP (liftP (bindE (to_unicode rdn) rdn_of_text)) (\<lambda>r.
     bindP (unlessP (delold \<noteq> 0)
       (raiseE LDAPUnwillingToPerform (Some (Str ''Cannot handle preserving old RDN yet.'')))) (\<lambda>_.
     bindP (liftP (case newsup of None \<Rightarrow> Inr (dn_up d) | Some v \<Rightarrow> dn_of v)) (\<lambda>superior.
     bindP (lookup_object d) (\<lambda>(p, n).
     bindP (effectP (\<lambda>s.
         let (exc, root', gone) = move p (r # superior) (stree s) in
         (exc, s\<lparr>stree := root', detached := gone @ detached s\<rparr>))) (\<lambda>_.
       returnP (ldap_response LDAPModifyDNResponse 0 None None))))))))"

definition handle_LDAPModifyRequest :: "ber \<Rightarrow> control list option \<Rightarrow> ber run" where
  "handle_LDAPModifyRequest request controls =
     bindP (liftP (checkControls controls)) (\<lambda>_.
     bindP (liftP (modify_fromLDAP request)) (\<lambda>op.
     bindP (effectP (\<lambda>s.
         let (exc, root') = modify_tree op (stree s) in (exc, s\<lparr>stree := root'\<rparr>))) (\<lambda>_.
       returnP (ldap_response LDAPModifyResponse 0 None None))))"

section \<open>Extended requests\<close>

record password_modify =
  userIdentity :: "pytext option"
  oldPasswd :: "pytext option"
  newPasswd :: "pytext option"

definition password_item :: "ber \<Rightarrow> password_modify \<Rightarrow> exn + password_modify" where
  "password_item v r =
     (let twice = (\<lambda>x. Inl (raiseE LDAPProtocolError
            (Some (Str (''Extended request PasswordModify received '' @ x @ '' twice.''))))) in
      if is_part LDAPPasswordModifyRequest_userIdentity v then
        (if userIdentity r \<noteq> None then twice ''userIdentity''
         else Inr (r\<lparr>userIdentity := Some (svalue v)\<rparr>))
      else if is_part LDAPPasswordModifyRequest_oldPasswd v then
        (if oldPasswd r \<noteq> None then twice ''oldPasswd'' else Inr (r\<lparr>oldPasswd := Some (svalue v)\<rparr>))
      else if is_part LDAPPasswordModifyRequest_newPasswd v then
        (if newPasswd r \<noteq> None then twice ''newPasswd'' else Inr (r\<lparr>newPasswd := Some (svalue v)\<rparr>))
      else Inl (raiseE LDAPProtocolError
        (Some (Str ''Extended request PasswordModify received unexpected item.''))))"

definition extendedRequest_LDAPPasswordModifyRequest ::
    "(bytes \<Rightarrow> bytes) \<Rightarrow> bytes \<Rightarrow> ber \<Rightarrow> ber run" where
  "extendedRequest_LDAPPasswordModifyRequest sha1 salt data =
     (case seq_data data of
        None \<Rightarrow> raiseP (raiseE LDAPProtocolError
          (Some (Str ''Extended request PasswordModify expected a BERSequence.'')))
      | Some items \<Rightarrow>
          bindP (liftP (foldE password_item items
              \<lparr>userIdentity = None, oldPasswd = None, newPasswd = None\<rparr>)) (\<lambda>r.
          bindP (getP boundUser) (\<lambda>user.
          case user of
            None \<Rightarrow> raiseP (raiseE LDAPStrongAuthRequired None)
          | Some i \<Rightarrow>
              bindP (getP (object_entry i)) (\<lambda>found.
              case found of
                None \<Rightarrow> raiseP OutsideModel
              | Some e \<Rightarrow>
                  bindP (case userIdentity r of
                      None \<Rightarrow> returnP ()
                    | Some u \<Rightarrow>
                        if \<not> dn_eq_text (edn e) u then
                          bindP (liftP (to_unicode u)) (\<lambda>_.
                            raiseP (raiseE LDAPInsufficientAccessRights None))
                        else returnP ()) (\<lambda>_.
                  case (oldPasswd r, newPasswd r) of
                    (None, Some new) \<Rightarrow>
                      bindP (liftP (setPassword sha1 e (to_bytes new) salt)) (\<lambda>e'.
                      bindP (updateP (\<lambda>s. s\<lparr>stree := update_object i (\<lambda>_. e') (stree s),
                          detached := map (update_object i (\<lambda>_. e')) (detached s)\<rparr>)) (\<lambda>_.
                        returnP (extended_response (result_code Success) None
                          (Some (Byt LDAPPasswordModifyRequest_oid)))))
                  | _ \<Rightarrow> raiseP (raiseE LDAPOperationsError
                      (Some (Str ''Password does not support this case.''))))))))"

definition password_modify_ctx :: ctx where
  "password_modify_ctx =
     Ctx BERDecoderContext None
       (Some (Ctx LDAPBERDecoderContext_LDAPPasswordModifyRequest None
         (Some (Ctx BERDecoderContext None None))))"

definition handle_LDAPExtendedRequest ::
    "(bytes \<Rightarrow> bytes) \<Rightarrow> bytes \<Rightarrow> pytext \<Rightarrow> pytext option \<Rightarrow> control list option \<Rightarrow> ber run" where
  "handle_LDAPExtendedRequest sha1 salt name reqvalue controls =
     bindP (liftP (checkControls controls)) (\<lambda>_.
     if name = Byt LDAPPasswordModifyRequest_oid then
       bindP (liftP (case reqvalue of
             Some (Byt b) \<Rightarrow> berDecodeMultiple b password_modify_ctx
           | _ \<Rightarrow> Inl AssertionError)) (\<lambda>values.
         catchP
           (case values of
              [data] \<Rightarrow> extendedRequest_LDAPPasswordModifyRequest sha1 salt data
            | _ \<Rightarrow> raiseP TypeError)
           (\<lambda>e. case e of
              LDAPException c m \<Rightarrow> returnP (extended_response c m (Some name))
            | _ \<Rightarrow> raiseP e))
     else
       raiseP (raiseE LDAPProtocolError
         (Some (Byt (lit ''Unknown extended request: '' @ to_bytes name)))))"

section \<open>Dispatch\<close>

definition handleUnknown :: "ber run" where
  "handleUnknown =
     returnP (extended_response (result_code LDAPProtocolError) (Some (Str ''Unknown request''))
       (Some notice_of_disconnection))"

text \<open>What the dispatcher is given of the surroundings.\<close>

record world =
  wsha1 :: "bytes \<Rightarrow> bytes"
  wsalt :: bytes
  wparse :: "string \<Rightarrow> exn + ber"
  wtext :: "exn \<Rightarrow> string"

text \<open>The handler of a request, by its class; None stands for a handler that gives no response.\<close>

definition some_response :: "ber run \<Rightarrow> ber option run" where
  "some_response m = bindP m (\<lambda>r. returnP (Some r))"

fun handler :: "world \<Rightarrow> ber \<Rightarrow> control list option \<Rightarrow> (ber \<Rightarrow> unit run) \<Rightarrow> ber option run" where
  "handler w (OBindRequest t version dn auth sasl) controls reply =
     some_response (handle_LDAPBindRequest (wsha1 w) version dn auth sasl controls)"
| "handler w (ONull k t) controls reply =
     (if k = LDAPUnbindRequest then bindP handle_LDAPUnbindRequest (\<lambda>_. returnP None)
      else some_response handleUnknown)"
| "handler w (OSearchRequest t base sc deref slim tlim types_only filt attrs) controls reply =
     some_response (handle_LDAPSearchRequest (wparse w) (wtext w) base sc filt attrs controls reply)"
| "handler w (OModifyRequest t obj mods) controls reply =
     some_response (handle_LDAPModifyRequest (OModifyRequest t obj mods) controls)"
| "handler w (OAddRequest t entry attrs) controls reply =
     some_response (handle_LDAPAddRequest entry attrs controls)"
| "handler w (OOctetString k t v) controls reply =
     (if k = LDAPDelRequest then some_response (handle_LDAPDelRequest v controls)
      else some_response handleUnknown)"
| "handler w (OModifyDNRequest t entry rdn delold superior) controls reply =
     some_response (handle_LDAPModifyDNRequest entry rdn delold superior controls)"
| "handler w (OCompareRequest t entry ava) controls reply =
     some_response (handle_LDAPCompareRequest (wparse w) (wtext w) entry ava controls)"
| "handler w (OExtendedRequest k t name reqvalue) controls reply =
     (if k = LDAPExtendedRequest then
        some_response (handle_LDAPExtendedRequest (wsha1 w) (wsalt w) name reqvalue controls)
      else some_response handleUnknown)"
| "handler w _ controls reply = some_response handleUnknown"

text \<open>The response to an exception: the class that \<open>fail_\<close> names for the request.\<close>

fun fail_response :: "ber \<Rightarrow> int \<Rightarrow> pytext option \<Rightarrow> ber" where
  "fail_response (OBindRequest t version dn auth sasl) code message = ldap_response LDAPBindResponse code None message"
| "fail_response (OSearchRequest t b sc d slim tlim ty f at) code message = ldap_response LDAPSearchResultDone code None message"
| "fail_response (OModifyRequest t obj mods) code message = ldap_response LDAPModifyResponse code None message"
| "fail_response (OAddRequest t entry attrs) code message = ldap_response LDAPAddResponse code None message"
| "fail_response (OOctetString k t v) code message =
     (if k = LDAPDelRequest then ldap_response LDAPDelResponse code None message
      else extended_response code message (Some notice_of_disconnection))"
| "fail_response (OModifyDNRequest t e r d s) code message = ldap_response LDAPModifyDNResponse code None message"
| "fail_response (OCompareRequest t e a) code message = ldap_response LDAPCompareResponse code None message"
| "fail_response (OExtendedRequest k t n v) code message =
     (if k = LDAPExtendedRequest then extended_response code message None
      else extended_response code message (Some notice_of_disconnection))"
| "fail_response _ code message = extended_response code message (Some notice_of_disconnection)"

definition error_response :: "world \<Rightarrow> ber \<Rightarrow> exn \<Rightarrow> ber" where
  "error_response w request e =
     (case e of
        LDAPException c m \<Rightarrow> fail_response request c m
      | _ \<Rightarrow> fail_response request (result_code LDAPProtocolError) (Some (Str (wtext w e))))"

definition handle_message :: "world \<Rightarrow> ber \<Rightarrow> unit run" where
  "handle_message w m =
     (case m of
        OMessage t i v controls \<Rightarrow>
          bindP (unlessP (is_request v) AssertionError) (\<lambda>_.
          if i = 0 then returnP ()
          else
            bindP (catchP (handler w v controls (respond i)) (\<lambda>e. returnP (Some (error_response w v e))))
              (\<lambda>result.
                case result of None \<Rightarrow> returnP () | Some r \<Rightarrow> respond i r))
      | _ \<Rightarrow> raiseP AttributeError)"

text \<open>The handler that the receive loop calls.\<close>

definition handle_async :: "world \<Rightarrow> server handler" where
  "handle_async w m s = (case handle_message w m s of (Inl e, s') \<Rightarrow> (Some e, s') | (Inr u, s') \<Rightarrow> (None, s'))"

section \<open>Lemmas: what a program gives\<close>

definition yields :: "('a \<Rightarrow> bool) \<Rightarrow> ('s, 'e, 'a) prog \<Rightarrow> bool" where
  "yields P m \<longleftrightarrow> (\<forall>s r s'. m s = (Inr r, s') \<longrightarrow> P r)"

named_theorems yields_rules \<open>introduction rules of yields\<close>

lemma yields_basic [yields_rules]:
  "P a \<Longrightarrow> yields P (returnP a)" "yields P (raiseP e)" "(\<And>b. yields P (f b)) \<Longrightarrow> yields P (bindP x f)"
  "yields P m \<Longrightarrow> (\<And>e. yields P (h e)) \<Longrightarrow> yields P (catchP m h)"
  "yields P m \<Longrightarrow> yields P n \<Longrightarrow> yields P (if c then m else n)"
  by (auto simp: yields_def prog_defs split: prod.splits sum.splits)

section \<open>Lemmas: messages sent\<close>

definition in_message :: "int \<Rightarrow> ber \<Rightarrow> ber" where
  "in_message i r = OMessage (class_tag LDAPMessage) i r None"

fun is_entry :: "ber \<Rightarrow> bool" where
  "is_entry (OSearchResultEntry t n attrs) \<longleftrightarrow> True"
| "is_entry _ \<longleftrightarrow> False"

text \<open>Only entries have been sent, under the identifier of the message.\<close>

definition entries_sent :: "int \<Rightarrow> server \<Rightarrow> server \<Rightarrow> bool" where
  "entries_sent i s s' \<longleftrightarrow> (\<exists>es. sent s' = sent s @ map (in_message i) es \<and> (\<forall>e \<in> set es. is_entry e))"

lemma entries_sent_refl: "reflp (entries_sent i)"
  by (auto simp: entries_sent_def intro!: reflpI exI[of _ "[]"])

lemma entries_sent_trans: "transp (entries_sent i)"
proof (rule transpI)
  fix x y z assume "entries_sent i x y" "entries_sent i y z"
  then obtain es fs where "sent y = sent x @ map (in_message i) es" "\<forall>e \<in> set es. is_entry e"
    "sent z = sent y @ map (in_message i) fs" "\<forall>e \<in> set fs. is_entry e"
    by (auto simp: entries_sent_def)
  then show "entries_sent i x z" unfolding entries_sent_def by (intro exI[of _ "es @ fs"]) auto
qed

lemma entries_sent_same: "sent s' = sent s \<Longrightarrow> entries_sent i s s'"
  by (auto simp: entries_sent_def intro!: exI[of _ "[]"])

lemma entries_sent_respond: "is_entry r \<Longrightarrow> keeps (entries_sent i) (respond i r)"
  unfolding respond_def Let_def
  by (intro keeps_rules entries_sent_refl entries_sent_trans keeps_updateP)
    (auto simp: entries_sent_def in_message_def intro!: exI[of _ "[r]"])

section \<open>Lemmas: what a handler changes\<close>

text \<open>A relation of states that does not look at the effects of the program.\<close>

lemma keeps_for_each:
  assumes "reflp R" "transp R" "\<And>x s. R s (snd (f x s))"
  shows "R s (snd (for_each f xs s))"
proof (induction xs arbitrary: s)
  case (Cons x xs)
  obtain e s' where f: "f x s = (e, s')" by (cases "f x s")
  have "R s s'" using assms(3)[of s x] f by simp
  then show ?case using Cons[of s'] f assms(2) by (cases e) (auto dest: transpD)
qed (use assms(1) in \<open>simp add: reflpD\<close>)

lemma keeps_search:
  assumes "reflp R" "transp R" "\<And>n s. R s (snd (cb n s))"
  shows "R s (snd (search parse t f scp cb base s))"
proof -
  have "R s (snd (case match (nentry n) g of Inl exc \<Rightarrow> (Some exc, s) | Inr b \<Rightarrow> if b then cb n s else (None, s)))"
    for n s g using assms by (auto simp: reflpD split: sum.split)
  then have "R s (snd (for_each (\<lambda>n s. case match (nentry n) g of Inl exc \<Rightarrow> (Some exc, s)
      | Inr b \<Rightarrow> if b then cb n s else (None, s)) ns s))" for ns s g
    by (rule keeps_for_each[OF assms(1,2)])
  then show ?thesis using assms(1) by (auto simp: search_def reflpD split: sum.split)
qed

lemma keeps_ber [keeps_rules]:
  "(\<And>k t a v. keeps R (f k t a v)) \<Longrightarrow> keeps R m \<Longrightarrow>
   keeps R (case x of OAttributeValueAssertion k t a v \<Rightarrow> f k t a v | _ \<Rightarrow> m)"
  by (cases x) simp_all

lemma keeps_exn [keeps_rules]:
  "(\<And>c t. keeps R (f c t)) \<Longrightarrow> keeps R m \<Longrightarrow> keeps R (case e of LDAPException c t \<Rightarrow> f c t | _ \<Rightarrow> m)"
  by (cases e) simp_all

lemma keeps_auth [keeps_rules]:
  "(\<And>p. keeps R (f p)) \<Longrightarrow> (\<And>m c. keeps R (g m c)) \<Longrightarrow> keeps R (case a of Simple p \<Rightarrow> f p | Sasl m c \<Rightarrow> g m c)"
  by (cases a) simp_all

lemma keeps_lookup_object: "reflp R \<Longrightarrow> transp R \<Longrightarrow> keeps R (lookup_object d)"
  unfolding lookup_object_def by (intro keeps_rules) auto

lemma keeps_callback:
  "keeps R (f n) \<Longrightarrow> R s (snd (as_callback f n s))"
  unfolding keeps_def as_callback_def by (auto split: prod.split sum.split) (metis snd_conv)+

text \<open>Searches change what replies change; comparisons change nothing.\<close>

lemma keeps_searching:
  assumes "reflp R" "transp R" "\<And>r. is_entry r \<Longrightarrow> keeps R (reply r)"
  shows "keeps R (handle_LDAPSearchRequest parse errtext base sc filt attrs controls reply)"
proof -
  have "keeps R (sendEntryToClient attrs reply n)" for n
    unfolding sendEntryToClient_def using assms by (intro keeps_rules) auto
  then have "R s (snd (search parse None (Some filt) (Some sc) (as_callback (sendEntryToClient attrs reply)) n s))" for s n
    using keeps_search[OF assms(1,2)] keeps_callback by metis
  then have "keeps R (cbSearchGotBase parse sc filt attrs reply n)" for n
    unfolding cbSearchGotBase_def using assms(1,2) by (auto intro!: keeps_rules keeps_effectP)
  moreover have "keeps R (getRootDSE reply)"
    unfolding getRootDSE_def using assms by (intro keeps_rules) auto
  ultimately show ?thesis
    unfolding handle_LDAPSearchRequest_def
    by (intro keeps_rules keeps_lookup_object assms(1,2))
qed

lemma keeps_comparing:
  assumes "reflp R" "transp R"
  shows "keeps R (handle_LDAPCompareRequest parse errtext entry ava controls)"
  unfolding handle_LDAPCompareRequest_def
  by (intro keeps_rules keeps_lookup_object assms)

lemma keeps_binding:
  assumes "reflp R" "transp R" "\<And>s u. R s (s\<lparr>boundUser := u\<rparr>)"
  shows "keeps R (handle_LDAPBindRequest sha1 version dn auth sasl controls)"
  unfolding handle_LDAPBindRequest_def
  by (intro keeps_rules keeps_lookup_object keeps_updateP assms)

lemma keeps_deleting:
  assumes "reflp R" "transp R" "\<And>s t d. R s (s\<lparr>stree := t, detached := d\<rparr>)"
  shows "keeps R (handle_LDAPDelRequest v controls)"
  unfolding handle_LDAPDelRequest_def
  by (intro keeps_rules keeps_lookup_object keeps_updateP assms)

lemma keeps_adding:
  assumes "reflp R" "transp R" "\<And>s t n. R s (s\<lparr>stree := t, fresh := n\<rparr>)"
  shows "keeps R (handle_LDAPAddRequest entry attrs controls)"
  unfolding handle_LDAPAddRequest_def
  by (intro keeps_rules keeps_lookup_object keeps_updateP assms)

lemma keeps_moving:
  assumes "reflp R" "transp R" "\<And>s t d. R s (s\<lparr>stree := t, detached := d\<rparr>)"
  shows "keeps R (handle_LDAPModifyDNRequest entry rdn delold superior controls)"
  unfolding handle_LDAPModifyDNRequest_def
  by (intro keeps_rules keeps_lookup_object keeps_effectP assms) (auto simp: assms(3) split: prod.split)

lemma keeps_modifying:
  assumes "reflp R" "transp R" "\<And>s t. R s (s\<lparr>stree := t\<rparr>)"
  shows "keeps R (handle_LDAPModifyRequest request controls)"
  unfolding handle_LDAPModifyRequest_def
  by (intro keeps_rules keeps_effectP assms) (auto simp: assms(3) split: prod.split)

lemma keeps_extended:
  assumes "reflp R" "transp R" "\<And>s t d. R s (s\<lparr>stree := t, detached := d\<rparr>)"
  shows "keeps R (handle_LDAPExtendedRequest sha1 salt name reqvalue controls)"
proof -
  have "keeps R (extendedRequest_LDAPPasswordModifyRequest sha1 salt data)" for data
    unfolding extendedRequest_LDAPPasswordModifyRequest_def
    by (intro keeps_rules keeps_updateP assms)
  then show ?thesis
    unfolding handle_LDAPExtendedRequest_def
    by (intro keeps_rules assms) (auto split: list.split intro!: keeps_rules assms)
qed

section \<open>Lemmas: the response belongs to the request\<close>

fun result_of :: "result_cls \<Rightarrow> ber \<Rightarrow> bool" where
  "result_of k (OResult k' t r) \<longleftrightarrow> k' = k"
| "result_of k _ \<longleftrightarrow> False"

fun is_extended_response :: "ber \<Rightarrow> bool" where
  "is_extended_response (OExtendedResponse k t r n v) \<longleftrightarrow> True"
| "is_extended_response _ \<longleftrightarrow> False"

fun answers :: "ber \<Rightarrow> ber \<Rightarrow> bool" where
  "answers (OBindRequest t version dn auth sasl) r \<longleftrightarrow> result_of LDAPBindResponse r"
| "answers (OSearchRequest t b sc d slim tlim ty f at) r \<longleftrightarrow> result_of LDAPSearchResultDone r"
| "answers (OModifyRequest t obj mods) r \<longleftrightarrow> result_of LDAPModifyResponse r"
| "answers (OAddRequest t entry attrs) r \<longleftrightarrow> result_of LDAPAddResponse r"
| "answers (OOctetString k t v) r \<longleftrightarrow>
     (if k = LDAPDelRequest then result_of LDAPDelResponse r else is_extended_response r)"
| "answers (OModifyDNRequest t e rdn d s) r \<longleftrightarrow> result_of LDAPModifyDNResponse r"
| "answers (OCompareRequest t e a) r \<longleftrightarrow> result_of LDAPCompareResponse r"
| "answers _ r \<longleftrightarrow> is_extended_response r"

lemma result_of_response [simp]: "result_of k (ldap_response k c d m)"
  by (simp add: ldap_response_def)

lemma is_extended_response [simp]: "is_extended_response (extended_response c m n)"
  by (simp add: extended_response_def)

lemma answers_fail: "answers v (fail_response v c m)"
  by (cases v) simp_all

lemma answers_error: "answers v (error_response w v e)"
  unfolding error_response_def by (cases e) (simp_all add: answers_fail)

lemma yields_case [yields_rules]:
  "(\<And>a. yields P (f a)) \<Longrightarrow> yields P n \<Longrightarrow> yields P (case x of Some a \<Rightarrow> f a | None \<Rightarrow> n)"
  "(\<And>a b. yields P (g a b)) \<Longrightarrow> yields P (case p of (a, b) \<Rightarrow> g a b)"
  by (auto split: option.split prod.split)

lemma yields_exn [yields_rules]:
  "(\<And>c t. yields P (f c t)) \<Longrightarrow> yields P m \<Longrightarrow> yields P (case e of LDAPException c t \<Rightarrow> f c t | _ \<Rightarrow> m)"
  by (cases e) simp_all

lemma yields_auth [yields_rules]:
  "(\<And>p. yields P (f p)) \<Longrightarrow> (\<And>m c. yields P (g m c)) \<Longrightarrow>
   yields P (case a of Simple p \<Rightarrow> f p | Sasl m c \<Rightarrow> g m c)"
  by (cases a) simp_all

lemma yields_handlers:
  "yields (result_of LDAPBindResponse) (handle_LDAPBindRequest sha1 version dn auth sasl controls)"
  "yields (result_of LDAPSearchResultDone)
     (handle_LDAPSearchRequest parse errtext base sc filt attrs controls reply)"
  "yields (result_of LDAPModifyResponse) (handle_LDAPModifyRequest request controls)"
  "yields (result_of LDAPAddResponse) (handle_LDAPAddRequest entry addattrs controls)"
  "yields (result_of LDAPDelResponse) (handle_LDAPDelRequest v controls)"
  "yields (result_of LDAPModifyDNResponse) (handle_LDAPModifyDNRequest dn rdn delold superior controls)"
  "yields (result_of LDAPCompareResponse) (handle_LDAPCompareRequest parse errtext dn ava controls)"
  unfolding handle_LDAPBindRequest_def handle_LDAPSearchRequest_def handle_LDAPModifyRequest_def
    handle_LDAPAddRequest_def handle_LDAPDelRequest_def handle_LDAPModifyDNRequest_def
    handle_LDAPCompareRequest_def cbSearchGotBase_def getRootDSE_def
  by (intro yields_rules; simp)+

lemma yields_extended:
  "yields is_extended_response (handle_LDAPExtendedRequest sha1 salt name reqvalue controls)"
proof -
  have "yields is_extended_response (extendedRequest_LDAPPasswordModifyRequest sha1 salt data)" for data
    unfolding extendedRequest_LDAPPasswordModifyRequest_def by (intro yields_rules) simp
  then show ?thesis
    unfolding handle_LDAPExtendedRequest_def
    by (intro yields_rules) (auto split: list.split intro!: yields_rules)
qed

lemma yields_some: "yields P m \<Longrightarrow> yields (\<lambda>r. \<exists>x. r = Some x \<and> P x) (some_response m)"
  unfolding some_response_def yields_def by (auto simp: prog_defs split: prod.splits sum.splits)

lemma yields_unknown: "yields is_extended_response handleUnknown"
  by (simp add: handleUnknown_def yields_def prog_defs)

lemma handler_answers:
  "v \<noteq> ONull LDAPUnbindRequest t \<Longrightarrow> yields (\<lambda>r. \<exists>x. r = Some x \<and> answers v x) (handler w v controls reply)"
  if "\<And>k t'. v = ONull k t' \<Longrightarrow> k = LDAPUnbindRequest \<Longrightarrow> t' = t"
  using that yields_handlers yields_extended yields_unknown
  by (cases v) (auto intro!: yields_some)

lemma keeps_some: "reflp R \<Longrightarrow> transp R \<Longrightarrow> keeps R m \<Longrightarrow> keeps R (some_response m)"
  unfolding some_response_def by (intro keeps_rules)

lemma handler_entries_sent: "keeps (entries_sent i) (handler w v controls (respond i))"
proof -
  have unk: "keeps (entries_sent i) handleUnknown" by (simp add: handleUnknown_def keeps_still entries_sent_refl)
  have unb: "keeps (entries_sent i) (bindP handle_LDAPUnbindRequest (\<lambda>_. returnP None :: ber option run))"
    unfolding handle_LDAPUnbindRequest_def
    by (intro keeps_bindP keeps_updateP keeps_still entries_sent_refl entries_sent_trans entries_sent_same) simp
  note R = entries_sent_refl entries_sent_trans
  have
    "keeps (entries_sent i) (handle_LDAPSearchRequest parse errtext base sc filt attrs controls (respond i))"
    "keeps (entries_sent i) (handle_LDAPCompareRequest parse errtext dn ava controls)"
    "keeps (entries_sent i) (handle_LDAPBindRequest sha1 version dn auth sasl controls)"
    "keeps (entries_sent i) (handle_LDAPDelRequest dn controls)"
    "keeps (entries_sent i) (handle_LDAPAddRequest entry addattrs controls)"
    "keeps (entries_sent i) (handle_LDAPModifyDNRequest dn rdn delold superior controls)"
    "keeps (entries_sent i) (handle_LDAPModifyRequest request controls)"
    "keeps (entries_sent i) (handle_LDAPExtendedRequest sha1 salt dn superior controls)"
    for parse errtext base sc filt attrs dn ava sha1 version auth sasl entry addattrs rdn delold superior request salt
    by (rule keeps_searching keeps_comparing keeps_binding keeps_deleting keeps_adding keeps_moving
        keeps_modifying keeps_extended; simp add: R entries_sent_same entries_sent_respond)+
  then show ?thesis using unk unb by (cases v) (simp_all add: keeps_some R)
qed

text \<open>Every request but unbind gets its one response, after the entries found.\<close>

lemma handle_message_answers:
  assumes "is_request v" "i \<noteq> 0" "\<forall>k t. v \<noteq> ONull k t"
  obtains es r where "answers v r" "\<forall>e \<in> set es. is_entry e"
    "case handle_async w (OMessage t i v controls) s of
       (None, s') \<Rightarrow> sent s' = sent s @ map (in_message i) (es @ [r])
     | (Some e, s') \<Rightarrow> sent s' = sent s @ map (in_message i) es \<and> toWire (in_message i r) = Inl e"
proof -
  let ?m = "catchP (handler w v controls (respond i)) (\<lambda>e. returnP (Some (error_response w v e)))"
  have y: "yields (\<lambda>r. \<exists>x. r = Some x \<and> answers v x) ?m"
    using handler_answers[of v undefined w controls "respond i"] assms(3) answers_error
    by (intro yields_rules) auto
  have k: "keeps (entries_sent i) ?m"
    by (intro keeps_rules handler_entries_sent entries_sent_refl entries_sent_trans)
  obtain res s1 where m: "?m s = (res, s1)" by (cases "?m s")
  have "\<exists>a. res = Inr a"
    using m by (auto simp: catchP_def returnP_def split: prod.splits sum.splits)
  then obtain r where r: "?m s = (Inr (Some r), s1)" "answers v r"
    using y m unfolding yields_def by blast
  obtain es where es: "sent s1 = sent s @ map (in_message i) es" "\<forall>e \<in> set es. is_entry e"
    using k r(1) unfolding keeps_def entries_sent_def by (metis snd_conv)
  have "handle_message w (OMessage t i v controls) s = respond i r s1"
    using assms(1,2) r(1) by (simp add: handle_message_def bindP_def unlessP_def returnP_def)
  then have "case handle_async w (OMessage t i v controls) s of
       (None, s') \<Rightarrow> sent s' = sent s @ map (in_message i) (es @ [r])
     | (Some e, s') \<Rightarrow> sent s' = sent s @ map (in_message i) es \<and> toWire (in_message i r) = Inl e"
    using es(1) by (cases "toWire (in_message i r)")
      (simp_all add: handle_async_def respond_def Let_def bindP_def liftP_def updateP_def in_message_def)
  then show ?thesis by (rule that[OF r(2) es(2)])
qed

section \<open>Lemmas: failures that change nothing\<close>

definition atomic :: "('s, 'e, 'a) prog \<Rightarrow> bool" where
  "atomic m \<longleftrightarrow> (\<forall>s e s'. m s = (Inl e, s') \<longrightarrow> s' = s)"

lemma eq_refl_trans: "reflp (=)" "transp (=)"
  by (auto intro: reflpI transpI)

lemma atomic_still: "keeps (=) m \<Longrightarrow> atomic m"
  by (auto simp: keeps_def atomic_def) (metis snd_conv)

lemma atomic_bindP: "keeps (=) m \<Longrightarrow> (\<And>a. atomic (f a)) \<Longrightarrow> atomic (bindP m f)"
  unfolding atomic_def keeps_def bindP_def by (auto split: prod.splits sum.splits) (metis snd_conv)+

lemma atomic_last: "atomic (bindP (updateP f) (\<lambda>_. returnP r))"
  by (simp add: atomic_def prog_defs)

lemma atomic_if: "atomic m \<Longrightarrow> atomic n \<Longrightarrow> atomic (if b then m else n)"
  by simp

lemma atomic_raise: "atomic (raiseP e)"
  by (simp add: atomic_def raiseP_def)

lemma atomic_cases:
  "(\<And>a b. atomic (g a b)) \<Longrightarrow> atomic (case p of (a, b) \<Rightarrow> g a b)"
  "(\<And>p. atomic (f p)) \<Longrightarrow> (\<And>m c. atomic (h m c)) \<Longrightarrow> atomic (case au of Simple p \<Rightarrow> f p | Sasl m c \<Rightarrow> h m c)"
  by (auto split: prod.split bind_auth.split)

lemma keeps_eq_rules:
  "keeps (=) (liftP r)" "keeps (=) (getP f)" "keeps (=) (unlessP b e)" "keeps (=) (lookup_object d)"
  "keeps (=) (catchP (lookup_object d) (\<lambda>e. if known e then raiseP x else raiseP e))"
  by (intro keeps_rules keeps_lookup_object eq_refl_trans)+

lemmas atomic_rules = atomic_bindP atomic_last atomic_if atomic_raise atomic_cases keeps_eq_rules

lemma atomic_handlers:
  "atomic (handle_LDAPBindRequest sha1 version dn auth sasl controls)"
  "atomic (handle_LDAPAddRequest entry addattrs controls)"
  "atomic (handle_LDAPDelRequest v controls)"
  unfolding handle_LDAPBindRequest_def handle_LDAPAddRequest_def handle_LDAPDelRequest_def
  by (intro atomic_rules)+

lemma atomic_some: "atomic m \<Longrightarrow> atomic (some_response m)"
  unfolding some_response_def atomic_def by (auto simp: prog_defs split: prod.splits sum.splits)

text \<open>Requests that read: the state is as before, but for the messages sent.\<close>

definition only_sent :: "server \<Rightarrow> server \<Rightarrow> bool" where
  "only_sent s s' \<longleftrightarrow> s' = s\<lparr>sent := sent s'\<rparr>"

lemma only_sent_refl: "reflp only_sent"
  by (auto simp: only_sent_def intro: reflpI)

lemma only_sent_trans: "transp only_sent"
proof (rule transpI)
  fix x y z assume a: "only_sent x y" "only_sent y z"
  then have "z = (x\<lparr>sent := sent y\<rparr>)\<lparr>sent := sent z\<rparr>" by (simp add: only_sent_def)
  then show "only_sent x z" by (simp add: only_sent_def)
qed

lemma only_sent_respond: "keeps only_sent (respond i r)"
  unfolding respond_def Let_def
  by (intro keeps_rules only_sent_refl only_sent_trans keeps_updateP) (simp add: only_sent_def)

lemma reading_only_sends:
  "keeps only_sent (handle_LDAPSearchRequest parse errtext base sc filt attrs controls (respond i))"
  "keeps only_sent (handle_LDAPCompareRequest parse errtext dn ava controls)"
  by (rule keeps_searching keeps_comparing; simp add: only_sent_refl only_sent_trans only_sent_respond)+

section \<open>Lemmas: changing a password\<close>

lemma subtree_update:
  "map (\<lambda>n. (nid n, nentry n)) (subtree (update_object i f n)) =
     map (\<lambda>n. (nid n, if nid n = i then f (nentry n) else nentry n)) (subtree n)"
  and subtrees_update:
  "map (\<lambda>n. (nid n, nentry n)) (subtrees (update_objects i f cs)) =
     map (\<lambda>n. (nid n, if nid n = i then f (nentry n) else nentry n)) (subtrees cs)"
  by (induction n and cs rule: subtree_subtrees.induct) auto

lemma find_mapped:
  "map (\<lambda>n. (nid n, nentry n)) ms = map (\<lambda>n. (nid n, if nid n = i then f (nentry n) else nentry n)) ns \<Longrightarrow>
   map_option nentry (find (\<lambda>n. nid n = j) ms) =
     map_option (if j = i then f else id) (map_option nentry (find (\<lambda>n. nid n = j) ns))"
proof (induction ns arbitrary: ms)
  case (Cons n ns)
  then obtain m ms' where "ms = m # ms'" by (cases ms) auto
  with Cons show ?case by auto
qed simp

lemma object_entry_update:
  assumes "s' = s\<lparr>stree := update_object i f (stree s), detached := map (update_object i f) (detached s)\<rparr>"
  shows "object_entry j s' = map_option (if j = i then f else id) (object_entry j s)"
proof -
  have "map (\<lambda>n. (nid n, nentry n)) (concat (map subtree (map (update_object i f) ns))) =
      map (\<lambda>n. (nid n, if nid n = i then f (nentry n) else nentry n)) (concat (map subtree ns))" for ns
    by (induction ns) (simp_all add: subtree_update)
  from this[of "stree s # detached s"] show ?thesis
    unfolding object_entry_def assms by (intro find_mapped) simp
qed

text \<open>What a password change that succeeds has checked, and what it does.\<close>

lemma password_change:
  assumes "extendedRequest_LDAPPasswordModifyRequest sha1 salt data s = (Inr r, s')"
  obtains items pm i e new e' where "seq_data data = Some items"
    "foldE password_item items \<lparr>userIdentity = None, oldPasswd = None, newPasswd = None\<rparr> = Inr pm"
    "boundUser s = Some i" "object_entry i s = Some e"
    "\<forall>u. userIdentity pm = Some u \<longrightarrow> dn_eq_text (edn e) u"
    "oldPasswd pm = None" "newPasswd pm = Some new" "setPassword sha1 e (to_bytes new) salt = Inr e'"
    "s' = s\<lparr>stree := update_object i (\<lambda>_. e') (stree s), detached := map (update_object i (\<lambda>_. e')) (detached s)\<rparr>"
proof -
  obtain items where items: "seq_data data = Some items"
    using assms by (cases "seq_data data")
      (simp_all add: extendedRequest_LDAPPasswordModifyRequest_def raiseP_def)
  obtain pm where pm: "foldE password_item items \<lparr>userIdentity = None, oldPasswd = None, newPasswd = None\<rparr> = Inr pm"
    using assms items by (cases "foldE password_item items \<lparr>userIdentity = None, oldPasswd = None, newPasswd = None\<rparr>")
      (simp_all add: extendedRequest_LDAPPasswordModifyRequest_def bindP_def liftP_def)
  obtain i where i: "boundUser s = Some i"
    using assms items pm by (cases "boundUser s")
      (simp_all add: extendedRequest_LDAPPasswordModifyRequest_def prog_defs)
  obtain e where e: "object_entry i s = Some e"
    using assms items pm i by (cases "object_entry i s")
      (simp_all add: extendedRequest_LDAPPasswordModifyRequest_def prog_defs)
  note eq = assms[unfolded extendedRequest_LDAPPasswordModifyRequest_def items option.case bindP_def liftP_def
      pm prod.case sum.case getP_def i e]
  have u: "\<forall>u. userIdentity pm = Some u \<longrightarrow> dn_eq_text (edn e) u"
  proof (intro allI impI)
    fix u assume u: "userIdentity pm = Some u"
    show "dn_eq_text (edn e) u"
    proof (rule ccontr)
      assume "\<not> dn_eq_text (edn e) u"
      then show False using eq u by (cases "to_unicode u") (simp_all add: raiseP_def)
    qed
  qed
  obtain new where n: "oldPasswd pm = None" "newPasswd pm = Some new"
    using eq u by (cases "oldPasswd pm"; cases "newPasswd pm"; cases "userIdentity pm")
      (simp_all add: raiseP_def returnP_def)
  obtain e' where e': "setPassword sha1 e (to_bytes new) salt = Inr e'"
    using eq u n by (cases "setPassword sha1 e (to_bytes new) salt"; cases "userIdentity pm")
      (simp_all add: raiseP_def returnP_def)
  have "s' = s\<lparr>stree := update_object i (\<lambda>_. e') (stree s), detached := map (update_object i (\<lambda>_. e')) (detached s)\<rparr>"
    using eq u n e' by (cases "userIdentity pm") (simp_all add: returnP_def updateP_def)
  from that[OF items pm i e u n e' this] show ?thesis .
qed

section \<open>Lemmas: the items of a password change\<close>

lemma password_items:
  assumes "foldE password_item items r = Inr pm"
  shows "newPasswd pm = Some new \<Longrightarrow> newPasswd r = Some new \<or>
      list_ex (\<lambda>x. is_part LDAPPasswordModifyRequest_newPasswd x \<and> svalue x = new) items"
    and "userIdentity r = Some u \<Longrightarrow> userIdentity pm = Some u"
    and "x \<in> set items \<Longrightarrow> is_part LDAPPasswordModifyRequest_userIdentity x \<Longrightarrow> userIdentity pm = Some (svalue x)"
proof -
  have "(newPasswd pm = Some new \<longrightarrow> newPasswd r = Some new \<or>
      list_ex (\<lambda>x. is_part LDAPPasswordModifyRequest_newPasswd x \<and> svalue x = new) items) \<and>
    (\<forall>u. userIdentity r = Some u \<longrightarrow> userIdentity pm = Some u) \<and>
    (\<forall>x \<in> set items. is_part LDAPPasswordModifyRequest_userIdentity x \<longrightarrow> userIdentity pm = Some (svalue x))"
    using assms
  proof (induction items arbitrary: r)
    case (Cons y items)
    then obtain r' where r': "password_item y r = Inr r'" "foldE password_item items r' = Inr pm"
      by (cases "password_item y r") simp_all
    note IH = Cons.IH[OF r'(2)]
    show ?case using IH r'(1) by (auto simp: password_item_def Let_def split: if_splits)
  qed simp
  then show "newPasswd pm = Some new \<Longrightarrow> newPasswd r = Some new \<or>
      list_ex (\<lambda>x. is_part LDAPPasswordModifyRequest_newPasswd x \<and> svalue x = new) items"
    and "userIdentity r = Some u \<Longrightarrow> userIdentity pm = Some u"
    and "x \<in> set items \<Longrightarrow> is_part LDAPPasswordModifyRequest_userIdentity x \<Longrightarrow> userIdentity pm = Some (svalue x)"
    by blast+
qed

lemma setPassword_name: "setPassword sha1 e pw salt = Inr e' \<Longrightarrow> edn e' = edn e"
  by (auto simp: setPassword_def entry_setitem_def Let_def split: if_splits)

section \<open>Lemmas: whole requests\<close>

text \<open>The classes of the requests that only read, and of those that fail as a whole.\<close>

fun reading :: "ber \<Rightarrow> bool" where
  "reading (OSearchRequest t b sc d slim tlim ty f at) \<longleftrightarrow> True"
| "reading (OCompareRequest t e a) \<longleftrightarrow> True"
| "reading _ \<longleftrightarrow> False"

fun all_or_nothing :: "ber \<Rightarrow> bool" where
  "all_or_nothing (OBindRequest t version dn auth sasl) \<longleftrightarrow> True"
| "all_or_nothing (OAddRequest t entry attrs) \<longleftrightarrow> True"
| "all_or_nothing (OOctetString k t v) \<longleftrightarrow> k = LDAPDelRequest"
| "all_or_nothing _ \<longleftrightarrow> False"

lemma handler_reading: "reading v \<Longrightarrow> keeps only_sent (handler w v controls (respond i))"
  by (cases v) (simp_all add: keeps_some reading_only_sends only_sent_refl only_sent_trans)

lemma handle_message_reading:
  assumes "reading v"
  shows "keeps only_sent (handle_message w (OMessage t i v controls))"
  unfolding handle_message_def ber.case
  by (intro keeps_rules handler_reading assms only_sent_refl only_sent_trans only_sent_respond)

lemma handler_all_or_nothing: "all_or_nothing v \<Longrightarrow> atomic (handler w v controls reply)"
  by (cases v) (auto simp: atomic_handlers intro!: atomic_some)

text \<open>When such a request fails, one response with the error is all that it leaves.\<close>

lemma failed_all_or_nothing:
  assumes "all_or_nothing v" "is_request v" "i \<noteq> 0" "handler w v controls (respond i) s = (Inl e, s1)"
  shows "handle_message w (OMessage t i v controls) s = respond i (error_response w v e) s"
proof -
  have "s1 = s" using handler_all_or_nothing[OF assms(1)] assms(4) unfolding atomic_def by blast
  then show ?thesis
    using assms(2-4) by (simp add: handle_message_def bindP_def unlessP_def returnP_def catchP_def)
qed

end
