(* ===== verification/LdapClient.thy ===== *)
theory LdapClient
  imports Framing LdapErrors Programs
begin

text \<open>
  The client of \<open>ldapclient.py\<close>: the table of operations on the wire, sending, the dispatch of
  responses to whoever waits for them, and the loss of the connection. A \<open>ResultSlot\<close> of
  \<open>_async.py\<close> is a place in the list of slots; who awaits it reads it there. The handlers that
  callers give for their responses may change a state of the application. The negotiation of TLS and
  the sockets are the runtime.
\<close>

section \<open>Result slots\<close>

datatype answer = Response ber | WithControls ber "control list option"

datatype slot_outcome = Value answer | Error exn

type_synonym slots = "slot_outcome option list"

text \<open>\<open>set_outcome\<close>: a slot takes one result.\<close>

definition set_outcome :: "nat \<Rightarrow> slot_outcome \<Rightarrow> slots \<Rightarrow> exn + slots" where
  "set_outcome k res sl =
     (if k < length sl then
        (case sl ! k of None \<Rightarrow> Inr (sl[k := Some res]) | Some old \<Rightarrow> Inl RuntimeError)
      else Inl OutsideModel)"

section \<open>The state of a client\<close>

text \<open>The handler of an operation: true marks the response as the final one.\<close>

type_synonym 's callback = "answer \<Rightarrow> 's \<Rightarrow> (exn + bool) \<times> 's"

record 's pending =
  pslot :: nat
  return_controls :: bool
  phandler :: "'s callback option"

record tls_upgrade =
  tls_id :: int
  response_received :: bool
  tls_error :: "exn option"

record 's client =
  onwire :: "(int \<times> 's pending) list"
  is_connected :: bool
  has_lock :: bool
  has_stream :: bool
  stream_broken :: bool
  upgrading :: "tls_upgrade option"
  slots_of :: slots
  next_id :: int
  written :: "bytes list"
  app :: 's

type_synonym ('s, 'a) crun = "('s client, exn, 'a) prog"

text \<open>A client whose stream has been attached; the counter of message identifiers is the module's.\<close>

definition attached_client :: "int \<Rightarrow> 's \<Rightarrow> 's client" where
  "attached_client i s =
     \<lparr>onwire = [], is_connected = True, has_lock = True, has_stream = True, stream_broken = False,
      upgrading = None, slots_of = [], next_id = i, written = [], app = s\<rparr>"

section \<open>Losing the connection\<close>

text \<open>\<open>while self.onwire: popitem()\<close>, given the items from the last to the first.\<close>

fun fail_pending :: "exn \<Rightarrow> (int \<times> 's pending) list \<Rightarrow> slots \<Rightarrow> exn option \<times> (int \<times> 's pending) list \<times> slots" where
  "fail_pending reason [] sl = (None, [], sl)"
| "fail_pending reason (p # ps) sl =
     (case set_outcome (pslot (snd p)) (Error reason) sl of
        Inl e \<Rightarrow> (Some e, rev ps, sl)
      | Inr sl' \<Rightarrow> fail_pending reason ps sl')"

definition connectionLost :: "exn \<Rightarrow> 's client \<Rightarrow> exn option \<times> 's client" where
  "connectionLost reason c =
     (let (e, left, sl) = fail_pending reason (rev (onwire c)) (slots_of c) in
      (e, c\<lparr>is_connected := False, has_stream := False, has_lock := False, upgrading := None,
            onwire := left, slots_of := sl\<rparr>))"

definition client_aclose :: "'s client \<Rightarrow> exn option \<times> 's client" where
  "client_aclose c =
     (let c' = c\<lparr>has_stream := False\<rparr> in
      if is_connected c' then connectionLost ConnectionDone c' else (None, c'))"

section \<open>Sending\<close>

definition needs_answer :: "ber \<Rightarrow> bool" where
  "needs_answer v \<longleftrightarrow>
     (case v of ONull k t \<Rightarrow> k \<noteq> LDAPUnbindRequest | OInteger k t i \<Rightarrow> k \<noteq> LDAPAbandonRequest | _ \<Rightarrow> True)"

text \<open>\<open>_send_anyio_write\<close>; a stream that turns out to be broken closes the client.\<close>

definition send_anyio_write :: "bytes \<Rightarrow> 's client \<Rightarrow> exn option \<times> 's client" where
  "send_anyio_write data c =
     (if \<not> is_connected c \<or> \<not> has_lock c then (Some LDAPClientConnectionLostException, c)
      else if \<not> has_stream c then (Some LDAPClientConnectionLostException, c)
      else if stream_broken c then client_aclose c
      else (None, c\<lparr>written := written c @ [data]\<rparr>))"

text \<open>\<open>_send\<close>: the message with its fresh identifier.\<close>

definition new_message :: "ber \<Rightarrow> control list option \<Rightarrow> ('s, int \<times> ber) crun" where
  "new_message op controls =
     bindP (getP is_connected) (\<lambda>b.
     bindP (unlessP b LDAPClientConnectionLostException) (\<lambda>_.
     bindP (getP next_id) (\<lambda>i.
     bindP (updateP (\<lambda>c. c\<lparr>next_id := i + 1\<rparr>)) (\<lambda>_.
     bindP (getP onwire) (\<lambda>ops.
     bindP (unlessP (map_of ops i = None) AssertionError) (\<lambda>_.
       returnP (i, OMessage (class_tag LDAPMessage) i op controls)))))))"

definition put_onwire :: "int \<Rightarrow> bool \<Rightarrow> 's callback option \<Rightarrow> ('s, nat) crun" where
  "put_onwire i rc h =
     bindP (getP (\<lambda>c. length (slots_of c))) (\<lambda>k.
     bindP (updateP (\<lambda>c. c\<lparr>slots_of := slots_of c @ [None],
         onwire := onwire c @ [(i, \<lparr>pslot = k, return_controls = rc, phandler = h\<rparr>)]\<rparr>)) (\<lambda>_.
       returnP k))"

text \<open>\<open>_send_and_wait\<close> up to the point where it waits: the slot it waits for.\<close>

definition send_and_wait ::
    "ber \<Rightarrow> control list option \<Rightarrow> bool \<Rightarrow> 's callback option \<Rightarrow> ('s, nat) crun" where
  "send_and_wait op controls rc h =
     bindP (new_message op controls) (\<lambda>(i, msg).
     bindP (unlessP (needs_answer op) AssertionError) (\<lambda>_.
     bindP (put_onwire i rc h) (\<lambda>k.
     bindP (liftP (toWire msg)) (\<lambda>w.
     bindP (effectP (send_anyio_write w)) (\<lambda>_.
       returnP k)))))"

definition send_noResponse :: "ber \<Rightarrow> control list option \<Rightarrow> ('s, unit) crun" where
  "send_noResponse op controls =
     bindP (new_message op controls) (\<lambda>(i, msg).
     bindP (unlessP (\<not> needs_answer op) AssertionError) (\<lambda>_.
     bindP (liftP (toWire msg)) (\<lambda>w. effectP (send_anyio_write w))))"

section \<open>Responses\<close>

text \<open>\<open>_validate_start_tls_response\<close> and \<open>_handle_bind_msg\<close>.\<close>

definition raise_result :: "int \<Rightarrow> pytext \<Rightarrow> exn + 'a" where
  "raise_result code message =
     bindE (get_exception code message) (\<lambda>_. Inl (LDAPException code (Some message)))"

definition validate_start_tls_response :: "ber \<Rightarrow> exn + ber" where
  "validate_start_tls_response msg =
     (case msg of
        OExtendedResponse k t r name v \<Rightarrow>
          bindE (assertE AssertionError (referral r = None)) (\<lambda>_.
          if resultCode r \<noteq> result_code Success then raise_result (resultCode r) (errorMessage r)
          else
            (case name of
               None \<Rightarrow> Inr msg
             | Some n \<Rightarrow>
                 if n \<noteq> Byt oid_StartTLS then Inl (LDAPStartTLSInvalidResponseName n) else Inr msg))
      | _ \<Rightarrow> Inl AssertionError)"

definition handle_bind_msg :: "ber \<Rightarrow> exn + (pytext \<times> pytext option)" where
  "handle_bind_msg msg =
     (case msg of
        OResult k t r \<Rightarrow>
          bindE (assertE AssertionError (k = LDAPBindResponse)) (\<lambda>_.
          bindE (assertE AssertionError (referral r = None)) (\<lambda>_.
          if resultCode r \<noteq> result_code Success then raise_result (resultCode r) (errorMessage r)
          else Inr (matchedDN r, serverSaslCreds r)))
      | _ \<Rightarrow> Inl AssertionError)"

text \<open>What a response means to a pending upgrade.\<close>

definition see_upgrade :: "int \<Rightarrow> ber \<Rightarrow> 's client \<Rightarrow> 's client" where
  "see_upgrade i v c =
     (case upgrading c of
        None \<Rightarrow> c
      | Some u \<Rightarrow>
          if i = tls_id u then
            c\<lparr>upgrading := Some (u\<lparr>response_received := True,
                tls_error := (case validate_start_tls_response v of Inl e \<Rightarrow> Some e | Inr r \<Rightarrow> tls_error u)\<rparr>)\<rparr>
          else c)"

text \<open>\<open>slot.set_value\<close> and \<open>del self.onwire[msg.id]\<close>.\<close>

definition finish :: "int \<Rightarrow> 's pending \<Rightarrow> answer \<Rightarrow> 's client \<Rightarrow> exn option \<times> 's client" where
  "finish i p a c =
     (case set_outcome (pslot p) (Value a) (slots_of c) of
        Inl e \<Rightarrow> (Some e, c)
      | Inr sl \<Rightarrow> (None, c\<lparr>slots_of := sl, onwire := filter (\<lambda>q. fst q \<noteq> i) (onwire c)\<rparr>))"

definition handle_response :: "'s client handler" where
  "handle_response m c =
     (case m of
        OMessage t i v controls \<Rightarrow>
          if \<not> is_response v then (Some AssertionError, c)
          else if i = 0 then (None, c)
          else
            let c1 = see_upgrade i v c in
            (case map_of (onwire c1) i of
               None \<Rightarrow> (Some KeyError, c1)
             | Some p \<Rightarrow>
                 let a = (if return_controls p then WithControls v controls else Response v) in
                 (case phandler p of
                    None \<Rightarrow> finish i p a c1
                  | Some h \<Rightarrow>
                      (case h a (app c1) of
                         (Inl e, s) \<Rightarrow> (Some e, c1\<lparr>app := s\<rparr>)
                       | (Inr final, s) \<Rightarrow>
                           if final then finish i p a (c1\<lparr>app := s\<rparr>) else (None, c1\<lparr>app := s\<rparr>))))
      | _ \<Rightarrow> (Some AttributeError, c))"

section \<open>STARTTLS\<close>

text \<open>\<open>startTLS\<close> up to the point where it waits, and what it does when it has been woken.\<close>

definition start_TLS :: "('s, nat) crun" where
  "start_TLS =
     bindP (getP is_connected) (\<lambda>b.
     bindP (unlessP b LDAPClientConnectionLostException) (\<lambda>_.
     bindP (getP onwire) (\<lambda>ops.
     bindP (unlessP (ops = []) LDAPStartTLSBusyError) (\<lambda>_.
     bindP (liftP (mkStartTLSRequest None)) (\<lambda>op.
     bindP (new_message op None) (\<lambda>(i, msg).
     bindP (put_onwire i False None) (\<lambda>k.
     bindP (updateP (\<lambda>c. c\<lparr>upgrading := Some \<lparr>tls_id = i, response_received = False, tls_error = None\<rparr>\<rparr>)) (\<lambda>_.
     bindP (liftP (toWire msg)) (\<lambda>w.
     bindP (effectP (send_anyio_write w)) (\<lambda>_.
       returnP k))))))))))"

definition end_TLS :: "tls_upgrade \<Rightarrow> ('s, unit) crun" where
  "end_TLS u =
     bindP (updateP (\<lambda>c. c\<lparr>upgrading := None\<rparr>)) (\<lambda>_.
       case tls_error u of Some e \<Rightarrow> raiseP e | None \<Rightarrow> returnP ())"

section \<open>The reader\<close>

text \<open>The chunks until the stream ends or something escapes, and the end of the connection then.\<close>

definition run_reader :: "bytes list \<Rightarrow> 's client \<Rightarrow> exn option \<times> 's client" where
  "run_reader chunks c =
     (case client_read_from_stream handle_response chunks [] c of
        (e, buffer, c1) \<Rightarrow>
          if is_connected c1 then
            (case connectionLost ConnectionDone (c1\<lparr>has_stream := False\<rparr>) of
               (Some e', c2) \<Rightarrow> (Some e', c2)
             | (None, c2) \<Rightarrow> (e, c2))
          else (e, c1))"

section \<open>The client as a state machine\<close>

text \<open>What can happen to a client between two points where it waits.\<close>

datatype 's event =
    Sends ber "control list option" bool "'s callback option"
  | SendsNoResponse ber "control list option"
  | StartsTLS
  | EndsTLS tls_upgrade
  | Receives ber
  | Loses exn
  | Closes
  | Breaks

definition ran :: "('s, 'a) crun \<Rightarrow> 's client \<Rightarrow> exn option \<times> 's client" where
  "ran m c = (case m c of (Inl e, c') \<Rightarrow> (Some e, c') | (Inr r, c') \<Rightarrow> (None, c'))"

fun perform :: "'s event \<Rightarrow> 's client \<Rightarrow> exn option \<times> 's client" where
  "perform (Sends op controls rc h) c = ran (send_and_wait op controls rc h) c"
| "perform (SendsNoResponse op controls) c = ran (send_noResponse op controls) c"
| "perform StartsTLS c = ran start_TLS c"
| "perform (EndsTLS u) c = ran (end_TLS u) c"
| "perform (Receives m) c = handle_response m c"
| "perform (Loses reason) c = connectionLost reason c"
| "perform Closes c = client_aclose c"
| "perform Breaks c = (None, c\<lparr>stream_broken := True\<rparr>)"

inductive reachable :: "'s client \<Rightarrow> bool" where
  attached: "reachable (attached_client i s)"
| performed: "reachable c \<Longrightarrow> perform ev c = (e, c') \<Longrightarrow> reachable c'"

text \<open>
  Identifiers and slots on the wire are distinct, the identifiers have been given out, the slots
  without a result are exactly those of the operations on the wire, and a client that is not
  connected has none.
\<close>

definition waiting_slots :: "'s client \<Rightarrow> nat set" where
  "waiting_slots c = (pslot \<circ> snd) ` set (onwire c)"

definition client_inv :: "'s client \<Rightarrow> bool" where
  "client_inv c \<longleftrightarrow>
     distinct (map fst (onwire c)) \<and> distinct (map (pslot \<circ> snd) (onwire c)) \<and>
     (\<forall>q \<in> set (onwire c). fst q < next_id c) \<and>
     waiting_slots c = {k. k < length (slots_of c) \<and> slots_of c ! k = None} \<and>
     (is_connected c \<or> onwire c = [])"

section \<open>Lemmas: the invariant\<close>

lemma pending_slot:
  assumes "client_inv c" "q \<in> set (onwire c)"
  shows "pslot (snd q) < length (slots_of c)" "slots_of c ! pslot (snd q) = None"
proof -
  have "pslot (snd q) \<in> waiting_slots c" using assms(2) by (simp add: waiting_slots_def)
  then show "pslot (snd q) < length (slots_of c)" "slots_of c ! pslot (snd q) = None"
    using assms(1) by (simp_all add: client_inv_def)
qed

lemma attached_inv: "client_inv (attached_client i s)"
  by (simp add: client_inv_def attached_client_def waiting_slots_def)

definition fill :: "nat set \<Rightarrow> slot_outcome \<Rightarrow> slots \<Rightarrow> slots" where
  "fill ks res sl = map (\<lambda>k. if k \<in> ks then Some res else sl ! k) [0..<length sl]"

lemma fill_simps [simp]: "length (fill ks res sl) = length sl" "fill {} res sl = sl"
  "k < length sl \<Longrightarrow> fill ks res sl ! k = (if k \<in> ks then Some res else sl ! k)"
  by (simp_all add: fill_def map_nth)

lemma fill_update: "k < length sl \<Longrightarrow> fill ks res (sl[k := Some res]) = fill (insert k ks) res sl"
  by (rule nth_equalityI) (auto simp: nth_list_update)

lemma fail_pending_all:
  "distinct (map (pslot \<circ> snd) ps) \<Longrightarrow> \<forall>q \<in> set ps. pslot (snd q) < length sl \<and> sl ! pslot (snd q) = None \<Longrightarrow>
   fail_pending reason ps sl = (None, [], fill ((pslot \<circ> snd) ` set ps) (Error reason) sl)"
proof (induction ps arbitrary: sl)
  case (Cons p ps)
  let ?sl = "sl[pslot (snd p) := Some (Error reason)]"
  have "\<forall>q \<in> set ps. pslot (snd q) < length ?sl \<and> ?sl ! pslot (snd q) = None"
    using Cons.prems by (auto simp: nth_list_update image_iff)
  then show ?case
    using Cons.IH[of ?sl] Cons.prems by (simp add: set_outcome_def fill_update)
qed simp

lemma connectionLost_inv:
  assumes "client_inv c"
  shows "connectionLost reason c =
    (None, c\<lparr>is_connected := False, has_stream := False, has_lock := False, upgrading := None,
             onwire := [], slots_of := fill (waiting_slots c) (Error reason) (slots_of c)\<rparr>)"
proof -
  have "distinct (map (pslot \<circ> snd) (rev (onwire c)))"
    using assms by (simp add: client_inv_def flip: rev_map)
  moreover have "\<forall>q \<in> set (rev (onwire c)). pslot (snd q) < length (slots_of c) \<and> slots_of c ! pslot (snd q) = None"
    using pending_slot[OF assms] by simp
  ultimately show ?thesis
    using fail_pending_all[of "rev (onwire c)" "slots_of c" reason]
    by (simp add: connectionLost_def waiting_slots_def Let_def)
qed

lemma lost_keeps_inv: "client_inv c \<Longrightarrow> client_inv (snd (connectionLost reason c))"
  unfolding connectionLost_inv
  by (auto simp: client_inv_def waiting_slots_def)

lemma inv_irrelevant [simp]:
  "client_inv (c\<lparr>has_stream := b\<rparr>) = client_inv c" "client_inv (c\<lparr>stream_broken := b\<rparr>) = client_inv c"
  "client_inv (c\<lparr>upgrading := u\<rparr>) = client_inv c" "client_inv (c\<lparr>written := ws\<rparr>) = client_inv c"
  "client_inv (c\<lparr>app := s\<rparr>) = client_inv c"
  by (simp_all add: client_inv_def waiting_slots_def)

lemma aclose_keeps_inv: "client_inv c \<Longrightarrow> client_inv (snd (client_aclose c))"
  by (simp add: client_aclose_def Let_def lost_keeps_inv)

lemma write_keeps_inv: "client_inv c \<Longrightarrow> client_inv (snd (send_anyio_write w c))"
  by (simp add: send_anyio_write_def aclose_keeps_inv)

lemma finish_inv:
  assumes "client_inv c" "map_of (onwire c) i = Some p"
  shows "finish i p a c = (None, c\<lparr>slots_of := (slots_of c)[pslot p := Some (Value a)],
      onwire := filter (\<lambda>q. fst q \<noteq> i) (onwire c)\<rparr>)"
    and "client_inv (snd (finish i p a c))"
proof -
  have p: "(i, p) \<in> set (onwire c)" using assms(2) by (rule map_of_SomeD)
  then have k: "pslot p < length (slots_of c)" "slots_of c ! pslot p = None"
    using pending_slot[OF assms(1) p] by simp_all
  then show f: "finish i p a c = (None, c\<lparr>slots_of := (slots_of c)[pslot p := Some (Value a)],
      onwire := filter (\<lambda>q. fst q \<noteq> i) (onwire c)\<rparr>)"
    by (simp add: finish_def set_outcome_def)
  have only: "pslot (snd q) = pslot p \<longleftrightarrow> q = (i, p)" "fst q = i \<longleftrightarrow> q = (i, p)" if "q \<in> set (onwire c)" for q
    using assms(1) p that unfolding client_inv_def by (auto simp: distinct_map dest: inj_onD[of _ _ "(i, p)" q])
  have "(pslot \<circ> snd) ` set (filter (\<lambda>q. fst q \<noteq> i) (onwire c)) = (pslot \<circ> snd) ` set (onwire c) - {pslot p}"
    (is "?l = ?r")
  proof
    show "?l \<subseteq> ?r" using only by auto
    show "?r \<subseteq> ?l"
    proof
      fix k assume "k \<in> ?r"
      then obtain q where "q \<in> set (onwire c)" "k = pslot (snd q)" "k \<noteq> pslot p" by auto
      then show "k \<in> ?l" using only[of q] by auto
    qed
  qed
  then show "client_inv (snd (finish i p a c))"
    using assms(1) k unfolding f client_inv_def waiting_slots_def
    by (auto simp: distinct_map nth_list_update intro: inj_on_subset)
qed

text \<open>A relation of states that every program below keeps: the invariant is not lost.\<close>

definition keeps_inv :: "('s, 'a) crun \<Rightarrow> bool" where
  "keeps_inv m \<longleftrightarrow> keeps (\<lambda>c c'. client_inv c \<longrightarrow> client_inv c') m"

lemma inv_refl: "reflp (\<lambda>c c'. client_inv c \<longrightarrow> client_inv c')"
  and inv_trans: "transp (\<lambda>c c'. client_inv c \<longrightarrow> client_inv c')"
  by (simp_all add: reflp_def transp_def)

lemma ran_keeps_inv: "keeps_inv m \<Longrightarrow> client_inv c \<Longrightarrow> client_inv (snd (ran m c))"
  unfolding keeps_inv_def keeps_def ran_def by (auto split: prod.split sum.split)

lemma write_keeps: "keeps (\<lambda>c c'. client_inv c \<longrightarrow> client_inv c') (effectP (send_anyio_write w))"
  by (rule keeps_effectP) (use write_keeps_inv in blast)

text \<open>What a new message is, and when there is none.\<close>

lemma new_message_cases:
  assumes "client_inv c"
  shows "new_message op controls c =
    (if is_connected c then
       (Inr (next_id c, OMessage (class_tag LDAPMessage) (next_id c) op controls), c\<lparr>next_id := next_id c + 1\<rparr>)
     else (Inl LDAPClientConnectionLostException, c))"
proof -
  have "map_of (onwire c) (next_id c) = None"
    using assms by (force simp: client_inv_def map_of_eq_None_iff)
  then show ?thesis by (simp add: new_message_def prog_defs)
qed

lemma bind_new_message:
  "client_inv c \<Longrightarrow> is_connected c \<Longrightarrow>
   bindP (new_message op controls) f c =
     f (next_id c, OMessage (class_tag LDAPMessage) (next_id c) op controls) (c\<lparr>next_id := next_id c + 1\<rparr>)"
  using new_message_cases[of c op controls] by (simp add: bindP_def del: class_tag.simps)

definition put :: "int \<Rightarrow> bool \<Rightarrow> 's callback option \<Rightarrow> 's client \<Rightarrow> 's client" where
  "put i rc h c = c\<lparr>slots_of := slots_of c @ [None],
     onwire := onwire c @ [(i, \<lparr>pslot = length (slots_of c), return_controls = rc, phandler = h\<rparr>)]\<rparr>"

lemma put_onwire_put: "put_onwire i rc h c = (Inr (length (slots_of c)), put i rc h c)"
  by (simp add: put_onwire_def prog_defs put_def)

lemma put_onwire_next: "put_onwire i rc h (c\<lparr>next_id := n\<rparr>) = (Inr (length (slots_of c)), put i rc h (c\<lparr>next_id := n\<rparr>))"
  by (simp add: put_onwire_put)

lemma next_id_inv: "client_inv c \<Longrightarrow> client_inv (c\<lparr>next_id := next_id c + 1\<rparr>)"
  by (auto simp: client_inv_def waiting_slots_def)

lemma put_inv:
  assumes "client_inv c" "is_connected c"
  shows "client_inv (put (next_id c) rc h (c\<lparr>next_id := next_id c + 1\<rparr>))"
proof -
  have "\<forall>q \<in> set (onwire c). pslot (snd q) < length (slots_of c)" using pending_slot[OF assms(1)] by blast
  then show ?thesis
    using assms by (force simp: client_inv_def put_def waiting_slots_def nth_append distinct_map less_Suc_eq)
qed

text \<open>Putting the new message on the wire table, and what follows.\<close>

lemma registered_keeps_inv:
  assumes "client_inv c" "is_connected c" "\<And>k. keeps_inv (rest k)"
  shows "client_inv (snd (bindP (put_onwire (next_id c) rc h) rest (c\<lparr>next_id := next_id c + 1\<rparr>)))"
  using put_inv[OF assms(1,2), of rc h] assms(3)
  unfolding keeps_inv_def keeps_def by (simp add: bindP_def put_onwire_put)

lemma send_keeps_inv: "keeps_inv (send_and_wait op controls rc h)"
  unfolding keeps_inv_def keeps_def
proof (intro allI impI)
  fix c :: "'a client" assume inv: "client_inv c"
  show "client_inv (snd (send_and_wait op controls rc h c))"
  proof (cases "is_connected c \<and> needs_answer op")
    case True
    let ?rest = "\<lambda>k. bindP (liftP (toWire (OMessage (class_tag LDAPMessage) (next_id c) op controls))) (\<lambda>w.
        bindP (effectP (send_anyio_write w)) (\<lambda>_. returnP k))"
    have rest: "keeps_inv (?rest k)" for k
      unfolding keeps_inv_def by (intro keeps_rules write_keeps inv_refl inv_trans)
    have eq: "send_and_wait op controls rc h c =
        bindP (put_onwire (next_id c) rc h) ?rest (c\<lparr>next_id := next_id c + 1\<rparr>)"
      unfolding send_and_wait_def bind_new_message[OF inv conjunct1[OF True]] prod.case
      by (rule bindP_unless) (use True in blast)
    show ?thesis
      unfolding eq by (rule registered_keeps_inv[OF inv conjunct1[OF True] rest])
  next
    case False
    then show ?thesis
      using new_message_cases[OF inv, of op controls] inv next_id_inv[OF inv]
      by (auto simp: send_and_wait_def bindP_def unlessP_def raiseP_def)
  qed
qed

lemma new_message_keeps: "keeps (\<lambda>c c'. client_inv c \<longrightarrow> client_inv c') (new_message op controls)"
  unfolding keeps_def using new_message_cases next_id_inv by fastforce

lemma send_noResponse_keeps_inv: "keeps_inv (send_noResponse op controls)"
  unfolding keeps_inv_def send_noResponse_def
  by (intro keeps_rules keeps_case new_message_keeps write_keeps inv_refl inv_trans)


lemma start_TLS_keeps_inv: "keeps_inv start_TLS"
  unfolding keeps_inv_def keeps_def
proof (intro allI impI)
  fix c :: "'a client" assume inv: "client_inv c"
  show "client_inv (snd (start_TLS c))"
  proof (cases "is_connected c \<and> onwire c = []")
    case True
    obtain op where op: "mkStartTLSRequest None = Inr op" by (simp add: mkStartTLSRequest_def)
    let ?u = "\<lparr>tls_id = next_id c, response_received = False, tls_error = None\<rparr>"
    let ?rest = "\<lambda>k. bindP (updateP (\<lambda>c. c\<lparr>upgrading := Some ?u\<rparr>)) (\<lambda>_.
        bindP (liftP (toWire (OMessage (class_tag LDAPMessage) (next_id c) op None))) (\<lambda>w.
        bindP (effectP (send_anyio_write w)) (\<lambda>_. returnP k)))"
    have rest: "keeps_inv (?rest k)" for k
      unfolding keeps_inv_def by (intro keeps_rules keeps_updateP write_keeps inv_refl inv_trans) simp
    have eq: "start_TLS c = bindP (put_onwire (next_id c) False None) ?rest (c\<lparr>next_id := next_id c + 1\<rparr>)"
      unfolding start_TLS_def bindP_get bindP_unless[OF conjunct1[OF True]] bindP_unless[OF conjunct2[OF True]]
        op bindP_lift bind_new_message[OF inv conjunct1[OF True]] prod.case by (rule refl)
    show ?thesis
      unfolding eq by (rule registered_keeps_inv[OF inv conjunct1[OF True] rest])
  next
    case False
    then show ?thesis
      using inv by (auto simp: start_TLS_def bindP_def unlessP_def raiseP_def returnP_def getP_def)
  qed
qed

lemma see_upgrade_inv [simp]: "client_inv (see_upgrade i v c) = client_inv c"
  and see_upgrade_same [simp]: "onwire (see_upgrade i v c) = onwire c" "app (see_upgrade i v c) = app c"
    "slots_of (see_upgrade i v c) = slots_of c" "is_connected (see_upgrade i v c) = is_connected c"
  by (simp_all add: see_upgrade_def split: option.split)

lemma handle_keeps_inv:
  assumes "client_inv c"
  shows "client_inv (snd (handle_response m c))"
proof (cases m)
  case (OMessage t i v controls)
  let ?c = "see_upgrade i v c"
  show ?thesis
  proof (cases "map_of (onwire c) i")
    case None
    then show ?thesis using assms by (simp add: handle_response_def OMessage Let_def)
  next
    case (Some p)
    have "client_inv (?c\<lparr>app := s\<rparr>)" "map_of (onwire (?c\<lparr>app := s\<rparr>)) i = Some p" for s
      using assms Some by simp_all
    note fin = finish_inv(2)[OF this] finish_inv(2)[of ?c i p]
    show ?thesis
      using assms Some fin
      by (auto simp: handle_response_def OMessage Let_def split: option.split prod.split sum.split)
  qed
qed (use assms in \<open>simp_all add: handle_response_def\<close>)

theorem perform_keeps_inv: "client_inv c \<Longrightarrow> client_inv (snd (perform ev c))"
proof (cases ev)
  case (EndsTLS u)
  have "keeps_inv (end_TLS u)"
    unfolding keeps_inv_def end_TLS_def by (intro keeps_rules keeps_updateP inv_refl inv_trans) simp
  then show "client_inv c \<Longrightarrow> ?thesis" using ran_keeps_inv EndsTLS by simp
qed (simp_all add: ran_keeps_inv send_keeps_inv send_noResponse_keeps_inv start_TLS_keeps_inv
    handle_keeps_inv lost_keeps_inv aclose_keeps_inv)

lemma reachable_inv: "reachable c \<Longrightarrow> client_inv c"
proof (induction rule: reachable.induct)
  case (performed c ev e c')
  then show ?case using perform_keeps_inv[of c ev] by simp
qed (rule attached_inv)

section \<open>Lemmas: responses, and the loss of the connection\<close>

text \<open>What the handler of an operation says of a response; without one, the first is the final one.\<close>

definition verdict :: "'s pending \<Rightarrow> answer \<Rightarrow> 's \<Rightarrow> (exn + bool) \<times> 's" where
  "verdict p a s = (case phandler p of None \<Rightarrow> (Inr True, s) | Some h \<Rightarrow> h a s)"

definition answer_to :: "'s pending \<Rightarrow> ber \<Rightarrow> control list option \<Rightarrow> answer" where
  "answer_to p v controls = (if return_controls p then WithControls v controls else Response v)"

lemma handle_response_verdict:
  assumes "client_inv c" "map_of (onwire c) i = Some p" "is_response v" "i \<noteq> 0"
  shows "handle_response (OMessage t i v controls) c =
    (case verdict p (answer_to p v controls) (app c) of
       (Inl e, s) \<Rightarrow> (Some e, (see_upgrade i v c)\<lparr>app := s\<rparr>)
     | (Inr False, s) \<Rightarrow> (None, (see_upgrade i v c)\<lparr>app := s\<rparr>)
     | (Inr True, s) \<Rightarrow> (None, (see_upgrade i v c)\<lparr>app := s,
           slots_of := (slots_of c)[pslot p := Some (Value (answer_to p v controls))],
           onwire := filter (\<lambda>q. fst q \<noteq> i) (onwire c)\<rparr>))"
proof -
  let ?c = "see_upgrade i v c"
  have "client_inv (?c\<lparr>app := s\<rparr>)" "map_of (onwire (?c\<lparr>app := s\<rparr>)) i = Some p" for s
    using assms(1,2) by simp_all
  note fin = finish_inv(1)[OF this]
  show ?thesis
  proof (cases "phandler p")
    case None
    then show ?thesis
      using assms finish_inv(1)[of ?c i p]
      by (simp add: handle_response_def verdict_def Let_def flip: answer_to_def)
  next
    case (Some h)
    then show ?thesis
      using assms fin
      by (auto simp: handle_response_def verdict_def Let_def split: prod.split sum.split simp flip: answer_to_def)
  qed
qed

text \<open>Every slot that had no result gets the exception.\<close>

definition resolve_all :: "exn \<Rightarrow> slots \<Rightarrow> slots" where
  "resolve_all reason sl = map (\<lambda>r. case r of None \<Rightarrow> Some (Error reason) | Some x \<Rightarrow> Some x) sl"

lemma fill_waiting: "client_inv c \<Longrightarrow> fill (waiting_slots c) (Error reason) (slots_of c) = resolve_all reason (slots_of c)"
  by (rule nth_equalityI) (auto simp: resolve_all_def client_inv_def split: option.split)

lemma connectionLost_resolves:
  assumes "client_inv c"
  shows "connectionLost reason c =
    (None, c\<lparr>is_connected := False, has_stream := False, has_lock := False, upgrading := None,
             onwire := [], slots_of := resolve_all reason (slots_of c)\<rparr>)"
  using connectionLost_inv[OF assms] fill_waiting[OF assms] by simp

lemma resolve_all_done: "None \<notin> set (resolve_all reason sl)"
  by (auto simp: resolve_all_def split: option.splits)

lemma unresolved_connected: "client_inv c \<Longrightarrow> None \<in> set (slots_of c) \<Longrightarrow> is_connected c"
  by (auto simp: client_inv_def waiting_slots_def in_set_conv_nth)

section \<open>Lemmas: the reader\<close>

lemma handlers_keep_inv: "client_inv c \<Longrightarrow> client_inv (snd (for_each handle_response ms c))"
proof (induction ms arbitrary: c)
  case (Cons m ms)
  then show ?case using handle_keeps_inv[of c m] by (auto split: prod.splits option.splits)
qed simp

text \<open>
  The messages of a stream are handled in order until something escapes; then, or when the stream
  ends, whoever still waits is told that the connection is gone.
\<close>

lemma run_reader_delivers:
  assumes "client_inv c" "list_all2 encodes ms ws" "concat chunks = concat ws @ part" "message_part part"
    and "for_each handle_response (map canon_message ms) c = (e, c1)"
  shows "fst (run_reader chunks c) = e \<and> onwire (snd (run_reader chunks c)) = [] \<and>
    slots_of (snd (run_reader chunks c)) = resolve_all ConnectionDone (slots_of c1)"
proof -
  obtain b where r: "client_read_from_stream handle_response chunks [] c = (e, b, c1)"
    using client.reader_frames[OF encodes_frames[OF assms(2)] client_partial[OF assms(4)] client.partial_Nil,
        of chunks handle_response c] assms(3,5)
    by (cases e) (auto simp: deliver_checked)
  have inv: "client_inv c1" using handlers_keep_inv[OF assms(1)] assms(5) by (metis snd_conv)
  show ?thesis
  proof (cases "is_connected c1")
    case True
    have "client_inv (c1\<lparr>has_stream := False\<rparr>)" using inv by simp
    then show ?thesis using r True by (simp add: run_reader_def connectionLost_resolves)
  next
    case False
    then have "None \<notin> set (slots_of c1)" using unresolved_connected[OF inv] by blast
    then have "resolve_all ConnectionDone (slots_of c1) = slots_of c1"
      unfolding resolve_all_def by (intro map_idI) (auto split: option.split, metis option.exhaust)
    then show ?thesis using r False inv by (simp add: run_reader_def client_inv_def)
  qed
qed

lemma is_response_canon [simp]: "is_response (canon_op v) = is_response v"
  by (cases v) simp_all

end
