(* ===== verification/Session.thy ===== *)
theory Session
  imports LdapServer LdapClient
begin

text \<open>
  A client of \<open>ldapclient.py\<close> and a server of \<open>ldapserver.py\<close> together: what becomes of one request,
  from the call that sends it to the slot that its caller waits for.
\<close>

section \<open>The responses of the server\<close>

fun is_search :: "ber \<Rightarrow> bool" where
  "is_search (OSearchRequest t b sc d slim tlim ty f at) \<longleftrightarrow> True"
| "is_search _ \<longleftrightarrow> False"

definition same_sent :: "server \<Rightarrow> server \<Rightarrow> bool" where
  "same_sent s s' \<longleftrightarrow> sent s' = sent s"

lemma same_sent_refl: "reflp same_sent"
  and same_sent_trans: "transp same_sent"
  by (simp_all add: same_sent_def reflp_def transp_def)

lemma handler_silent:
  assumes "\<not> is_search v"
  shows "keeps same_sent (handler w v controls reply)"
proof -
  note R = same_sent_refl same_sent_trans
  have unk: "keeps same_sent handleUnknown" by (simp add: handleUnknown_def keeps_still R)
  have unb: "keeps same_sent (bindP handle_LDAPUnbindRequest (\<lambda>_. returnP None :: ber option run))"
    unfolding handle_LDAPUnbindRequest_def
    by (intro keeps_bindP keeps_updateP keeps_still R) (simp add: same_sent_def)
  have
    "keeps same_sent (handle_LDAPCompareRequest parse errtext dn ava controls)"
    "keeps same_sent (handle_LDAPBindRequest sha1 version dn auth sasl controls)"
    "keeps same_sent (handle_LDAPDelRequest dn controls)"
    "keeps same_sent (handle_LDAPAddRequest entry addattrs controls)"
    "keeps same_sent (handle_LDAPModifyDNRequest dn rdn delold superior controls)"
    "keeps same_sent (handle_LDAPModifyRequest request controls)"
    "keeps same_sent (handle_LDAPExtendedRequest sha1 salt dn superior controls)"
    for parse errtext dn ava sha1 version auth sasl entry addattrs rdn delold superior request salt
    by (rule keeps_comparing keeps_binding keeps_deleting keeps_adding keeps_moving
        keeps_modifying keeps_extended; simp add: R same_sent_def)+
  then show ?thesis using unk unb assms by (cases v) (simp_all add: keeps_some R)
qed

text \<open>Responses are such that they survive the wire.\<close>

lemma wf_response [simp]: "wf_op (ldap_response k c d m)" "wf_op (extended_response c m n)"
  by (simp_all add: ldap_response_def extended_response_def class_simps)

lemma wf_fail: "wf_op (fail_response v c m)"
  by (cases v) simp_all

lemma wf_error: "wf_op (error_response w v e)"
  unfolding error_response_def by (cases e) (simp_all add: wf_fail)

lemma handler_wf: "yields (\<lambda>r. case r of None \<Rightarrow> True | Some x \<Rightarrow> wf_op x) (handler w v controls reply)"
proof -
  have some: "yields wf_op m \<Longrightarrow> yields (\<lambda>r. case r of None \<Rightarrow> True | Some x \<Rightarrow> wf_op x) (some_response m)"
    for m :: "ber run"
  proof -
    assume "yields wf_op m"
    then show "yields (\<lambda>r. case r of None \<Rightarrow> True | Some x \<Rightarrow> wf_op x) (some_response m)"
      using yields_some[of wf_op m] unfolding yields_def by (metis option.case(2))
  qed
  have unk: "yields wf_op handleUnknown" by (simp add: handleUnknown_def yields_def prog_defs)
  have pw: "yields wf_op (extendedRequest_LDAPPasswordModifyRequest sha1 salt data)" for sha1 salt data
    unfolding extendedRequest_LDAPPasswordModifyRequest_def by (intro yields_rules) simp
  have ext: "yields wf_op (handle_LDAPExtendedRequest sha1 salt name reqvalue controls)" for sha1 salt name reqvalue
    unfolding handle_LDAPExtendedRequest_def
    by (intro yields_rules) (auto split: list.split intro!: yields_rules pw)
  have
    "yields wf_op (handle_LDAPBindRequest sha1 version dn auth sasl controls)"
    "yields wf_op (handle_LDAPSearchRequest parse errtext base sc filt attrs controls reply)"
    "yields wf_op (handle_LDAPModifyRequest request controls)"
    "yields wf_op (handle_LDAPAddRequest entry addattrs controls)"
    "yields wf_op (handle_LDAPDelRequest dn controls)"
    "yields wf_op (handle_LDAPModifyDNRequest dn rdn delold superior controls)"
    "yields wf_op (handle_LDAPCompareRequest parse errtext dn ava controls)"
    for parse errtext base sc filt attrs dn ava sha1 version auth sasl entry addattrs rdn delold superior request
    unfolding handle_LDAPBindRequest_def handle_LDAPSearchRequest_def handle_LDAPModifyRequest_def
      handle_LDAPAddRequest_def handle_LDAPDelRequest_def handle_LDAPModifyDNRequest_def
      handle_LDAPCompareRequest_def cbSearchGotBase_def getRootDSE_def
    by (intro yields_rules; simp)+
  note all = some[OF this(1)] some[OF this(2)] some[OF this(3)] some[OF this(4)] some[OF this(5)]
    some[OF this(6)] some[OF this(7)] some[OF ext] some[OF unk]
  have "yields (\<lambda>r. case r of None \<Rightarrow> True | Some x \<Rightarrow> wf_op x) (bindP m (\<lambda>_. returnP None) :: ber option run)"
    for m :: "unit run" by (intro yields_rules) simp
  then show ?thesis using all by (cases v) simp_all
qed

lemma answers_response: "answers v r \<Longrightarrow> is_response r"
  by (cases v; cases r) (simp_all split: if_splits)

text \<open>One request and its response.\<close>

lemma one_response:
  assumes "is_request v" "i \<noteq> 0" "\<forall>k t. v \<noteq> ONull k t" "\<not> is_search v"
  obtains r s1 where "answers v r" "wf_op r" "sent s1 = sent s"
    "handle_message w (OMessage t i v controls) s = respond i r s1"
proof -
  let ?m = "catchP (handler w v controls (respond i)) (\<lambda>e. returnP (Some (error_response w v e)))"
  have y: "yields (\<lambda>r. \<exists>x. r = Some x \<and> answers v x) ?m"
    using handler_answers[of v undefined w controls "respond i"] assms(3) answers_error
    by (intro yields_rules) auto
  have wf: "yields (\<lambda>r. case r of None \<Rightarrow> True | Some x \<Rightarrow> wf_op x) ?m"
    using wf_error by (intro yields_rules handler_wf) auto
  have k: "keeps same_sent ?m"
    by (intro keeps_rules handler_silent[OF assms(4)] same_sent_refl same_sent_trans)
  obtain res s1 where m: "?m s = (res, s1)" by (cases "?m s")
  have "\<exists>a. res = Inr a"
    using m by (auto simp: catchP_def returnP_def split: prod.splits sum.splits)
  then obtain r where r: "?m s = (Inr (Some r), s1)" "answers v r"
    using y m unfolding yields_def by blast
  moreover have "wf_op r" using wf r(1) unfolding yields_def by fastforce
  moreover have "sent s1 = sent s" using k r(1) unfolding keeps_def same_sent_def by (metis snd_conv)
  moreover have "handle_message w (OMessage t i v controls) s = respond i r s1"
    using assms(1,2) r(1) by (simp add: handle_message_def bindP_def unlessP_def returnP_def)
  ultimately show ?thesis using that by blast
qed

section \<open>One exchange\<close>

lemma canon_request [simp]:
  "is_request (canon_op v) \<longleftrightarrow> is_request v" "is_search (canon_op v) \<longleftrightarrow> is_search v"
  "(\<forall>k t. canon_op v \<noteq> ONull k t) \<longleftrightarrow> (\<forall>k t. v \<noteq> ONull k t)"
  by (cases v; simp)+

text \<open>A send on a working connection: the slot, what is written, and what is remembered.\<close>

lemma send_works:
  assumes "client_inv c" "is_connected c" "has_lock c" "has_stream c" "\<not> stream_broken c" "needs_answer op"
    and "toWire (OMessage (class_tag LDAPMessage) (next_id c) op controls) = Inr w"
  shows "send_and_wait op controls rc h c =
    (Inr (length (slots_of c)), (put (next_id c) rc h (c\<lparr>next_id := next_id c + 1\<rparr>))\<lparr>written := written c @ [w]\<rparr>)"
proof -
  let ?c = "put (next_id c) rc h (c\<lparr>next_id := next_id c + 1\<rparr>)"
  have wr: "send_anyio_write w ?c = (None, ?c\<lparr>written := written c @ [w]\<rparr>)"
    using assms(2-5) by (simp add: send_anyio_write_def put_def)
  have "send_and_wait op controls rc h c =
      bindP (put_onwire (next_id c) rc h) (\<lambda>k. bindP (liftP (Inr w)) (\<lambda>w.
        bindP (effectP (send_anyio_write w)) (\<lambda>_. returnP k))) (c\<lparr>next_id := next_id c + 1\<rparr>)"
    unfolding send_and_wait_def bind_new_message[OF assms(1,2)] prod.case assms(7)
    by (rule bindP_unless[OF assms(6)])
  also have "\<dots> = bindP (liftP (Inr w)) (\<lambda>w.
        bindP (effectP (send_anyio_write w)) (\<lambda>_. returnP (length (slots_of c)))) ?c"
    by (simp add: bindP_def put_onwire_put)
  also have "\<dots> = (Inr (length (slots_of c)), ?c\<lparr>written := written c @ [w]\<rparr>)"
    unfolding bindP_lift by (simp add: bindP_def effectP_def wr returnP_def)
  finally show ?thesis .
qed

text \<open>The response of the server in the hands of the client that waits for it.\<close>

lemma reply_received:
  assumes "client_inv c" "is_connected c" "is_response r" "wf_op r" "next_id c \<noteq> 0"
    and "toWire (in_message (next_id c) r) = Inr wr" "concat chunks = wr"
    and "c1 = (put (next_id c) False None (c\<lparr>next_id := next_id c + 1\<rparr>))\<lparr>written := ws\<rparr>"
  shows "\<exists>c2. client_read_from_stream handle_response chunks [] c1 = (None, [], c2) \<and>
    slots_of c2 = slots_of c @ [Some (Value (Response (canon_op r)))] \<and> onwire c2 = onwire c"
proof -
  let ?i = "next_id c" and ?k = "length (slots_of c)"
  let ?p = "\<lparr>pslot = ?k, return_controls = False, phandler = None\<rparr> :: 'a pending"
  have old: "map_of (onwire c) ?i = None" "\<forall>q \<in> set (onwire c). fst q \<noteq> ?i"
    using assms(1) by (force simp: client_inv_def map_of_eq_None_iff)+
  have inv: "client_inv c1" unfolding assms(8) using put_inv[OF assms(1,2)] by simp
  have p: "map_of (onwire c1) ?i = Some ?p" using old(1) by (simp add: assms(8) put_def map_add_def)
  have "handle_response (canon_message (in_message ?i r)) c1 =
      (None, (see_upgrade ?i (canon_op r) c1)\<lparr>app := app c1,
         slots_of := (slots_of c1)[?k := Some (Value (Response (canon_op r)))],
         onwire := filter (\<lambda>q. fst q \<noteq> ?i) (onwire c1)\<rparr>)" (is "_ = (None, ?c2)")
    using handle_response_verdict[OF inv p, of "canon_op r" "0x10" None] assms(3,5)
    by (simp add: canon_message_def in_message_def verdict_def answer_to_def)
  then have each: "for_each handle_response (map canon_message [in_message ?i r]) c1 = (None, ?c2)" by simp
  have enc: "encodes (in_message ?i r) wr" using assms(4,6) by (simp add: encodes_def in_message_def)
  obtain b where "client_read_from_stream handle_response chunks [] c1 = (None, b, ?c2)" "b = []"
    using client.reader_frames[OF encodes_frames[of "[in_message ?i r]" "[wr]"] client.partial_Nil client.partial_Nil,
        of chunks handle_response c1] deliver_checked[of handle_response "[in_message ?i r]" c1] each enc assms(7)
    by (auto simp del: for_each.simps)
  moreover have "slots_of ?c2 = slots_of c @ [Some (Value (Response (canon_op r)))]" "onwire ?c2 = onwire c"
    using old(2) by (simp_all add: assms(8) put_def list_update_append filter_True)
  ultimately show ?thesis by blast
qed


lemma respond_in_message:
  "respond i r s = (case toWire (in_message i r) of Inl e \<Rightarrow> (Inl e, s)
     | Inr wr \<Rightarrow> (Inr (), s\<lparr>sent := sent s @ [in_message i r]\<rparr>))"
  by (cases "toWire (in_message i r)")
    (simp_all add: respond_def Let_def bindP_def liftP_def updateP_def in_message_def del: toWire.simps)

text \<open>The request in the hands of the server, and the one response it sends.\<close>

lemma request_served:
  assumes "wf_op v" "is_request v" "\<forall>k t. v \<noteq> ONull k t" "\<not> is_search v" "i \<noteq> 0"
    and "handle_async w (canon_message (OMessage t i v controls)) s = (None, s')"
  shows "\<exists>r wr. answers (canon_op v) r \<and> wf_op r \<and> toWire (in_message i r) = Inr wr \<and>
    sent s' = sent s @ [in_message i r]"
proof -
  have m: "canon_message (OMessage t i v controls) =
      OMessage 0x10 i (canon_op v) (map_option (map canon_control) controls)" by (simp add: canon_message_def)
  obtain r s1 where r: "answers (canon_op v) r" "wf_op r" "sent s1 = sent s"
    "handle_message w (OMessage 0x10 i (canon_op v) (map_option (map canon_control) controls)) s = respond i r s1"
    using one_response[of "canon_op v" i s w "0x10" "map_option (map canon_control) controls"] assms(2-5) by auto
  have "\<exists>wr. toWire (in_message i r) = Inr wr \<and> sent s' = sent s1 @ [in_message i r]"
    using assms(6) by (cases "toWire (in_message i r)")
      (auto simp: m handle_async_def r(4) respond_in_message simp del: toWire.simps)
  then show ?thesis using r(1-3) by auto
qed

end
