(* ===== verification/NumberAlloc.thy ===== *)
theory NumberAlloc
  imports InMemory
begin

text \<open>
  \<open>numberalloc.py\<close>: the search for a free number by guessing, which may raise what a guess raises
  and need not end. A guess counts the entries that have the number.
\<close>

section \<open>Guessing\<close>

text \<open>The loop of \<open>startGuessing\<close>, given \<open>min\<close>, \<open>max\<close> and the guess; None when it does not end.\<close>

partial_function (option) guessing ::
    "(int \<Rightarrow> exn + int) \<Rightarrow> int \<Rightarrow> int option \<Rightarrow> int \<Rightarrow> (exn + int) option" where
  "guessing makeAGuess mn mx g =
     (case makeAGuess g of
        Inl e \<Rightarrow> Some (Inl e)
      | Inr found \<Rightarrow>
          let mn' = (if found \<noteq> 0 then g else mn);
              mx' = (if found \<noteq> 0 then mx else Some g)
          in
          (case mx' of
             None \<Rightarrow> guessing makeAGuess mn' None ((mn' + 1000 + mn') div 2)
           | Some m \<Rightarrow>
               if m = mn' \<or> m = mn' + 1 then Some (Inr m)
               else guessing makeAGuess mn' (Some m) ((m + mn') div 2)))"

definition startGuessing :: "(int \<Rightarrow> exn + int) \<Rightarrow> int option \<Rightarrow> int option \<Rightarrow> (exn + int) option" where
  "startGuessing makeAGuess mn mx =
     (let n = (case mn of None \<Rightarrow> 0 | Some i \<Rightarrow> i) in guessing makeAGuess n mx n)"

definition ldap_guess :: "(string \<Rightarrow> exn + ber) \<Rightarrow> node \<Rightarrow> string \<Rightarrow> int \<Rightarrow> exn + int" where
  "ldap_guess parseFilter ldapObject numberType num =
     bindE (search_list parseFilter None
         (Some (OAttributeValueAssertion LDAPFilter_equalityMatch (class_tag (CAssertion LDAPFilter_equalityMatch))
            (OOctetString LDAPAttributeDescription (class_tag (COctetString LDAPAttributeDescription)) (Str numberType))
            (Some (OOctetString LDAPAssertionValue (class_tag (COctetString LDAPAssertionValue)) (Str (int_text num))))))
         None ldapObject)
       (\<lambda>results. Inr (int (length results)))"

definition getFreeNumber ::
    "(string \<Rightarrow> exn + ber) \<Rightarrow> node \<Rightarrow> string \<Rightarrow> int option \<Rightarrow> int option \<Rightarrow> (exn + int) option" where
  "getFreeNumber parseFilter ldapObject numberType mn mx =
     startGuessing (ldap_guess parseFilter ldapObject numberType) mn mx"

section \<open>Lemmas: the search ends with a free number\<close>

text \<open>Between a number in use and a bound, by halving.\<close>

lemma guessing_between:
  assumes "f = (\<lambda>n. Inr (c n))"
  shows "mn + 1 < m \<Longrightarrow>
    \<exists>n. guessing f mn (Some m) ((m + mn) div 2) = Some (Inr n) \<and> mn < n \<and> n \<le> m \<and>
      (n = m \<or> c n = 0) \<and> (n = mn + 1 \<or> c (n - 1) \<noteq> 0)"
proof (induction "nat (m - mn)" arbitrary: mn m rule: less_induct)
  case less
  let ?g = "(m + mn) div 2"
  have g: "mn < ?g" "?g < m" using less.prems by linarith+
  show ?case
  proof (cases "c ?g = 0")
    case False
    show ?thesis
    proof (cases "m = ?g + 1")
      case True
      then have "m - 1 = ?g" by linarith
      then have "c (m - 1) \<noteq> 0" using False by simp
      moreover have "guessing f mn (Some m) ?g = Some (Inr m)"
        using True False by (subst guessing.simps) (simp add: assms Let_def)
      ultimately show ?thesis using less.prems by (intro exI[of _ m]) simp
    next
      case False
      then have "?g + 1 < m" "nat (m - ?g) < nat (m - mn)" using g by linarith+
      from less.hyps[OF this(2,1)] obtain n where
        "guessing f ?g (Some m) ((m + ?g) div 2) = Some (Inr n)" "?g < n" "n \<le> m" "n = m \<or> c n = 0"
        "n = ?g + 1 \<or> c (n - 1) \<noteq> 0" by blast
      then show ?thesis using \<open>c ?g \<noteq> 0\<close> False g
        by (subst guessing.simps) (auto simp: assms Let_def)
    qed
  next
    case True
    show ?thesis
    proof (cases "?g = mn + 1")
      case True
      then show ?thesis using \<open>c ?g = 0\<close> g
        by (subst guessing.simps) (auto simp: assms Let_def intro!: exI[of _ "?g"])
    next
      case False
      then have "mn + 1 < ?g" "nat (?g - mn) < nat (m - mn)" using g by linarith+
      from less.hyps[OF this(2,1)] obtain n where
        "guessing f mn (Some ?g) ((?g + mn) div 2) = Some (Inr n)" "mn < n" "n \<le> ?g" "n = ?g \<or> c n = 0"
        "n = mn + 1 \<or> c (n - 1) \<noteq> 0" by blast
      then show ?thesis using \<open>c ?g = 0\<close> False g
        by (subst guessing.simps) (auto simp: assms Let_def)
    qed
  qed
qed

text \<open>Without a bound: in steps of 500 up to a number that is free.\<close>

lemma guessing_upwards:
  assumes "f = (\<lambda>n. Inr (c n))" "\<And>n. n \<ge> b \<Longrightarrow> c n = 0"
  shows "\<exists>n. guessing f mn None ((mn + 1000 + mn) div 2) = Some (Inr n) \<and> mn < n \<and> c n = 0 \<and>
    (n = mn + 1 \<or> c (n - 1) \<noteq> 0)"
proof (induction "nat (b - mn)" arbitrary: mn rule: less_induct)
  case less
  let ?g = "(mn + 1000 + mn) div 2"
  have g: "?g = mn + 500" by linarith
  show ?case
  proof (cases "c ?g = 0")
    case True
    obtain n where n: "guessing f mn (Some ?g) ((?g + mn) div 2) = Some (Inr n)" "mn < n" "n \<le> ?g" "n = ?g \<or> c n = 0"
        "n = mn + 1 \<or> c (n - 1) \<noteq> 0"
      using guessing_between[OF assms(1), of mn ?g] g by auto
    have "guessing f mn None ?g = guessing f mn (Some ?g) ((?g + mn) div 2)"
      using True g by (subst guessing.simps) (simp add: assms(1) Let_def)
    then show ?thesis using n True by (metis (no_types))
  next
    case False
    then have "?g < b" using assms(2) by (metis not_le)
    then have "nat (b - ?g) < nat (b - mn)" using g by linarith
    from less.hyps[OF this] obtain n where
      n: "guessing f ?g None ((?g + 1000 + ?g) div 2) = Some (Inr n)" "?g < n" "c n = 0" "n = ?g + 1 \<or> c (n - 1) \<noteq> 0"
      by blast
    have "guessing f mn None ?g = guessing f ?g None ((?g + 1000 + ?g) div 2)"
      using False by (subst guessing.simps) (simp add: assms(1) Let_def add.commute)
    moreover have "c (n - 1) \<noteq> 0"
    proof (cases "n = ?g + 1")
      case True
      then have "n - 1 = ?g" by linarith
      then show ?thesis using False by (simp only: not_False_eq_True)
    qed (use n(4) in blast)
    moreover have "mn < n" using n(2) g by linarith
    ultimately show ?thesis using n(1,3) by auto
  qed
qed

lemma startGuessing_free:
  assumes "f = (\<lambda>n. Inr (c n))" "\<And>n. n \<ge> b \<Longrightarrow> c n = 0"
  shows "\<exists>n. startGuessing f (Some mn) None = Some (Inr n) \<and> mn \<le> n \<and> c n = 0 \<and> (n = mn \<or> c (n - 1) \<noteq> 0)"
proof (cases "c mn = 0")
  case True
  then have "guessing f mn None mn = Some (Inr mn)"
    by (subst guessing.simps) (simp add: assms(1) Let_def)
  then show ?thesis using True by (simp add: startGuessing_def)
next
  case False
  then have "guessing f mn None mn = guessing f mn None ((mn + 1000 + mn) div 2)"
    by (subst guessing.simps) (simp add: assms(1) Let_def)
  moreover obtain n where "guessing f mn None ((mn + 1000 + mn) div 2) = Some (Inr n)" "mn < n" "c n = 0"
      "n = mn + 1 \<or> c (n - 1) \<noteq> 0"
    using guessing_upwards[OF assms(1), of b mn] assms(2) by blast
  ultimately show ?thesis using False by (auto simp: startGuessing_def)
qed

lemma startGuessing_bounded:
  assumes "f = (\<lambda>n. Inr (c n))" "mn \<le> mx"
  shows "\<exists>n. startGuessing f (Some mn) (Some mx) = Some (Inr n) \<and> mn \<le> n \<and> n \<le> mx \<and>
    (n = mx \<or> c n = 0) \<and> (n = mn \<or> n = mn + 1 \<or> c (n - 1) \<noteq> 0)"
proof (cases "c mn = 0")
  case True
  then have "guessing f mn (Some mx) mn = Some (Inr mn)"
    by (subst guessing.simps) (simp add: assms(1) Let_def)
  then show ?thesis using True assms(2) by (simp add: startGuessing_def)
next
  case False
  show ?thesis
  proof (cases "mx = mn \<or> mx = mn + 1")
    case True
    then have "guessing f mn (Some mx) mn = Some (Inr mx)"
      using \<open>c mn \<noteq> 0\<close> by (subst guessing.simps) (simp add: assms(1) Let_def)
    then show ?thesis using True assms(2) by (auto simp: startGuessing_def)
  next
    case bound: False
    then have "guessing f mn (Some mx) mn = guessing f mn (Some mx) ((mx + mn) div 2)"
      using False by (subst guessing.simps) (simp add: assms(1) Let_def)
    moreover have "mn + 1 < mx" using bound assms(2) by linarith
    from guessing_between[OF assms(1) this] obtain n where
      "guessing f mn (Some mx) ((mx + mn) div 2) = Some (Inr n)" "mn < n" "n \<le> mx" "n = mx \<or> c n = 0"
      "n = mn + 1 \<or> c (n - 1) \<noteq> 0" by blast
    ultimately show ?thesis by (auto simp: startGuessing_def)
  qed
qed

section \<open>Lemmas: numbers in a tree\<close>

text \<open>Some entry of the tree has the number as a value of the attribute.\<close>

definition number_in_use :: "node \<Rightarrow> string \<Rightarrow> int \<Rightarrow> bool" where
  "number_in_use root ty n \<longleftrightarrow>
     list_ex (\<lambda>m. list_ex (\<lambda>v. folded_value v = folded_value (Str (int_text n))) (attr_list (nentry m) (Str ty)))
       (subtree root)"

lemma ldap_guess_counts:
  "\<exists>c. ldap_guess parseFilter root ty = (\<lambda>n. Inr (c n)) \<and> (\<forall>n. c n \<noteq> 0 \<longleftrightarrow> number_in_use root ty n)"
proof -
  let ?f = "\<lambda>n. OAttributeValueAssertion LDAPFilter_equalityMatch (class_tag (CAssertion LDAPFilter_equalityMatch))
      (OOctetString LDAPAttributeDescription (class_tag (COctetString LDAPAttributeDescription)) (Str ty))
      (Some (OOctetString LDAPAssertionValue (class_tag (COctetString LDAPAssertionValue)) (Str (int_text n))))"
  let ?c = "\<lambda>n. int (length (filter (\<lambda>m. holds (nentry m) (?f n)) (subtree root)))"
  have sup: "supported ends_only (?f n)" for n by (simp add: named_def text_ok_def)
  have sc: "scope_nodes None root = Inr (subtree root)" by (simp add: scope_nodes_def)
  have "ldap_guess parseFilter root ty n = Inr (?c n)" for n
    unfolding ldap_guess_def search_list_holds[OF sup sc] by simp
  moreover have "?c n \<noteq> 0 \<longleftrightarrow> number_in_use root ty n" for n
    by (auto simp: number_in_use_def list_ex_iff filter_empty_conv)
  ultimately show ?thesis by (intro exI[of _ ?c]) (auto simp: fun_eq_iff)
qed

lemma digits_long: "n < 10 ^ length (nat_digits n)"
proof (induction n rule: nat_digits.induct)
  case (1 n)
  show ?case
  proof (cases "n < 10")
    case False
    then have "n div 10 < 10 ^ length (nat_digits (n div 10))" using 1 by blast
    then have "n < 10 * 10 ^ length (nat_digits (n div 10))" by linarith
    then show ?thesis using False by (subst nat_digits.simps) simp
  qed (subst nat_digits.simps, simp)
qed

lemma utf8_not_shorter: "length s \<le> length (utf8_encode s)"
proof (induction s)
  case (Cons c s)
  have "1 \<le> length (utf8_char c)" by (simp add: utf8_char_def Let_def)
  then show ?case using Cons unfolding utf8_encode_def by (simp del: One_nat_def length_greater_0_conv Suc_le_length_iff)
qed simp

text \<open>A tree holds but finitely many values, so that numbers beyond some bound are not in use.\<close>

lemma numbers_bounded: "\<exists>b. \<forall>n \<ge> b. \<not> number_in_use root ty n"
proof -
  let ?vs = "concat (map (\<lambda>m. attr_list (nentry m) (Str ty)) (subtree root))"
  let ?l = "Max (insert 0 (set (map (length \<circ> folded_value) ?vs)))"
  have "\<not> number_in_use root ty n" if n: "n \<ge> 10 ^ ?l" for n
  proof
    assume "number_in_use root ty n"
    then obtain v where v: "v \<in> set ?vs" "folded_value v = folded_value (Str (int_text n))"
      by (auto simp: number_in_use_def list_ex_iff)
    have "(0::int) \<le> 10 ^ ?l" by simp
    then have "0 \<le> n" using n by linarith
    then have t: "int_text n = nat_digits (nat n)" by (simp add: int_text_def)
    have "length (nat_digits (nat n)) \<le> length (folded_value (Str (int_text n)))"
      using utf8_not_shorter by (simp add: folded_value_def blower_def t)
    also have "\<dots> = (length \<circ> folded_value) v" using v(2) by simp
    also have "\<dots> \<le> ?l" using v(1) by (intro Max_ge) auto
    finally have "(10::nat) ^ length (nat_digits (nat n)) \<le> 10 ^ ?l" by (rule power_increasing) simp
    then have "nat n < 10 ^ ?l" using digits_long[of "nat n"] by linarith
    moreover have "nat (10 ^ ?l) = 10 ^ ?l" by (simp add: nat_power_eq)
    ultimately show False using n \<open>0 \<le> n\<close> by linarith
  qed
  then show ?thesis by blast
qed

lemma getFreeNumber_free:
  "\<exists>n. getFreeNumber parseFilter root ty (Some mn) None = Some (Inr n) \<and> mn \<le> n \<and>
     \<not> number_in_use root ty n \<and> (n = mn \<or> number_in_use root ty (n - 1))"
proof -
  obtain c where c: "ldap_guess parseFilter root ty = (\<lambda>n. Inr (c n))" "\<forall>n. c n \<noteq> 0 \<longleftrightarrow> number_in_use root ty n"
    using ldap_guess_counts by blast
  obtain b where "\<forall>n \<ge> b. \<not> number_in_use root ty n" using numbers_bounded by blast
  then have "n \<ge> b \<Longrightarrow> c n = 0" for n using c(2) by blast
  from startGuessing_free[OF c(1) this, of b mn] c(2) show ?thesis
    unfolding getFreeNumber_def by auto
qed

end
