(* ===== verification/Modlist.thy ===== *)
theory Modlist
  imports Collections
begin

text \<open>
  \<open>ldap/modlist.py\<close>: the lists of changes that add an entry or turn one entry into another. Values
  are text, bytes, lists of these with gaps, or nothing; an entry is a dictionary with its order.
\<close>

section \<open>Values\<close>

datatype attr_value = NoValue | OneValue pytext | Values "pytext option list"

type_synonym ldap_entry = "(string \<times> attr_value) list"

fun mod_values :: "attr_value \<Rightarrow> bytes list" where
  "mod_values NoValue = []"
| "mod_values (OneValue v) = [to_bytes v]"
| "mod_values (Values vs) = map to_bytes (List.map_filter (\<lambda>v. v) vs)"

section \<open>Adding\<close>

definition addModlist :: "ldap_entry \<Rightarrow> string list \<Rightarrow> (string \<times> bytes list) list" where
  "addModlist ent ignore_attr_types =
     (let ignored = map lower ignore_attr_types in
      concat (map (\<lambda>(attribute, vs).
        if lower attribute \<in> set ignored then []
        else if mod_values vs \<noteq> [] then [(attribute, mod_values vs)] else []) ent))"

section \<open>Modifying\<close>

datatype mod_type = MOD_ADD | MOD_DELETE

type_synonym modlist = "(mod_type \<times> string \<times> bytes list option) list"

definition differs :: "bytes list \<Rightarrow> bytes list \<Rightarrow> bool \<Rightarrow> bool" where
  "differs old_values new_values case_ignore =
     (if length old_values \<noteq> length new_values then True
      else if case_ignore then blower ` set old_values \<noteq> blower ` set new_values
      else set old_values \<noteq> set new_values)"

definition remaining_of :: "ldap_entry \<Rightarrow> (string, string) dict" where
  "remaining_of old = foldl (\<lambda>d (attribute, vs). dict_set (lower attribute) attribute d) [] old"

text \<open>One attribute of the new entry: the changes it needs, and the attributes it leaves over.\<close>

definition modify_attribute ::
    "string list \<Rightarrow> string list \<Rightarrow> ldap_entry \<Rightarrow> string \<times> attr_value \<Rightarrow> (string, string) dict \<Rightarrow>
     modlist \<times> (string, string) dict" where
  "modify_attribute ignored case_ignored old = (\<lambda>(attribute, vs) remaining.
     let lowered = lower attribute in
     if lowered \<in> set ignored then ([], remaining)
     else
       let new_values = mod_values vs;
           (old_values, left) = (case map_of remaining lowered of
               Some spelled \<Rightarrow> (case map_of old spelled of None \<Rightarrow> [] | Some ovs \<Rightarrow> mod_values ovs,
                             filter (\<lambda>x. fst x \<noteq> lowered) remaining)
             | None \<Rightarrow> ([], remaining))
       in
       (if old_values = [] \<and> new_values \<noteq> [] then [(MOD_ADD, attribute, Some new_values)]
        else if old_values \<noteq> [] \<and> new_values \<noteq> [] then
          (if differs old_values new_values (lowered \<in> set case_ignored) then
             [(MOD_DELETE, attribute, None), (MOD_ADD, attribute, Some new_values)] else [])
        else if old_values \<noteq> [] then [(MOD_DELETE, attribute, None)] else [],
        left))"

fun modify_attributes ::
    "string list \<Rightarrow> string list \<Rightarrow> ldap_entry \<Rightarrow> ldap_entry \<Rightarrow> (string, string) dict \<Rightarrow>
     modlist \<times> (string, string) dict" where
  "modify_attributes ignored case_ignored old [] remaining = ([], remaining)"
| "modify_attributes ignored case_ignored old (x # xs) remaining =
     (let (ms, left) = modify_attribute ignored case_ignored old x remaining;
          (ns, rest) = modify_attributes ignored case_ignored old xs left
      in (ms @ ns, rest))"

definition modifyModlist ::
    "ldap_entry \<Rightarrow> ldap_entry \<Rightarrow> string list \<Rightarrow> bool \<Rightarrow> string list \<Rightarrow> modlist" where
  "modifyModlist old new ignore_attr_types ignore_oldexistent case_ignore_attr_types =
     (let ignored = map lower ignore_attr_types;
          case_ignored = map lower case_ignore_attr_types;
          (ms, remaining) = modify_attributes ignored case_ignored old new (remaining_of old)
      in ms @ (if ignore_oldexistent then []
               else concat (map (\<lambda>(lowered, attribute).
                 if lowered \<in> set ignored then [] else [(MOD_DELETE, attribute, None)]) remaining)))"

section \<open>What a list of changes does\<close>

text \<open>The values of every attribute type, without regard to the spelling of the type.\<close>

definition values_of :: "ldap_entry \<Rightarrow> string \<Rightarrow> bytes set" where
  "values_of ent l = (\<Union>(a, vs) \<in> set ent. if lower a = l then set (mod_values vs) else {})"

fun apply_change :: "mod_type \<times> string \<times> bytes list option \<Rightarrow> (string \<Rightarrow> bytes set) \<Rightarrow> string \<Rightarrow> bytes set" where
  "apply_change (MOD_ADD, a, Some vs) m = m(lower a := m (lower a) \<union> set vs)"
| "apply_change (MOD_ADD, a, None) m = m"
| "apply_change (MOD_DELETE, a, Some vs) m = m(lower a := m (lower a) - set vs)"
| "apply_change (MOD_DELETE, a, None) m = m(lower a := {})"

definition apply_changes :: "modlist \<Rightarrow> (string \<Rightarrow> bytes set) \<Rightarrow> string \<Rightarrow> bytes set" where
  "apply_changes ms m = fold apply_change ms m"

definition spelled_once :: "ldap_entry \<Rightarrow> bool" where
  "spelled_once ent \<longleftrightarrow> distinct (map (lower \<circ> fst) ent)"

section \<open>Lemmas: the list leads from the old entry to the new one\<close>

text \<open>Agreement of the values of a type, which for some types is without regard to case.\<close>

definition agrees :: "string list \<Rightarrow> string \<Rightarrow> bytes set \<Rightarrow> bytes set \<Rightarrow> bool" where
  "agrees case_ignored l x y \<longleftrightarrow> (if l \<in> set case_ignored then blower ` x = blower ` y else x = y)"

lemma agrees_refl [simp]: "agrees ci l x x"
  by (simp add: agrees_def)

lemma apply_changes_append: "apply_changes (ms @ ns) m = apply_changes ns (apply_changes ms m)"
  by (simp add: apply_changes_def)

lemma apply_changes_simps [simp]:
  "apply_changes [] m = m" "apply_changes (c # cs) m = apply_changes cs (apply_change c m)"
  by (simp_all add: apply_changes_def)

lemma differs_agrees: "\<not> differs xs ys (l \<in> set ci) \<Longrightarrow> agrees ci l (set xs) (set ys)"
  by (auto simp: differs_def agrees_def split: if_splits)

lemma values_of_out: "l \<notin> (lower \<circ> fst) ` set ent \<Longrightarrow> values_of ent l = {}"
  by (rule equals0I) (auto simp: values_of_def image_iff split: if_splits)

lemma values_of_in: "spelled_once ent \<Longrightarrow> (a, vs) \<in> set ent \<Longrightarrow> values_of ent (lower a) = set (mod_values vs)"
proof (induction ent)
  case (Cons x ent)
  have other: "values_of ent (lower a) = {}" if "lower a \<notin> (lower \<circ> fst) ` set ent"
    using that by (rule values_of_out)
  show ?case
  proof (cases "x = (a, vs)")
    case True
    have "lower a \<notin> (lower \<circ> fst) ` set ent" using Cons.prems(1) True by (auto simp: spelled_once_def)
    then show ?thesis using other True by (simp add: values_of_def)
  next
    case False
    then have a: "(a, vs) \<in> set ent" using Cons.prems(2) by simp
    then have "lower (fst x) \<noteq> lower a" using Cons.prems(1) by (force simp: spelled_once_def image_iff)
    then have "values_of (x # ent) (lower a) = values_of ent (lower a)"
      by (auto simp: values_of_def split: if_splits prod.splits)
    moreover have "spelled_once ent" using Cons.prems(1) by (simp add: spelled_once_def)
    ultimately show ?thesis using Cons.IH a by simp
  qed
qed simp

text \<open>What is left of the old entry: each type with its one spelling.\<close>

definition left_over :: "ldap_entry \<Rightarrow> (string, string) dict \<Rightarrow> bool" where
  "left_over old r \<longleftrightarrow> (\<forall>(l, a) \<in> set r. lower a = l \<and> (\<exists>vs. map_of old a = Some vs \<and> values_of old l = set (mod_values vs)))"

lemma remaining_of_all:
  assumes "spelled_once old"
  shows "remaining_of old = map (\<lambda>(a, vs). (lower a, a)) old"
proof -
  have "distinct (map fst d @ map (lower \<circ> fst) xs) \<Longrightarrow>
      foldl (\<lambda>d (attribute, vs). dict_set (lower attribute) attribute d) d xs = d @ map (\<lambda>(a, vs). (lower a, a)) xs"
    for d and xs :: ldap_entry
  proof (induction xs arbitrary: d)
    case (Cons x xs)
    have "dict_set (lower (fst x)) (fst x) d = d @ [(lower (fst x), fst x)]"
      using Cons.prems by (intro dict_set_new) (force simp: map_of_eq_None_iff)
    then show ?case using Cons.IH[of "d @ [(lower (fst x), fst x)]"] Cons.prems by (cases x) simp
  qed simp
  from this[of "[]" old] show ?thesis using assms by (simp add: remaining_of_def spelled_once_def)
qed

lemma remaining_left_over: "spelled_once old \<Longrightarrow> left_over old (remaining_of old)"
proof -
  assume once: "spelled_once old"
  have "map_of old a = Some vs" if "(a, vs) \<in> set old" for a vs
  proof (rule map_of_is_SomeI[OF _ that])
    show "distinct (map fst old)"
      using once distinct_map[of lower "map fst old"] by (simp add: spelled_once_def)
  qed
  then show ?thesis
    using values_of_in[OF once] by (force simp: remaining_of_all[OF once] left_over_def)
qed

lemma left_over_lookup:
  assumes "left_over old r" "map_of r l = Some a"
  shows "lower a = l" "\<exists>vs. map_of old a = Some vs \<and> values_of old l = set (mod_values vs)"
  using assms map_of_SomeD[OF assms(2)] by (auto simp: left_over_def)

lemma left_over_filter: "left_over old r \<Longrightarrow> left_over old (filter P r)"
  by (auto simp: left_over_def)

lemma map_of_other_keys: "l \<noteq> k \<Longrightarrow> map_of (filter (\<lambda>x. fst x \<noteq> k) r) l = map_of r l"
  by (induction r) auto

text \<open>One attribute of the new entry.\<close>

lemma modify_attribute_step:
  assumes "left_over old r" "lower a \<notin> set ign"
    and "m (lower a) = (if map_of r (lower a) = None then {} else values_of old (lower a))"
    and "modify_attribute ign ci old (a, vs) r = (ms, r')"
  shows "agrees ci (lower a) (apply_changes ms m (lower a)) (set (mod_values vs))"
    and "l \<noteq> lower a \<Longrightarrow> apply_changes ms m l = m l"
    and "r' = filter (\<lambda>x. fst x \<noteq> lower a) r"
proof -
  obtain ov left where o: "(case map_of r (lower a) of
        Some spelled \<Rightarrow> (case map_of old spelled of None \<Rightarrow> [] | Some ovs \<Rightarrow> mod_values ovs,
                             filter (\<lambda>x. fst x \<noteq> lower a) r)
      | None \<Rightarrow> ([], r)) = (ov, left)" by fastforce
  have left: "left = filter (\<lambda>x. fst x \<noteq> lower a) r"
  proof (cases "map_of r (lower a)")
    case None
    then have "filter (\<lambda>x. fst x \<noteq> lower a) r = r"
      by (intro filter_True) (auto simp: map_of_eq_None_iff image_iff)
    then show ?thesis using o None by simp
  qed (use o in simp)
  have m: "m (lower a) = set ov"
  proof (cases "map_of r (lower a)")
    case (Some sp)
    then show ?thesis using o assms(3) left_over_lookup(2)[OF assms(1) Some] by auto
  qed (use o assms(3) in auto)
  have ms: "ms = (if ov = [] \<and> mod_values vs \<noteq> [] then [(MOD_ADD, a, Some (mod_values vs))]
        else if ov \<noteq> [] \<and> mod_values vs \<noteq> [] then
          (if differs ov (mod_values vs) (lower a \<in> set ci) then
             [(MOD_DELETE, a, None), (MOD_ADD, a, Some (mod_values vs))] else [])
        else if ov \<noteq> [] then [(MOD_DELETE, a, None)] else [])" and r': "r' = left"
    using assms(2,4) unfolding modify_attribute_def by (simp_all add: Let_def o split: if_splits)
  show "agrees ci (lower a) (apply_changes ms m (lower a)) (set (mod_values vs))"
    using differs_agrees[of ov "mod_values vs" "lower a" ci] by (simp add: ms m)
  show "l \<noteq> lower a \<Longrightarrow> apply_changes ms m l = m l" by (simp add: ms)
  show "r' = filter (\<lambda>x. fst x \<noteq> lower a) r" by (simp add: r' left)
qed

text \<open>The types that the new entry accounts for.\<close>

definition accounted :: "string list \<Rightarrow> ldap_entry \<Rightarrow> string set" where
  "accounted ign ent = (lower \<circ> fst) ` set ent - set ign"

lemma modify_attributes_all:
  assumes "left_over old r" "spelled_once xs"
    and "\<And>l. l \<in> accounted ign xs \<Longrightarrow> m l = (if map_of r l = None then {} else values_of old l)"
    and "modify_attributes ign ci old xs r = (ms, rest)"
  shows "(\<forall>l. l \<notin> accounted ign xs \<longrightarrow> apply_changes ms m l = m l) \<and>
    (\<forall>l \<in> accounted ign xs. agrees ci l (apply_changes ms m l) (values_of xs l)) \<and>
    rest = filter (\<lambda>x. fst x \<notin> accounted ign xs) r"
  using assms
proof (induction xs arbitrary: r m ms rest)
  case (Cons x xs)
  obtain a vs where x: "x = (a, vs)" by (cases x)
  obtain ms1 r1 where one: "modify_attribute ign ci old (a, vs) r = (ms1, r1)"
    by (cases "modify_attribute ign ci old (a, vs) r")
  obtain ms2 where two: "modify_attributes ign ci old xs r1 = (ms2, rest)" "ms = ms1 @ ms2"
    using Cons.prems(4) one by (auto simp: x split: prod.splits)
  have once: "spelled_once xs" "lower a \<notin> (lower \<circ> fst) ` set xs"
    using Cons.prems(2) by (auto simp: spelled_once_def x)
  have vals: "values_of (x # xs) l = (if l = lower a then set (mod_values vs) else values_of xs l)" for l
    using values_of_out[OF once(2)] by (auto simp: values_of_def x split: if_splits)
  show ?case
  proof (cases "lower a \<in> set ign")
    case True
    then have acc: "accounted ign (x # xs) = accounted ign xs" by (auto simp: accounted_def x)
    have "lower a \<notin> accounted ign xs" using True by (simp add: accounted_def)
    have "ms1 = []" "r1 = r" using True one by (simp_all add: modify_attribute_def)
    then show ?thesis
      using Cons.IH[OF Cons.prems(1) once(1), of m ms2 rest] Cons.prems(3) two
        \<open>lower a \<notin> accounted ign xs\<close> vals unfolding acc by auto
  next
    case False
    then have acc: "accounted ign (x # xs) = insert (lower a) (accounted ign xs)" by (auto simp: accounted_def x)
    have new: "lower a \<notin> accounted ign xs" using once(2) by (simp add: accounted_def)
    have ma: "m (lower a) = (if map_of r (lower a) = None then {} else values_of old (lower a))"
      using Cons.prems(3)[of "lower a"] by (simp add: acc)
    note st = modify_attribute_step[where m = m, OF Cons.prems(1) False ma one]
    have st1: "agrees ci (lower a) (apply_changes ms1 m (lower a)) (set (mod_values vs))"
      "\<And>l. l \<noteq> lower a \<Longrightarrow> apply_changes ms1 m l = m l" "r1 = filter (\<lambda>x. fst x \<noteq> lower a) r"
      using st by blast+
    have m1: "apply_changes ms1 m l = (if map_of r1 l = None then {} else values_of old l)"
      if "l \<in> accounted ign xs" for l
    proof -
      have "l \<noteq> lower a" using that new by blast
      then show ?thesis
        using st1(2)[of l] Cons.prems(3)[of l] that by (simp add: st1(3) map_of_other_keys acc)
    qed
    note IH = Cons.IH[OF left_over_filter[OF Cons.prems(1), of "\<lambda>x. fst x \<noteq> lower a", folded st1(3)] once(1) m1 two(1)]
    show ?thesis
    proof (intro conjI allI ballI impI)
      fix l assume "l \<notin> accounted ign (x # xs)"
      then show "apply_changes ms m l = m l" using IH st1(2) by (simp add: two(2) apply_changes_append acc)
    next
      fix l assume l: "l \<in> accounted ign (x # xs)"
      show "agrees ci l (apply_changes ms m l) (values_of (x # xs) l)"
      proof (cases "l = lower a")
        case True
        then show ?thesis using IH st1(1) new by (simp add: two(2) apply_changes_append vals)
      next
        case False
        then show ?thesis using IH l acc by (simp add: two(2) apply_changes_append vals)
      qed
    next
      show "rest = filter (\<lambda>y. fst y \<notin> accounted ign (x # xs)) r"
        using IH by (simp add: st1(3) acc conj_commute)
    qed
  qed
qed (simp add: accounted_def)

lemma apply_deletions:
  "\<forall>(l, a) \<in> set r. lower a = l \<Longrightarrow>
   apply_changes (concat (map (\<lambda>(l, a). if l \<in> S then [] else [(MOD_DELETE, a, None)]) r)) m l =
   (if l \<in> fst ` set r - S then {} else m l)"
  by (induction r arbitrary: m) (auto simp: apply_changes_append split: prod.splits)

text \<open>The whole list: what the new entry names becomes its values, the rest stays or goes.\<close>

lemma modifyModlist_changes:
  assumes once: "spelled_once old" "spelled_once new"
    and after: "after = apply_changes (modifyModlist old new ign keep ci) (values_of old) l"
  shows "if l \<in> lower ` set ign \<or> keep \<and> l \<notin> (lower \<circ> fst) ` set new then after = values_of old l
    else agrees (map lower ci) l after (values_of new l)"
proof -
  let ?ign = "map lower ign" and ?ci = "map lower ci"
  obtain ms rest where mr: "modify_attributes ?ign ?ci old new (remaining_of old) = (ms, rest)"
    by (cases "modify_attributes ?ign ?ci old new (remaining_of old)")
  have none: "values_of old l' = {}" if "map_of (remaining_of old) l' = None" for l'
    using that by (intro values_of_out) (force simp: remaining_of_all[OF once(1)] map_of_eq_None_iff image_iff)
  have all: "(\<forall>l. l \<notin> accounted ?ign new \<longrightarrow> apply_changes ms (values_of old) l = values_of old l) \<and>
    (\<forall>l \<in> accounted ?ign new. agrees ?ci l (apply_changes ms (values_of old) l) (values_of new l)) \<and>
    rest = filter (\<lambda>x. fst x \<notin> accounted ?ign new) (remaining_of old)"
    by (rule modify_attributes_all[OF remaining_left_over[OF once(1)] once(2) _ mr]) (use none in auto)
  have keys: "\<forall>(l, a) \<in> set rest. lower a = l" 
    using all by (auto simp: remaining_of_all[OF once(1)])
  have in_rest: "l \<in> fst ` set rest \<longleftrightarrow> l \<notin> accounted ?ign new \<and> map_of (remaining_of old) l \<noteq> None"
    using all by (auto simp: map_of_eq_None_iff)
  have res: "after = (if \<not> keep \<and> l \<in> fst ` set rest - lower ` set ign then {} else apply_changes ms (values_of old) l)"
    unfolding after modifyModlist_def Let_def mr
    using apply_deletions[OF keys, of "set ?ign"] by (simp add: apply_changes_append)
  show ?thesis
  proof (cases "l \<in> accounted ?ign new")
    case True
    then have "l \<in> (lower \<circ> fst) ` set new" "l \<notin> lower ` set ign" by (simp_all add: accounted_def)
    then show ?thesis
      using all True in_rest res by simp
  next
    case False
    then have ms: "apply_changes ms (values_of old) l = values_of old l" using all by blast
    show ?thesis
    proof (cases "l \<in> lower ` set ign")
      case True
      then show ?thesis using res ms by simp
    next
      case out: False
      then have "l \<notin> (lower \<circ> fst) ` set new" using False by (simp add: accounted_def)
      then have "values_of new l = {}" by (rule values_of_out)
      then show ?thesis using res ms out in_rest False none[of l] \<open>l \<notin> (lower \<circ> fst) ` set new\<close>
        by (cases "map_of (remaining_of old) l = None") simp_all
    qed
  qed
qed

end
