(* ===== verification/RemoteEntry.thy ===== *)
theory RemoteEntry
  imports InMemory LdapClient
begin

text \<open>
  \<open>ldapsyntax.py\<close>: the entry that a program holds of a directory behind a client. Edits change the
  attributes that are cached and are noted in a journal; a commit sends the journal as one modify
  request. The set that an attribute access gives is the one the entry holds at that time.
\<close>

section \<open>The state of a remote entry\<close>

datatype object_state = Invalid_state | Ready_state | Deleted_state

record remote =
  cached :: entry
  complete :: bool
  journal_of :: "modification list"
  remoteData :: entry
  rstate :: object_state

type_synonym 'a edit = "(remote, exn, 'a) prog"

text \<open>The constructor, given a name and attributes.\<close>

definition remote_init :: "dn \<Rightarrow> (pytext \<times> pytext list) list \<Rightarrow> bool \<Rightarrow> remote" where
  "remote_init d attributes c =
     \<lparr>cached = entry_init d attributes, complete = c, journal_of = [],
      remoteData = entry_init d attributes, rstate = Ready_state\<rparr>"

definition checkState :: "unit edit" where
  "checkState =
     bindP (getP rstate) (\<lambda>st.
       if st = Ready_state then returnP ()
       else if st = Deleted_state then raiseP ObjectDeletedError else raiseP ObjectInBadStateError)"

definition journal :: "modification \<Rightarrow> unit edit" where
  "journal m = updateP (\<lambda>r. r\<lparr>journal_of := journal_of r @ [m]\<rparr>)"

text \<open>\<open>self.dn.split()[0].split()\<close>.\<close>

definition own_rdn :: "rdn edit" where
  "own_rdn = bindP (getP (\<lambda>r. edn (cached r))) (\<lambda>d. case d of [] \<Rightarrow> raiseP IndexError | r # up \<Rightarrow> returnP r)"

definition canRemove :: "pytext \<Rightarrow> pytext \<Rightarrow> unit edit" where
  "canRemove key v =
     bindP checkState (\<lambda>_. bindP own_rdn (\<lambda>avas.
       unlessP (\<not> list_ex (\<lambda>a. Str (attributeType a) = key \<and> Str (avalue a) = v) avas)
         (CannotRemoveRDNError key (Some v))))"

definition canRemoveAll :: "pytext \<Rightarrow> unit edit" where
  "canRemoveAll key =
     bindP checkState (\<lambda>_. bindP own_rdn (\<lambda>avas.
       unlessP (\<not> list_ex (\<lambda>a. Str (attributeType a) = key) avas) (CannotRemoveRDNError key None)))"

section \<open>Reading\<close>

definition remote_getitem :: "pytext \<Rightarrow> attrset edit" where
  "remote_getitem key = bindP checkState (\<lambda>_. bindP (getP cached) (\<lambda>e. liftP (entry_getitem e key)))"

definition remote_get :: "pytext \<Rightarrow> pytext list option \<Rightarrow> pytext list option edit" where
  "remote_get key dflt = bindP checkState (\<lambda>_. bindP (getP cached) (\<lambda>e. liftP (entry_get e key dflt)))"

definition remote_has_key :: "pytext \<Rightarrow> bool edit" where
  "remote_has_key key = bindP checkState (\<lambda>_. bindP (getP cached) (\<lambda>e. liftP (entry_has_key e key)))"

definition remote_keys :: "pytext list edit" where
  "remote_keys = bindP checkState (\<lambda>_. getP (\<lambda>r. entry_keys (cached r)))"

definition remote_items :: "(pytext \<times> pytext list) list edit" where
  "remote_items = bindP checkState (\<lambda>_. bindP (getP cached) (\<lambda>e. liftP (entry_items e)))"

section \<open>Editing\<close>

text \<open>The set of an attribute is changed in place.\<close>

definition change_set :: "pytext \<Rightarrow> (attrset \<Rightarrow> exn + attrset) \<Rightarrow> unit edit" where
  "change_set key f =
     bindP (getP cached) (\<lambda>e. bindP (liftP (entry_change e key f)) (\<lambda>e'. updateP (\<lambda>r. r\<lparr>cached := e'\<rparr>)))"

text \<open>\<open>self[key].add(value)\<close> and so on: the methods of \<open>JournaledLDAPAttributeSet\<close>.\<close>

definition set_add :: "pytext \<Rightarrow> pytext \<Rightarrow> unit edit" where
  "set_add key v =
     bindP (remote_getitem key) (\<lambda>a.
     bindP (journal (Add (mkAttributeSet (akey a) [v]))) (\<lambda>_.
       change_set key (\<lambda>old. attrset_add old v)))"

fun journal_all :: "(pytext list \<Rightarrow> modification) \<Rightarrow> pytext list list \<Rightarrow> unit edit" where
  "journal_all f [] = returnP ()"
| "journal_all f (vs # vss) = bindP (journal (f vs)) (\<lambda>_. journal_all f vss)"

definition set_update :: "pytext \<Rightarrow> pytext list list \<Rightarrow> unit edit" where
  "set_update key sequences =
     bindP (remote_getitem key) (\<lambda>a.
     bindP (journal_all (\<lambda>vs. Add (mkAttributeSet (akey a) vs)) sequences) (\<lambda>_.
       change_set key (\<lambda>old. Inr (foldl attrset_update old sequences))))"

definition set_remove :: "pytext \<Rightarrow> pytext \<Rightarrow> unit edit" where
  "set_remove key v =
     bindP (remote_getitem key) (\<lambda>a.
     bindP (unlessP (v \<in> set (avals a)) LookupError) (\<lambda>_.
     bindP (canRemove (akey a) v) (\<lambda>_.
     bindP (journal (Delete (mkAttributeSet (akey a) [v]))) (\<lambda>_.
       change_set key (\<lambda>old. attrset_remove old v)))))"

definition set_clear :: "pytext \<Rightarrow> unit edit" where
  "set_clear key =
     bindP (remote_getitem key) (\<lambda>a.
     bindP (canRemoveAll (akey a)) (\<lambda>_.
     bindP (change_set key (\<lambda>old. Inr (old\<lparr>avals := []\<rparr>))) (\<lambda>_.
       journal (Delete (mkAttributeSet (akey a) [])))))"

definition remote_setitem :: "pytext \<Rightarrow> pytext list \<Rightarrow> unit edit" where
  "remote_setitem key vs =
     bindP checkState (\<lambda>_. bindP (canRemoveAll key) (\<lambda>_.
     bindP (updateP (\<lambda>r. r\<lparr>cached := entry_setitem (cached r) key (avals (mkAttributeSet key vs))\<rparr>)) (\<lambda>_.
       journal (Replace (mkAttributeSet key vs)))))"

definition remote_delitem :: "pytext \<Rightarrow> unit edit" where
  "remote_delitem key =
     bindP checkState (\<lambda>_. bindP (canRemoveAll key) (\<lambda>_.
     bindP (getP cached) (\<lambda>e.
     bindP (liftP (entry_delitem e key)) (\<lambda>e'.
     bindP (updateP (\<lambda>r. r\<lparr>cached := e'\<rparr>)) (\<lambda>_.
       journal (Delete (mkAttributeSet key [])))))))"

text \<open>The attributes of a sequence of items, built one by one.\<close>

definition set_items :: "(pytext \<times> pytext list) list \<Rightarrow> attrset insensitive \<Rightarrow> attrset insensitive" where
  "set_items items m = foldl (\<lambda>m (k, vs). id_setitem m k (mkAttributeSet k vs)) m items"

definition undo :: "unit edit" where
  "undo =
     bindP checkState (\<lambda>_.
     bindP (updateP (\<lambda>r. r\<lparr>cached := (cached r)\<lparr>eattrs := id_empty\<rparr>\<rparr>)) (\<lambda>_.
     bindP (getP remoteData) (\<lambda>e.
     bindP (liftP (entry_items e)) (\<lambda>items.
       updateP (\<lambda>r. r\<lparr>cached := (cached r)\<lparr>eattrs := set_items items (eattrs (cached r))\<rparr>,
                      journal_of := []\<rparr>)))))"

section \<open>Requests and their responses\<close>

text \<open>What the object asks of its client: an operation is sent, and its response comes back.\<close>

type_synonym 's sender = "ber \<Rightarrow> ('s, exn, ber) prog"

text \<open>A step of the object itself, and a step of what is behind the client.\<close>

definition hereP :: "('r, exn, 'a) prog \<Rightarrow> ('r \<times> 's, exn, 'a) prog" where
  "hereP m = (\<lambda>(r, s). case m r of (x, r') \<Rightarrow> (x, (r', s)))"

definition thereP :: "('s, exn, 'a) prog \<Rightarrow> ('r \<times> 's, exn, 'a) prog" where
  "thereP m = (\<lambda>(r, s). case m s of (x, s') \<Rightarrow> (x, (r, s')))"

text \<open>The tests that every response goes through, given its class.\<close>

definition no_referral :: "ldap_result \<Rightarrow> exn + unit" where
  "no_referral r = assertE AssertionError (referral r = None)"

definition assertMatchedDN :: "pytext \<Rightarrow> exn + unit" where
  "assertMatchedDN d = assertE AssertionError (d = Str [] \<or> d = Byt [])"

definition succeeded :: "ldap_result \<Rightarrow> exn + unit" where
  "succeeded r =
     bindE (no_referral r) (\<lambda>_.
       if resultCode r \<noteq> result_code Success then raise_result (resultCode r) (errorMessage r) else Inr ())"

fun result_as :: "result_cls \<Rightarrow> ber \<Rightarrow> exn + ldap_result" where
  "result_as k (OResult k' t r) = bindE (assertE AssertionError (k' = k)) (\<lambda>_. Inr r)"
| "result_as k _ = Inl AssertionError"

definition bind_done :: "ber \<Rightarrow> exn + unit" where
  "bind_done msg = bindE (result_as LDAPBindResponse msg) succeeded"

definition remote_bind :: "'s sender \<Rightarrow> pytext \<Rightarrow> (remote \<times> 's, exn, unit) prog" where
  "remote_bind send password =
     bindP (hereP (getP cached)) (\<lambda>e.
     bindP (thereP (send (OBindRequest (class_tag LDAPBindRequest) 3 (Str (dn_text (edn e))) (Simple password) False))) (\<lambda>msg.
       liftP (bind_done msg)))"

section \<open>Committing\<close>

definition commit_request :: "remote \<Rightarrow> ber" where
  "commit_request r =
     OModifyRequest (class_tag LDAPModifyRequest) (Some (Str (dn_text (edn (cached r)))))
       (Some (map mod_asLDAP (journal_of r)))"

definition commit_success :: "ber \<Rightarrow> unit edit" where
  "commit_success msg =
     bindP (liftP (result_as LDAPModifyResponse msg)) (\<lambda>res.
     bindP (liftP (succeeded res)) (\<lambda>_.
     bindP (liftP (assertMatchedDN (matchedDN res))) (\<lambda>_.
     bindP remote_items (\<lambda>items.
       updateP (\<lambda>r. r\<lparr>remoteData := entry_init (edn (cached r)) items, journal_of := []\<rparr>)))))"

definition commit :: "'s sender \<Rightarrow> (remote \<times> 's, exn, unit) prog" where
  "commit send =
     bindP (hereP checkState) (\<lambda>_.
     bindP (hereP (getP journal_of)) (\<lambda>ms.
       if ms = [] then returnP ()
       else
         bindP (hereP (getP commit_request)) (\<lambda>op.
         bindP (thereP (send op)) (\<lambda>msg. hereP (commit_success msg)))))"

section \<open>Moving, deleting and adding\<close>

definition move_request :: "dn \<Rightarrow> dn \<Rightarrow> exn + ber" where
  "move_request old target =
     (case target of
        [] \<Rightarrow> Inl IndexError
      | rdn # superior \<Rightarrow>
          Inr (OModifyDNRequest (class_tag LDAPModifyDNRequest) (Str (dn_text old)) (Str (rdn_text rdn)) 1
                 (Some (Str (dn_text superior)))))"

definition move_done :: "ber \<Rightarrow> dn \<Rightarrow> unit edit" where
  "move_done msg newDN =
     bindP (liftP (result_as LDAPModifyDNResponse msg)) (\<lambda>res.
     bindP (liftP (succeeded res)) (\<lambda>_.
     bindP (liftP (assertMatchedDN (matchedDN res))) (\<lambda>_.
       updateP (\<lambda>r. r\<lparr>cached := (cached r)\<lparr>edn := newDN\<rparr>\<rparr>))))"

definition remote_move :: "'s sender \<Rightarrow> pytext \<Rightarrow> (remote \<times> 's, exn, unit) prog" where
  "remote_move send newDN =
     bindP (hereP checkState) (\<lambda>_.
     bindP (liftP (dn_of newDN)) (\<lambda>target.
     bindP (hereP (getP cached)) (\<lambda>e.
     bindP (liftP (move_request (edn e) target)) (\<lambda>op.
     bindP (thereP (send op)) (\<lambda>msg. hereP (move_done msg target))))))"

fun any_result :: "ber \<Rightarrow> exn + ldap_result" where
  "any_result (OResult k t r) = Inr r"
| "any_result (OExtendedResponse k t r n v) = Inr r"
| "any_result _ = Inl AssertionError"

definition delete_done :: "ber \<Rightarrow> exn + unit" where
  "delete_done msg =
     bindE (any_result msg) (\<lambda>res.
     case msg of
       OResult k t r \<Rightarrow>
         if k = LDAPDelResponse then bindE (succeeded res) (\<lambda>_. assertMatchedDN (matchedDN res))
         else raise_result (resultCode res) (errorMessage res)
     | _ \<Rightarrow> raise_result (resultCode res) (errorMessage res))"

definition remote_delete :: "'s sender \<Rightarrow> (remote \<times> 's, exn, unit) prog" where
  "remote_delete send =
     bindP (hereP checkState) (\<lambda>_.
     bindP (hereP (getP cached)) (\<lambda>e.
     bindP (hereP (updateP (\<lambda>r. r\<lparr>rstate := Deleted_state\<rparr>))) (\<lambda>_.
     bindP (thereP (send (OOctetString LDAPDelRequest (class_tag (COctetString LDAPDelRequest)) (Str (dn_text (edn e)))))) (\<lambda>msg.
       liftP (delete_done msg)))))"

text \<open>The attributes in the order they are sent: \<open>objectClass\<close> first, then by key.\<close>

definition ordered_attributes :: "(pytext \<times> pytext list) list \<Rightarrow> exn + (pytext \<times> pytext list) list" where
  "ordered_attributes items =
     (let rest = filter (\<lambda>(key, vs). key \<noteq> Str ''objectClass'') items in
      if one_kind (map fst rest) \<or> length rest < 2 then
        Inr (filter (\<lambda>(key, vs). key = Str ''objectClass'' \<and> vs \<noteq> []) items @ sort_key fst rest)
      else Inl TypeError)"

definition add_attribute :: "pytext \<times> pytext list \<Rightarrow> ber list" where
  "add_attribute = (\<lambda>(key, vs).
     [OOctetString LDAPAttributeDescription (class_tag (COctetString LDAPAttributeDescription)) key,
      OSequence BERSet (class_tag (CSequence BERSet))
        (map (\<lambda>v. OOctetString LDAPAttributeValue (class_tag (COctetString LDAPAttributeValue)) (Byt (to_bytes v))) vs)])"

definition add_done :: "ber \<Rightarrow> dn \<Rightarrow> exn + remote" where
  "add_done msg d =
     bindE (result_as LDAPAddResponse msg) (\<lambda>res. bindE (succeeded res) (\<lambda>_.
     bindE (assertMatchedDN (matchedDN res)) (\<lambda>_. Inr (remote_init d [] False))))"

definition remote_addChild ::
    "'s sender \<Rightarrow> pytext \<Rightarrow> (pytext \<times> pytext list) list \<Rightarrow> (remote \<times> 's, exn, remote) prog" where
  "remote_addChild send rdn attributes =
     bindP (hereP checkState) (\<lambda>_.
     bindP (liftP (ordered_attributes attributes)) (\<lambda>ordered.
     bindP (liftP (bindE (to_unicode rdn) rdn_of_text)) (\<lambda>newRDN.
     bindP (hereP (getP cached)) (\<lambda>e.
     let d = newRDN # edn e in
     bindP (thereP (send (OAddRequest (class_tag LDAPAddRequest) (Some (Str (dn_text d)))
         (Some (map add_attribute ordered))))) (\<lambda>msg.
       liftP (add_done msg d))))))"

section \<open>Searching\<close>

text \<open>
  The answers to a search go to \<open>_cbSearchMsg\<close>, with the slot for the outcome and the callback for
  the entries found, which may change a state and raise.
\<close>

record 's search_state =
  sslot :: "(exn + control list option) option"
  found :: 's

type_synonym 's entry_callback = "remote \<Rightarrow> 's \<Rightarrow> exn option \<times> 's"

definition set_slot :: "exn + control list option \<Rightarrow> ('s search_state, exn, unit) prog" where
  "set_slot x =
     bindP (getP sslot) (\<lambda>old. bindP (unlessP (old = None) RuntimeError) (\<lambda>_.
       updateP (\<lambda>st. st\<lparr>sslot := Some x\<rparr>)))"

text \<open>The dictionary that the attributes of a response make.\<close>

definition attributes_of :: "(pytext \<times> pytext list) list \<Rightarrow> (pytext \<times> pytext list) list" where
  "attributes_of attributes =
     foldl (\<lambda>d (key, vs). dict_set (Byt (to_bytes key)) (map (\<lambda>x. Byt (to_bytes x)) vs) d) [] attributes"

definition cbSearchEntry ::
    "'s entry_callback \<Rightarrow> pytext \<Rightarrow> (pytext \<times> pytext list) list \<Rightarrow> bool \<Rightarrow> ('s search_state, exn, unit) prog" where
  "cbSearchEntry callback name attributes c =
     bindP (liftP (dn_of name)) (\<lambda>d.
       effectP (\<lambda>st. case callback (remote_init d (attributes_of attributes) c) (found st) of
         (e, x) \<Rightarrow> (e, st\<lparr>found := x\<rparr>)))"

definition search_done :: "ldap_result \<Rightarrow> control list option \<Rightarrow> ('s search_state, exn, bool) prog" where
  "search_done r controls =
     (let finish = bindP (liftP (assertMatchedDN (matchedDN r))) (\<lambda>_.
            bindP (set_slot (Inr controls)) (\<lambda>_. returnP True))
      in bindP (liftP (no_referral r)) (\<lambda>_.
         if resultCode r \<noteq> result_code Success then
           bindP (liftP (get_exception (resultCode r) (errorMessage r))) (\<lambda>e.
             if resultCode r = result_code LDAPSizeLimitExceeded then finish
             else bindP (set_slot (Inl (LDAPException (resultCode r) (Some (errorMessage r))))) (\<lambda>_. returnP True))
         else finish))"

fun cbSearchMsg :: "'s entry_callback \<Rightarrow> bool \<Rightarrow> bool \<Rightarrow> 's search_state callback" where
  "cbSearchMsg callback c sizeLimitIsNonFatal (WithControls msg controls) =
     (case msg of
        OResult k t r \<Rightarrow>
          if k = LDAPSearchResultDone then search_done r controls
          else raiseP (raiseE LDAPProtocolError None)
      | OSearchResultEntry t name attributes \<Rightarrow>
          bindP (cbSearchEntry callback name attributes c) (\<lambda>_. returnP False)
      | OSearchResultReference t uris \<Rightarrow> returnP False
      | _ \<Rightarrow> raiseP (raiseE LDAPProtocolError None))"
| "cbSearchMsg callback c sizeLimitIsNonFatal (Response msg) = raiseP TypeError"

definition LDAP_DEREF_neverDerefAliases :: int where "LDAP_DEREF_neverDerefAliases = 0"

text \<open>The request of a search.\<close>

definition search_request ::
    "(string \<Rightarrow> exn + ber) \<Rightarrow> string option \<Rightarrow> ber option \<Rightarrow> pytext list option \<Rightarrow> int option \<Rightarrow>
     int option \<Rightarrow> int \<Rightarrow> int \<Rightarrow> int \<Rightarrow> dn \<Rightarrow> exn + ber" where
  "search_request parseFilter filterText filterObject attributes sc deref size_limit time_limit types_only d =
     bindE (choose_filter parseFilter filterText filterObject) (\<lambda>f.
       Inr (OSearchRequest (class_tag LDAPSearchRequest) (Str (dn_text d))
         (case sc of None \<Rightarrow> LDAP_SCOPE_wholeSubtree | Some i \<Rightarrow> i)
         (case deref of None \<Rightarrow> LDAP_DEREF_neverDerefAliases | Some i \<Rightarrow> i)
         size_limit time_limit types_only f
         (case attributes of None \<Rightarrow> [Str ''1.1''] | Some as \<Rightarrow> as)))"

text \<open>
  The client, for an operation with several responses: the answers that come for it, in their order.
  They go to the handler until it takes one as the last; an exception of the handler, or the end of
  the answers, is the end of the connection.
\<close>

type_synonym 's multi_sender = "ber \<Rightarrow> control list option \<Rightarrow> ('s, exn, answer list) prog"

fun deliver_answers :: "'s callback \<Rightarrow> answer list \<Rightarrow> 's \<Rightarrow> exn option \<times> 's" where
  "deliver_answers h [] st = (Some ConnectionDone, st)"
| "deliver_answers h (a # as) st =
     (case h a st of
        (Inl e, st') \<Rightarrow> (Some ConnectionDone, st')
      | (Inr final, st') \<Rightarrow> if final then (None, st') else deliver_answers h as st')"

text \<open>What a search returns: the outcome of sending counts only as long as the slot has none.\<close>

fun search_result :: "exn option \<times> 's search_state \<Rightarrow> exn + 's \<times> control list option" where
  "search_result (sent_error, st) =
     (case sslot st of
        Some (Inl e) \<Rightarrow> Inl e
      | Some (Inr ctls) \<Rightarrow> Inr (found st, ctls)
      | None \<Rightarrow> (case sent_error of Some e \<Rightarrow> Inl e | None \<Rightarrow> Inl OutsideModel))"

definition append_entry :: "remote list entry_callback" where
  "append_entry o1 rs = (None, rs @ [o1])"

definition remote_search ::
    "(string \<Rightarrow> exn + ber) \<Rightarrow> 's multi_sender \<Rightarrow> string option \<Rightarrow> ber option \<Rightarrow> pytext list option \<Rightarrow> int option \<Rightarrow>
     int option \<Rightarrow> int \<Rightarrow> int \<Rightarrow> int \<Rightarrow> bool \<Rightarrow> control list option \<Rightarrow>
     'c entry_callback \<Rightarrow> 'c \<Rightarrow> (remote \<times> 's, exn, 'c \<times> control list option) prog" where
  "remote_search parseFilter send filterText filterObject attributes sc deref size_limit time_limit types_only
     sizeLimitIsNonFatal controls callback start =
     bindP (hereP checkState) (\<lambda>_.
     bindP (hereP (getP cached)) (\<lambda>e.
     bindP (liftP (search_request parseFilter filterText filterObject attributes sc deref size_limit time_limit
         types_only (edn e))) (\<lambda>op.
     bindP (thereP (send op controls)) (\<lambda>answers.
       liftP (search_result (deliver_answers (cbSearchMsg callback (attributes = Some []) sizeLimitIsNonFatal)
         answers \<lparr>sslot = None, found = start\<rparr>))))))"

section \<open>Fetching\<close>

text \<open>\<open>_cbFetch\<close>, given the entries found.\<close>

definition forget_remote :: "unit edit" where
  "forget_remote =
     effectP (\<lambda>r. case for_each (\<lambda>key e. or_raise e (entry_delitem e key)) (entry_keys (remoteData r)) (remoteData r) of
       (exc, e) \<Rightarrow> (exc, r\<lparr>remoteData := e\<rparr>))"

definition take_over :: "remote \<Rightarrow> pytext list \<Rightarrow> unit edit" where
  "take_over o1 keys =
     effectP (\<lambda>r. case for_each (\<lambda>k e. or_raise e (bindE (entry_get (cached o1) k None) (\<lambda>vs.
           case vs of None \<Rightarrow> Inr e | Some xs \<Rightarrow> Inr (entry_setitem e k xs)))) keys (remoteData r) of
       (exc, e) \<Rightarrow> (exc, r\<lparr>remoteData := e\<rparr>))"

definition cbFetch :: "remote list \<Rightarrow> pytext list \<Rightarrow> unit edit" where
  "cbFetch results overWrite =
     bindP (getP (\<lambda>r. dn_text (edn (cached r)))) (\<lambda>name.
     case results of
       [o1] \<Rightarrow>
         bindP (getP journal_of) (\<lambda>ms.
         bindP (unlessP (ms = []) AssertionError) (\<lambda>_.
         bindP (if overWrite = [] then
                  bindP forget_remote (\<lambda>_.
                  bindP (liftP (fst (remote_keys o1))) (\<lambda>keys.
                  bindP (updateP (\<lambda>r. r\<lparr>complete := True\<rparr>)) (\<lambda>_. returnP keys)))
                else returnP overWrite) (\<lambda>keys.
         bindP (take_over o1 keys) (\<lambda>_. undo))))
     | _ \<Rightarrow> raiseP (DNNotPresentError name))"

definition fetch ::
    "(string \<Rightarrow> exn + ber) \<Rightarrow> 's multi_sender \<Rightarrow> pytext list \<Rightarrow> (remote \<times> 's, exn, unit) prog" where
  "fetch parseFilter send attributes =
     bindP (hereP checkState) (\<lambda>_.
     bindP (hereP (getP journal_of)) (\<lambda>ms.
     bindP (unlessP (ms = []) ObjectDirtyError) (\<lambda>_.
     bindP (remote_search parseFilter send None None (Some attributes) (Some LDAP_SCOPE_baseObject) None 0 0 0
         False None append_entry []) (\<lambda>(results, ctls).
       hereP (cbFetch results attributes)))))"

text \<open>An operation of another object over the same connection.\<close>

definition withP :: "'r \<Rightarrow> ('r \<times> 's, exn, 'a) prog \<Rightarrow> ('q \<times> 's, exn, 'a \<times> 'r) prog" where
  "withP r m = (\<lambda>(q, s). case m (r, s) of
     (Inl e, (r', s')) \<Rightarrow> (Inl e, (q, s')) | (Inr a, (r', s')) \<Rightarrow> (Inr (a, r'), (q, s')))"

definition remote_lookup ::
    "(string \<Rightarrow> exn + ber) \<Rightarrow> 's multi_sender \<Rightarrow> pytext \<Rightarrow> (remote \<times> 's, exn, remote) prog" where
  "remote_lookup parseFilter send name =
     bindP (liftP (dn_of name)) (\<lambda>d.
     bindP (withP (remote_init d [] False) (fetch parseFilter send [Str ''1.1''])) (\<lambda>(u, e). returnP e))"

text \<open>The naming context: the first of the results that contains the name.\<close>

fun first_containing :: "dn \<Rightarrow> pytext list \<Rightarrow> exn + dn option" where
  "first_containing d [] = Inr None"
| "first_containing d (v # vs) =
     bindE (dn_of v) (\<lambda>c. if contains c d then Inr (Some c) else first_containing d vs)"

fun cbNamingContext :: "dn \<Rightarrow> remote list \<Rightarrow> exn + remote" where
  "cbNamingContext d [] = Inl (NoContainingNamingContext (dn_text d))"
| "cbNamingContext d (o1 # os) =
     bindE (fst (remote_get (Str ''namingContexts'') (Some []) o1)) (\<lambda>vs.
     bindE (first_containing d (case vs of None \<Rightarrow> [] | Some xs \<Rightarrow> xs)) (\<lambda>c.
       case c of Some d' \<Rightarrow> Inr (remote_init d' [] False) | None \<Rightarrow> cbNamingContext d os))"

definition namingContext ::
    "(string \<Rightarrow> exn + ber) \<Rightarrow> 's multi_sender \<Rightarrow> (remote \<times> 's, exn, remote) prog" where
  "namingContext parseFilter send =
     bindP (withP (remote_init [] [] False)
       (remote_search parseFilter send (Some ''(objectClass=*)'') None (Some [Str ''namingContexts''])
          (Some LDAP_SCOPE_baseObject) None 0 0 0 False None append_entry [])) (\<lambda>((results, ctls), root).
     bindP (hereP (getP (\<lambda>r. edn (cached r)))) (\<lambda>d. liftP (cbNamingContext d results)))"

section \<open>Setting a password\<close>

definition password_done :: "ber \<Rightarrow> exn + unit" where
  "password_done msg =
     (case msg of
        OExtendedResponse k t r n v \<Rightarrow> bindE (succeeded r) (\<lambda>_. assertMatchedDN (matchedDN r))
      | _ \<Rightarrow> Inl AssertionError)"

definition setPassword_ExtendedOperation :: "'s sender \<Rightarrow> bytes \<Rightarrow> (remote \<times> 's, exn, unit) prog" where
  "setPassword_ExtendedOperation send newPasswd =
     bindP (hereP checkState) (\<lambda>_.
     bindP (hereP (getP cached)) (\<lambda>e.
     bindP (liftP (mkPasswordModifyRequest None (Some (Str (dn_text (edn e)))) None (Some (Byt newPasswd)))) (\<lambda>op.
     bindP (thereP (send op)) (\<lambda>msg. liftP (password_done msg)))))"

text \<open>The two hashes come from the vendored library.\<close>

record hashes =
  nthash :: "bytes \<Rightarrow> pytext"
  lmhash :: "bytes \<Rightarrow> pytext"

definition setPassword_Samba :: "hashes \<Rightarrow> 's sender \<Rightarrow> bytes \<Rightarrow> string option \<Rightarrow> (remote \<times> 's, exn, unit) prog" where
  "setPassword_Samba h send newPasswd style =
     (let nt = nthash h newPasswd; lm = lmhash h newPasswd;
          st = (case style of None \<Rightarrow> ''sambaSamAccount'' | Some x \<Rightarrow> x)
      in bindP (hereP checkState) (\<lambda>_.
         bindP (if st = ''sambaSamAccount'' then
                  bindP (hereP (remote_setitem (Str ''sambaNTPassword'') [nt])) (\<lambda>_.
                    hereP (remote_setitem (Str ''sambaLMPassword'') [lm]))
                else if st = ''sambaAccount'' then
                  bindP (hereP (remote_setitem (Str ''ntPassword'') [nt])) (\<lambda>_.
                    hereP (remote_setitem (Str ''lmPassword'') [lm]))
                else raiseP RuntimeError) (\<lambda>_.
           commit send)))"

text \<open>\<open>to_bytes(s.upper())\<close>, as far as it is compared with text of ASCII letters.\<close>

fun upper_bytes :: "pytext \<Rightarrow> bytes" where
  "upper_bytes (Str s) = utf8_encode (map upper_char s)"
| "upper_bytes (Byt b) = bupper b"

definition samba_by_class :: "hashes \<Rightarrow> 's sender \<Rightarrow> bytes \<Rightarrow> (remote \<times> 's, exn, unit) prog" where
  "samba_by_class h send newPasswd =
     bindP (hereP (remote_get (Str ''objectClass'') (Some []))) (\<lambda>vs.
     let objectClasses = map upper_bytes (case vs of None \<Rightarrow> [] | Some xs \<Rightarrow> xs) in
       if lit ''SAMBAACCOUNT'' \<in> set objectClasses then
         setPassword_Samba h send newPasswd (Some ''sambaAccount'')
       else if lit ''SAMBASAMACCOUNT'' \<in> set objectClasses then
         setPassword_Samba h send newPasswd (Some ''sambaSamAccount'')
       else returnP ())"

text \<open>\<open>not self.complete and not self.has_key("objectClass")\<close>.\<close>

definition lacks_classes :: "bool edit" where
  "lacks_classes =
     bindP (getP complete) (\<lambda>c.
       if c then returnP False else bindP (remote_has_key (Str ''objectClass'')) (\<lambda>b. returnP (\<not> b)))"

text \<open>
  \<open>setPasswordMaybe_Samba\<close>, which calls itself after each fetch; None when it does not return.
\<close>

partial_function (option) setPasswordMaybe_Samba ::
    "(string \<Rightarrow> exn + ber) \<Rightarrow> 's multi_sender \<Rightarrow> hashes \<Rightarrow> 's sender \<Rightarrow> bytes \<Rightarrow> remote \<times> 's \<Rightarrow>
     ((exn + unit) \<times> remote \<times> 's) option" where
  "setPasswordMaybe_Samba parseFilter msend h send newPasswd x =
     (case hereP lacks_classes x of
        (Inl e, x1) \<Rightarrow> Some (Inl e, x1)
      | (Inr lacks, x1) \<Rightarrow>
          if lacks then
            (case fetch parseFilter msend [Str ''objectClass''] x1 of
               (Inl e, x2) \<Rightarrow> Some (Inl e, x2)
             | (Inr u, x2) \<Rightarrow> setPasswordMaybe_Samba parseFilter msend h send newPasswd x2)
          else Some (samba_by_class h send newPasswd x1))"

text \<open>The changers in turn; each name gets an entry, with the reason if it did not succeed.\<close>

type_synonym 'x changer = "'x \<Rightarrow> ((exn + unit) \<times> 'x) option"

fun trapped :: "exn \<Rightarrow> bool" where
  "trapped (LDAPException c m) \<longleftrightarrow> True"
| "trapped (DNNotPresentError d) \<longleftrightarrow> True"
| "trapped _ \<longleftrightarrow> False"

fun setPasswordAll ::
    "(string \<times> 'x changer) list \<Rightarrow> bool \<Rightarrow> 'x \<Rightarrow> ((exn + (string \<times> exn option) list) \<times> 'x) option" where
  "setPasswordAll [] ok x = Some (Inr [], x)"
| "setPasswordAll ((name, changer) # rest) ok x =
     (if \<not> ok then
        map_option (\<lambda>(res, x'). (map_sum id (\<lambda>l. (name, Some PasswordSetAborted) # l) res, x')) (setPasswordAll rest False x)
      else
        (case changer x of
           None \<Rightarrow> None
         | Some (Inl e, x1) \<Rightarrow>
             if trapped e then
               map_option (\<lambda>(res, x'). (map_sum id (\<lambda>l. (name, Some e) # l) res, x')) (setPasswordAll rest False x1)
             else Some (Inl e, x1)
         | Some (Inr u, x1) \<Rightarrow>
             map_option (\<lambda>(res, x'). (map_sum id (\<lambda>l. (name, None) # l) res, x')) (setPasswordAll rest True x1)))"

definition cbSetPassword :: "(string \<times> exn option) list \<Rightarrow> exn + unit" where
  "cbSetPassword results =
     (let lst = concat (map (\<lambda>(name, err). case err of None \<Rightarrow> [] | Some e \<Rightarrow> [(name, e)]) results) in
      if lst \<noteq> [] then Inl (PasswordSetAggregateError lst) else Inr ())"

text \<open>The changers by their priority.\<close>

definition remote_setPassword ::
    "(string \<Rightarrow> exn + ber) \<Rightarrow> 's multi_sender \<Rightarrow> hashes \<Rightarrow> 's sender \<Rightarrow> bytes \<Rightarrow> (remote \<times> 's) changer" where
  "remote_setPassword parseFilter msend h send newPasswd x =
     map_option (\<lambda>(res, x'). (bindE res cbSetPassword, x'))
       (setPasswordAll
          [(''ExtendedOperation'', \<lambda>x. Some (setPassword_ExtendedOperation send newPasswd x)),
           (''Samba'', setPasswordMaybe_Samba parseFilter msend h send newPasswd)] True x)"

end
