(* ===== verification/RemoteCommit.thy ===== *)
theory RemoteCommit
  imports RemoteEntry Session LdapSize
begin

text \<open>
  Edits of a remote entry and their commit: the journal always leads from the data last seen at the
  server to what is cached, and a commit makes the server agree with the cache. What the client relies
  on is the locale \<open>directory\<close>, which the model of the server meets.
\<close>

section \<open>Entries as maps from types to values\<close>

text \<open>Whether there is an attribute, and its values, by the folded key.\<close>

definition attr_state :: "entry \<Rightarrow> pytext \<Rightarrow> pytext set option" where
  "attr_state e f = map_option (\<lambda>item. set (avals (snd item))) (map_of (eattrs e) f)"

definition values_in :: "(pytext \<Rightarrow> pytext set option) \<Rightarrow> pytext \<Rightarrow> pytext set" where
  "values_in V f = (case V f of None \<Rightarrow> {} | Some S \<Rightarrow> S)"

lemma values_in_state [simp]: "values_in (attr_state e) = attr_values e"
  by (auto simp: values_in_def attr_state_def attr_values_def fun_eq_iff split: option.split)

lemma attr_state_set [simp]:
  "attr_state (e\<lparr>eattrs := dict_set f (k, a) (eattrs e)\<rparr>) = (attr_state e)(f := Some (set (avals a)))"
  by (auto simp: attr_state_def fun_eq_iff)

lemma attr_state_del [simp]:
  "attr_state (e\<lparr>eattrs := filter (\<lambda>kv. fst kv \<noteq> f) (eattrs e)\<rparr>) = (attr_state e)(f := None)"
  by (auto simp: attr_state_def fun_eq_iff map_of_filter_neq)

text \<open>What a modification makes of an attribute; None where it does not apply.\<close>

fun mod_next :: "modification \<Rightarrow> pytext set option \<Rightarrow> pytext set option option" where
  "mod_next (Add a) S = Some (Some ((case S of None \<Rightarrow> {} | Some V \<Rightarrow> V) \<union> set (avals a)))"
| "mod_next (Delete a) S =
     (case S of
        None \<Rightarrow> None
      | Some V \<Rightarrow> if avals a = [] then Some None
                  else if set (avals a) \<subseteq> V then Some (Some (V - set (avals a))) else None)"
| "mod_next (Replace a) S = Some (if avals a = [] then None else Some (set (avals a)))"

fun replay :: "modification list \<Rightarrow> (pytext \<Rightarrow> pytext set option) \<Rightarrow> (pytext \<Rightarrow> pytext set option) option" where
  "replay [] V = Some V"
| "replay (m # ms) V =
     (case mod_next m (V (mod_key m)) of None \<Rightarrow> None | Some x \<Rightarrow> replay ms (V(mod_key m := x)))"

lemma replay_append: "replay (ms @ ns) V = (case replay ms V of None \<Rightarrow> None | Some W \<Rightarrow> replay ns W)"
  by (induction ms V rule: replay.induct) (simp_all split: option.split del: fun_upd_apply)

lemma entry_change_state:
  assumes "uniform b e" "good_text b k" "map_of (eattrs e) (normalize_key k) = Some (sp, a)"
    and "f a = Inr a'" "good_set b a'"
  shows "\<exists>e'. entry_change e k f = Inr e' \<and> uniform b e' \<and> edn e' = edn e \<and>
    attr_state e' = (attr_state e)(normalize_key k := Some (set (avals a'))) \<and>
    map_of (eattrs e') = (map_of (eattrs e))(normalize_key k \<mapsto> (sp, a'))"
proof -
  let ?e = "e\<lparr>eattrs := dict_set (normalize_key k) (sp, a') (eattrs e)\<rparr>"
  have "entry_change e k f = Inr ?e"
    using assms find_spelling_uniform[OF assms(1,2)] by (simp add: entry_change_def id_contains_def)
  moreover have "uniform b ?e"
    using uniform_map_of[OF assms(1,3)] assms(1,5) by (auto intro!: uniform_set)
  ultimately show ?thesis by (intro exI[of _ ?e]) (simp add: fun_eq_iff)
qed

lemma delete_values_state:
  assumes "uniform b e" "good_text b k" "distinct vs" "\<forall>v \<in> set vs. good_text b v" "set vs \<subseteq> V"
    and "attr_state e (normalize_key k) = Some V"
  shows "\<exists>e'. for_each (\<lambda>v e. or_raise e (entry_change e k (\<lambda>old. attrset_remove old v))) vs e = (None, e') \<and>
    uniform b e' \<and> edn e' = edn e \<and> attr_state e' = (attr_state e)(normalize_key k := Some (V - set vs))"
  using assms
proof (induction vs arbitrary: e V)
  case Nil
  then show ?case by (auto simp: fun_eq_iff)
next
  case (Cons v vs)
  obtain sp a where a: "map_of (eattrs e) (normalize_key k) = Some (sp, a)" "V = set (avals a)"
    using Cons.prems(6) by (auto simp: attr_state_def)
  have "good_set b a" using uniform_map_of[OF Cons.prems(1) a(1)] by simp
  then obtain a' where a': "attrset_remove a v = Inr a'" "good_set b a'" "set (avals a') = V - {v}"
    using Cons.prems(4,5) a(2) by (auto elim: attrset_remove_good[of b a v])
  from entry_change_state[where f = "\<lambda>old. attrset_remove old v", OF Cons.prems(1,2) a(1) a'(1,2)]
  obtain e1 where e1: "entry_change e k (\<lambda>old. attrset_remove old v) = Inr e1" "uniform b e1" "edn e1 = edn e"
    "attr_state e1 = (attr_state e)(normalize_key k := Some (V - {v}))"
    using a'(3) by auto
  have rest: "distinct vs" "\<forall>v \<in> set vs. good_text b v" "set vs \<subseteq> V - {v}" using Cons.prems(3-5) by auto
  have "attr_state e1 (normalize_key k) = Some (V - {v})" using e1(4) by simp
  from Cons.IH[OF e1(2) Cons.prems(2) rest this] obtain e2 where
    "for_each (\<lambda>v e. or_raise e (entry_change e k (\<lambda>old. attrset_remove old v))) vs e1 = (None, e2)"
    "uniform b e2" "edn e2 = edn e1"
    "attr_state e2 = (attr_state e1)(normalize_key k := Some (V - {v} - set vs))" by blast
  moreover have "V - {v} - set vs = V - set (v # vs)" by auto
  ultimately show ?case using e1(1,3,4) by (simp del: fun_upd_apply)
qed

lemma mod_patch_state:
  assumes "uniform b e" "good_mod b m" "mod_next m (attr_state e (mod_key m)) = Some x"
  shows "\<exists>e'. mod_patch m e = (None, e') \<and> uniform b e' \<and> edn e' = edn e \<and>
    attr_state e' = (attr_state e)(mod_key m := x)"
proof (cases m)
  case (Add a)
  have k: "good_text b (akey a)" "good_set b a" using assms(2) Add by (simp_all add: good_mod_def)
  have x: "x = Some ((case attr_state e (normalize_key (akey a)) of None \<Rightarrow> {} | Some V \<Rightarrow> V) \<union> set (avals a))"
    using assms(3) Add by (simp add: mod_key_def)
  show ?thesis
  proof (cases "map_of (eattrs e) (normalize_key (akey a))")
    case None
    have "good_set b (mkAttributeSet (akey a) (avals a))" using k(2) by (simp add: good_set_def)
    then have "uniform b (entry_setitem e (akey a) (avals a))"
      unfolding entry_setitem_def id_setitem_def using assms(1) k(1) by (intro uniform_set) auto
    then show ?thesis
      using Add x None find_spelling_uniform[OF assms(1) k(1)]
      by (simp add: entry_has_key_def id_contains_def entry_setitem_def id_setitem_def mod_key_def)
        (simp add: attr_state_def)
  next
    case (Some item)
    obtain sp old where item: "item = (sp, old)" by (cases item)
    have "good_set b old" using uniform_map_of[OF assms(1)] Some item by simp
    then have "good_set b (attrset_update old (avals a))" using k(2) by (auto simp: good_set_def)
    from entry_change_state[where f = "\<lambda>old. Inr (attrset_update old (avals a))", OF assms(1) k(1) Some[unfolded item] refl this]
    show ?thesis
      using Add x Some item find_spelling_uniform[OF assms(1) k(1)]
      by (auto simp: entry_has_key_def id_contains_def mod_key_def attr_state_def[of e])
  qed
next
  case (Delete a)
  have k: "good_text b (akey a)" "good_set b a" using assms(2) Delete by (simp_all add: good_mod_def)
  obtain V where V: "attr_state e (mod_key m) = Some V" using assms(3) Delete by (auto split: option.splits)
  show ?thesis
  proof (cases "avals a = []")
    case True
    let ?d = "filter (\<lambda>kv. fst kv \<noteq> normalize_key (akey a)) (eattrs e)"
    have "uniform b (e\<lparr>eattrs := ?d\<rparr>)" using assms(1) by (auto simp: uniform_def)
    moreover have "map_of (eattrs e) (normalize_key (akey a)) \<noteq> None"
      using V Delete by (auto simp: attr_state_def mod_key_def)
    ultimately show ?thesis
      using True Delete assms(3) V
      by (auto simp: entry_delitem_def id_delitem_def dict_del_def mod_key_def)
  next
    case False
    have vs: "set (avals a) \<subseteq> V" "x = Some (V - set (avals a))"
      using assms(3) Delete V False by (auto split: if_splits)
    then show ?thesis
      using False Delete V k delete_values_state[OF assms(1) k(1) _ _ _ V[unfolded mod_key_def Delete, simplified], of "avals a"]
      by (auto simp: good_set_def attrset_ok_def mod_key_def)
  qed
next
  case (Replace a)
  have k: "good_text b (akey a)" "good_set b a" using assms(2) Replace by (simp_all add: good_mod_def)
  show ?thesis
  proof (cases "avals a = []")
    case False
    have "good_set b (mkAttributeSet (akey a) (avals a))" using k(2) by (simp add: good_set_def)
    then have "uniform b (entry_setitem e (akey a) (avals a))"
      unfolding entry_setitem_def id_setitem_def using assms(1) k(1) by (intro uniform_set) auto
    then show ?thesis
      using False Replace assms(3) by (simp add: entry_setitem_def id_setitem_def mod_key_def)
  next
    case True
    let ?d = "filter (\<lambda>kv. fst kv \<noteq> normalize_key (akey a)) (eattrs e)"
    have u: "uniform b (e\<lparr>eattrs := ?d\<rparr>)" using assms(1) by (auto simp: uniform_def)
    have same: "map_of (eattrs e) (normalize_key (akey a)) = None \<Longrightarrow>
      attr_state e = (attr_state e)(normalize_key (akey a) := None)" by (auto simp: attr_state_def fun_eq_iff)
    show ?thesis
    proof (cases "map_of (eattrs e) (normalize_key (akey a))")
      case None
      then show ?thesis using True Replace assms(1,3) same
        by (simp add: entry_delitem_def id_delitem_def dict_del_def mod_key_def)
    next
      case (Some item)
      then show ?thesis using True Replace assms(3) u
        by (auto simp: entry_delitem_def id_delitem_def dict_del_def mod_key_def)
    qed
  qed
qed

lemma replay_patch:
  assumes "uniform b e" "\<forall>m \<in> set ms. good_mod b m" "replay ms (attr_state e) = Some V"
  shows "\<exists>e'. for_each mod_patch ms e = (None, e') \<and> uniform b e' \<and> edn e' = edn e \<and> attr_state e' = V"
  using assms
proof (induction ms arbitrary: e)
  case (Cons m ms)
  obtain x where x: "mod_next m (attr_state e (mod_key m)) = Some x"
    "replay ms ((attr_state e)(mod_key m := x)) = Some V"
    using Cons.prems(3) by (auto split: option.splits simp del: fun_upd_apply)
  have "good_mod b m" using Cons.prems(2) by simp
  from mod_patch_state[OF Cons.prems(1) this x(1)] obtain e1 where
    e1: "mod_patch m e = (None, e1)" "uniform b e1" "edn e1 = edn e" "attr_state e1 = (attr_state e)(mod_key m := x)"
    by blast
  from Cons.IH[OF e1(2)] Cons.prems(2) x(2) e1 show ?case by (simp del: fun_upd_apply)
qed simp

section \<open>Entries and their items\<close>

text \<open>An attribute set knows its own type, up to case.\<close>

definition keyed :: "bool \<Rightarrow> entry \<Rightarrow> bool" where
  "keyed b e \<longleftrightarrow> (\<forall>f k a. map_of (eattrs e) f = Some (k, a) \<longrightarrow> normalize_key (akey a) = f \<and> good_text b (akey a))"

definition good_items :: "bool \<Rightarrow> (pytext \<times> pytext list) list \<Rightarrow> bool" where
  "good_items b items \<longleftrightarrow> distinct (map (normalize_key \<circ> fst) items) \<and>
     (\<forall>(k, vs) \<in> set items. good_text b k \<and> (\<forall>v \<in> set vs. good_text b v))"

definition built :: "(pytext \<times> pytext list) list \<Rightarrow> attrset insensitive" where
  "built items = map (\<lambda>(k, vs). (normalize_key k, k, mkAttributeSet k vs)) items"

lemma built_facts:
  assumes "good_items b items" "eattrs e = built items"
  shows "uniform b e" "keyed b e"
    "attr_values e f = (case map_of (map (\<lambda>(k, vs). (normalize_key k, vs)) items) f of None \<Rightarrow> {} | Some vs \<Rightarrow> set vs)"
proof -
  have "map fst (built items) = map (normalize_key \<circ> fst) items" by (induction items) (auto simp: built_def)
  then have "distinct (map fst (eattrs e))" using assms by (simp add: good_items_def)
  then show "uniform b e"
    using assms by (auto simp: uniform_def folded_def dict_ok_def good_items_def good_set_def built_def)
  show "keyed b e" using assms by (fastforce simp: keyed_def good_items_def built_def dest: map_of_SomeD)
  have "map_of (built items) f =
      map_option (\<lambda>(k, vs). (k, mkAttributeSet k vs)) (map_of (map (\<lambda>(k, vs). (normalize_key k, k, vs)) items) f)"
    "map_of (map (\<lambda>(k, vs). (normalize_key k, vs)) items) f =
      map_option snd (map_of (map (\<lambda>(k, vs). (normalize_key k, k, vs)) items) f)"
    by (induction items) (auto simp: built_def)
  then show "attr_values e f = (case map_of (map (\<lambda>(k, vs). (normalize_key k, vs)) items) f of None \<Rightarrow> {} | Some vs \<Rightarrow> set vs)"
    using assms(2) by (auto simp: attr_values_def split: option.split)
qed

lemma set_items_built:
  "distinct (map fst c @ map (normalize_key \<circ> fst) items) \<Longrightarrow> set_items items c = c @ built items"
proof (induction items arbitrary: c)
  case (Cons x items)
  obtain k vs where x: "x = (k, vs)" by (cases x)
  have "map_of c (normalize_key k) = None" using Cons.prems by (auto simp: x map_of_eq_None_iff)
  then have "id_setitem c k (mkAttributeSet k vs) = c @ built [x]"
    by (simp add: id_setitem_def dict_set_new built_def x)
  moreover have "set_items items (c @ built [x]) = (c @ built [x]) @ built items"
    using Cons.prems by (intro Cons.IH) (auto simp: built_def x)
  ultimately show ?case by (simp add: set_items_def x built_def)
qed (simp add: set_items_def built_def)

lemma collected_items:
  "distinct (map fst c @ map (normalize_key \<circ> fst) items) \<Longrightarrow>
   foldl collect_values c items = c @ map (\<lambda>(k, vs). (normalize_key k, k, vs)) items"
proof (induction items arbitrary: c)
  case (Cons x items)
  obtain k vs where x: "x = (k, vs)" by (cases x)
  have none: "map_of c (normalize_key k) = None" using Cons.prems by (auto simp: x map_of_eq_None_iff)
  have "map (\<lambda>(f, k', ws). if f = normalize_key k then (f, k', ws @ vs) else (f, k', ws)) c = c"
    using none by (intro map_idI) (auto simp: map_of_eq_None_iff image_iff)
  then have "collect_values c x = c @ [(normalize_key k, k, vs)]"
    using none by (simp add: collect_values_def x id_contains_def id_setitem_def dict_set_new)
  moreover have "foldl collect_values (c @ [(normalize_key k, k, vs)]) items =
      (c @ [(normalize_key k, k, vs)]) @ map (\<lambda>(k, vs). (normalize_key k, k, vs)) items"
    using Cons.prems by (intro Cons.IH) (auto simp: x)
  ultimately show ?case by (simp add: x)
qed simp

lemma entry_init_built:
  assumes "distinct (map (normalize_key \<circ> fst) items)"
  shows "entry_init d items = \<lparr>edn = d, eattrs = built items\<rparr>"
proof -
  have "id_items (foldl collect_values id_empty items) = items"
    using collected_items[of "[]" items] assms by (simp add: id_empty_def id_items_def comp_def case_prod_beta)
  then show ?thesis
    using set_items_built[of "[]" items] assms by (simp add: entry_init_def Let_def set_items_def id_empty_def)
qed

lemma good_text_ascii: "good_text True (Str s)" "good_text False (Byt (lit ''objectClass''))"
proof -
  have "utf8_decode (lit ''objectClass'') = Inr ''objectClass''" by code_simp
  then show "good_text True (Str s)" "good_text False (Byt (lit ''objectClass''))"
    by (simp_all add: good_text_def text_ok_def del: lit_Cons)
qed

lemma object_class_lower: "map normalize_key object_class_keys = object_class_lower_keys"
  "distinct object_class_lower_keys"
  by code_simp+

lemma py_sort_good: "\<forall>v \<in> set vs. good_text b v \<Longrightarrow> py_sort vs = Inr (sort vs)"
  by (cases b) (auto simp: py_sort_def one_kind_def list_all_iff good_text_def)

text \<open>The items of an entry say everything that its attributes say.\<close>

lemma entry_items_good:
  assumes u: "uniform b e"
  shows "\<exists>items. entry_items e = Inr items \<and> good_items b items \<and> (\<forall>f. attr_values e f =
    (case map_of (map (\<lambda>(k, vs). (normalize_key k, vs)) items) f of None \<Rightarrow> {} | Some vs \<Rightarrow> set vs))"
proof -
  let ?oc = "filter (\<lambda>(key, vs). vs \<noteq> []) (map (\<lambda>key. (key, object_classes e key)) object_class_keys)"
  let ?srt = "filter (\<lambda>(key, vs). text_lower key \<notin> set object_class_lower_keys)
                 (sort_key (\<lambda>kv. to_bytes (fst kv)) (id_items (eattrs e)))"
  let ?rest = "map (\<lambda>(key, vs). (key, sort (avals vs))) ?srt"
  have mem: "\<exists>f. (f, k, a) \<in> set (eattrs e) \<and> f = normalize_key k \<and> good_text b k \<and> good_set b a"
    if "(k, a) \<in> set (id_items (eattrs e))" for k a
    using that u by (force simp: id_items_def uniform_def folded_def)
  have "mapE (\<lambda>(key, vs). bindE (py_sort (avals vs)) (\<lambda>sorted_vs. Inr (key, sorted_vs))) ?srt = Inr ?rest"
  proof (rule mapE_pure)
    fix x assume "x \<in> set ?srt"
    then obtain k a where x: "x = (k, a)" "(k, a) \<in> set (id_items (eattrs e))" by auto
    then have "\<forall>v \<in> set (avals a). good_text b v" using mem by (auto simp: good_set_def)
    then show "(case x of (key, vs) \<Rightarrow> bindE (py_sort (avals vs)) (\<lambda>sorted_vs. Inr (key, sorted_vs))) =
      Inr (case x of (key, vs) \<Rightarrow> (key, sort (avals vs)))" by (simp add: x py_sort_good)
  qed
  then have items: "entry_items e = Inr (?oc @ ?rest)" by (simp add: entry_items_def)
  let ?L = "map (\<lambda>(k, vs). (normalize_key k, vs)) (?oc @ ?rest)"
  have lower: "normalize_key k \<in> set object_class_lower_keys" if "k \<in> set object_class_keys" for k
    using that by (metis imageI object_class_lower(1) set_map)
  have classes: "\<exists>k0 a. map_of (eattrs e) (normalize_key k) = Some (k0, a) \<and> set (object_classes e k) = set (avals a)"
    if "object_classes e k \<noteq> []" for k
    using that by (auto simp: object_classes_def split: option.splits)
  have keys: "map fst ?L = map normalize_key (filter (\<lambda>k. object_classes e k \<noteq> []) object_class_keys)
      @ map (normalize_key \<circ> fst) ?srt"
    by (simp add: filter_map comp_def case_prod_beta)
  have "distinct (map normalize_key object_class_keys)" by (simp only: object_class_lower)
  moreover have "distinct (map (normalize_key \<circ> fst) (sort_key (\<lambda>kv. to_bytes (fst kv)) (id_items (eattrs e))))"
  proof -
    have "distinct (map (normalize_key \<circ> fst) (id_items (eattrs e)))"
      using keys_distinct[OF u] by (simp add: entry_iter_def id_keys_def id_items_def comp_def)
    then show ?thesis by (simp add: distinct_map)
  qed
  ultimately have dist: "distinct (map fst ?L)"
    unfolding keys using lower
    by (auto simp: distinct_map_filter normalize_key_def) metis
  have good: "good_text b k \<and> (\<forall>v \<in> set vs. good_text b v)" if "(k, vs) \<in> set (?oc @ ?rest)" for k vs
  proof (cases "(k, vs) \<in> set ?oc")
    case True
    then have k: "k \<in> set object_class_keys" "vs = object_classes e k" "vs \<noteq> []" by auto
    then obtain k0 a where a: "map_of (eattrs e) (normalize_key k) = Some (k0, a)" "set vs = set (avals a)"
      using classes by blast
    have "is_str k = b" using uniform_map_of[OF u a(1)] by (metis good_text_def is_str_normalize)
    then have "good_text b k" using k(1) good_text_ascii by (auto simp: object_class_keys_def simp del: lit_Cons)
    then show ?thesis using a(2) uniform_map_of(3)[OF u a(1)] by (simp add: good_set_def)
  next
    case False
    then have "(k, vs) \<in> set ?rest" using that unfolding set_append by blast
    then obtain a where "(k, a) \<in> set (id_items (eattrs e))" "vs = sort (avals a)" by auto
    then show ?thesis using mem by (auto simp: good_set_def)
  qed
  have stored: "map_of (eattrs e) (normalize_key k) = Some (k, a)" if "(k, a) \<in> set (id_items (eattrs e))" for k a
    using mem[OF that] u by (auto simp: uniform_def folded_def dict_ok_def)
  have inL: "\<exists>k0 a. map_of (eattrs e) f = Some (k0, a) \<and> set vs = set (avals a)" if L: "(f, vs) \<in> set ?L" for f vs
  proof -
    have "\<exists>k. f = normalize_key k \<and> (k, vs) \<in> set its"
      if "(f, vs) \<in> set (map (\<lambda>(k, vs). (normalize_key k, vs)) its)" for its
      using that by auto
    from this[OF L] obtain k where k: "f = normalize_key k" "(k, vs) \<in> set ?oc \<or> (k, vs) \<in> set ?rest"
      unfolding set_append by blast
    show ?thesis
    proof (cases "(k, vs) \<in> set ?oc")
      case True
      then show ?thesis using classes[of k] k(1) by auto
    next
      case False
      then obtain a where "(k, a) \<in> set (id_items (eattrs e))" "vs = sort (avals a)" using k(2) by auto
      then show ?thesis using stored k(1) by auto
    qed
  qed
  have listed: "(normalize_key k, vs) \<in> set ?L" if "(k, vs) \<in> set (?oc @ ?rest)" for k vs
  proof -
    have "(normalize_key k, vs) \<in> set (map (\<lambda>(k, vs). (normalize_key k, vs)) its)" if "(k, vs) \<in> set its" for its
      using that by force
    from this[OF that] show ?thesis .
  qed
  have val: "attr_values e f = (case map_of ?L f of None \<Rightarrow> {} | Some vs \<Rightarrow> set vs)" for f
  proof (cases "map_of ?L f")
    case (Some vs)
    obtain k0 a where "map_of (eattrs e) f = Some (k0, a)" "set vs = set (avals a)"
      using inL[OF map_of_SomeD[OF Some]] by blast
    then have "attr_values e f = set vs" by (simp add: attr_values_def)
    then show ?thesis by (simp only: Some option.case)
  next
    case None
    have "(f, vs) \<notin> set l" if "map_of l f = None" for vs and l :: "(pytext \<times> pytext list) list"
      using that by (force simp: map_of_eq_None_iff)
    note out = this[OF None]
    have "avals a = []" if a: "map_of (eattrs e) f = Some (k0, a)" for k0 a
    proof (cases "f \<in> set object_class_lower_keys")
      case True
      then obtain k where k: "k \<in> set object_class_keys" "f = normalize_key k"
        using object_class_lower(1) by (metis imageE set_map)
      have "object_classes e k = sort_key to_bytes (avals a)" using a k(2) by (simp add: object_classes_def)
      moreover have "object_classes e k = []"
      proof (rule ccontr)
        assume "object_classes e k \<noteq> []"
        then have "(k, object_classes e k) \<in> set ?oc" using k(1) by simp
        then show False using listed[of k "object_classes e k"] out k(2) unfolding set_append by blast
      qed
      ultimately show ?thesis by (metis set_empty set_sort)
    next
      case False
      have f: "f = normalize_key k0" using uniform_map_of(1)[OF u a] .
      have "(k0, a) \<in> set (id_items (eattrs e))" using map_of_SomeD[OF a] by (force simp: id_items_def)
      then have "(k0, sort (avals a)) \<in> set ?rest" using False f by (force simp: normalize_key_def)
      then show ?thesis using listed[of k0 "sort (avals a)"] out f unfolding set_append by blast
    qed
    then have "attr_values e f = {}" by (auto simp: attr_values_def split: option.split)
    then show ?thesis by (simp only: None option.case)
  qed
  have "good_items b its"
    if "distinct (map fst (map (\<lambda>(k, vs). (normalize_key k, vs)) its))"
      "\<And>k vs. (k, vs) \<in> set its \<Longrightarrow> good_text b k \<and> (\<forall>v \<in> set vs. good_text b v)" for its
    using that by (auto simp: good_items_def comp_def case_prod_beta)
  from this[OF dist good] have "good_items b (?oc @ ?rest)" .
  with items val show ?thesis by blast
qed

section \<open>The journal leads from the remote data to the cache\<close>

text \<open>Values that are deleted are there, and an attribute that is deleted has some.\<close>

fun deletable :: "modification \<Rightarrow> pytext set \<Rightarrow> bool" where
  "deletable (Delete a) S \<longleftrightarrow> S \<noteq> {} \<and> set (avals a) \<subseteq> S"
| "deletable m S \<longleftrightarrow> True"

text \<open>What a list of modifications makes of the values of all types.\<close>

fun after_mods :: "modification list \<Rightarrow> (pytext \<Rightarrow> pytext set) \<Rightarrow> (pytext \<Rightarrow> pytext set) option" where
  "after_mods [] U = Some U"
| "after_mods (m # ms) U =
     (if deletable m (U (mod_key m)) then after_mods ms (U(mod_key m := mod_effect m (U (mod_key m)))) else None)"

lemma after_mods_append: "after_mods (ms @ ns) U = (case after_mods ms U of None \<Rightarrow> None | Some W \<Rightarrow> after_mods ns W)"
  by (induction ms U rule: after_mods.induct) (simp_all del: fun_upd_apply)

definition journal_ok :: "bool \<Rightarrow> remote \<Rightarrow> bool" where
  "journal_ok b r \<longleftrightarrow>
     uniform b (cached r) \<and> keyed b (cached r) \<and> uniform b (remoteData r) \<and>
     (\<forall>m \<in> set (journal_of r). good_mod b m) \<and>
     after_mods (journal_of r) (attr_values (remoteData r)) = Some (attr_values (cached r))"

text \<open>Attributes with these values, present or not where there are none, follow.\<close>

lemma mod_next_values:
  assumes "deletable m (values_in V (mod_key m))"
  shows "\<exists>x. mod_next m (V (mod_key m)) = Some x \<and>
    values_in (V(mod_key m := x)) = (values_in V)(mod_key m := mod_effect m (values_in V (mod_key m)))"
  using assms
  by (cases m; cases "V (mod_key m)") (auto simp: values_in_def fun_eq_iff split: option.splits if_splits)

lemma after_mods_replay:
  "after_mods ms (values_in V) = Some U \<Longrightarrow> \<exists>W. replay ms V = Some W \<and> values_in W = U"
proof (induction ms arbitrary: V)
  case (Cons m ms)
  then have "deletable m (values_in V (mod_key m))" by (simp split: if_splits)
  then obtain x where x: "mod_next m (V (mod_key m)) = Some x"
    "values_in (V(mod_key m := x)) = (values_in V)(mod_key m := mod_effect m (values_in V (mod_key m)))"
    using mod_next_values by blast
  then have "after_mods ms (values_in (V(mod_key m := x))) = Some U"
    using Cons.prems by (simp split: if_splits del: fun_upd_apply)
  from Cons.IH[OF this] x(1) show ?case by (simp del: fun_upd_apply)
qed simp

lemma journal_step:
  assumes "journal_ok b r" "good_mod b m" "uniform b e'" "keyed b e'"
    and "deletable m (attr_values (cached r) (mod_key m))"
    and "attr_values e' = (attr_values (cached r))(mod_key m := mod_effect m (attr_values (cached r) (mod_key m)))"
  shows "journal_ok b (r\<lparr>cached := e', journal_of := journal_of r @ [m]\<rparr>)"
  using assms by (auto simp: journal_ok_def after_mods_append simp del: fun_upd_apply)

section \<open>What the edits do\<close>

lemma getitem_good:
  assumes "uniform b e" "good_text b k"
  shows "entry_getitem e k = (case map_of (eattrs e) (normalize_key k) of None \<Rightarrow> Inl KeyError | Some item \<Rightarrow> Inr (snd item))"
  using find_spelling_uniform[OF assms]
  by (auto simp: entry_getitem_def id_contains_def id_getitem_def dict_get_def split: option.splits)

lemma attrset_add_good:
  assumes "good_set b a" "good_text b v"
  shows "\<exists>a'. attrset_add a v = Inr a' \<and> good_set b a' \<and> set (avals a') = insert v (set (avals a)) \<and> akey a' = akey a"
proof -
  obtain w where w: "get_strings v = Inr [v, w]" "is_str w \<noteq> b" by (rule get_strings_good[OF assms(2)])
  have "w \<notin> set (avals a)" using assms(1) w(2) by (auto simp: good_set_def good_text_def)
  then show ?thesis
    using assms by (auto simp: attrset_add_def w(1) good_set_def attrset_ok_def)
qed

lemma good_mk: "good_text b k \<Longrightarrow> \<forall>v \<in> set vs. good_text b v \<Longrightarrow> good_set b (mkAttributeSet k vs)"
  by (simp add: good_set_def)

text \<open>The set of an attribute replaced in place.\<close>

lemma change_set_good:
  assumes "uniform b (cached r)" "keyed b (cached r)" "good_text b k"
    and "map_of (eattrs (cached r)) (normalize_key k) = Some (sp, a)"
    and "f a = Inr a'" "good_set b a'" "akey a' = akey a"
  shows "\<exists>e'. change_set k f r = (Inr (), r\<lparr>cached := e'\<rparr>) \<and> uniform b e' \<and> keyed b e' \<and> edn e' = edn (cached r) \<and>
    attr_values e' = (attr_values (cached r))(normalize_key k := set (avals a'))"
proof -
  from entry_change_state[where f = f, OF assms(1,3,4,5,6)] obtain e' where
    e': "entry_change (cached r) k f = Inr e'" "uniform b e'" "edn e' = edn (cached r)"
    "attr_state e' = (attr_state (cached r))(normalize_key k := Some (set (avals a')))"
    "map_of (eattrs e') = (map_of (eattrs (cached r)))(normalize_key k \<mapsto> (sp, a'))" by blast
  have "keyed b e'" using assms(2,4,7) e'(5) by (auto simp: keyed_def)
  moreover have "attr_values e' = (attr_values (cached r))(normalize_key k := set (avals a'))"
    using e'(4) by (auto simp: values_in_def fun_eq_iff simp flip: values_in_state)
  ultimately show ?thesis
    using e' by (intro exI[of _ e']) (simp add: change_set_def prog_defs)
qed

lemma change_set_journal [simp]:
  "change_set k f (r\<lparr>journal_of := j\<rparr>) = (case change_set k f r of (x, r') \<Rightarrow> (x, r'\<lparr>journal_of := j\<rparr>))"
  by (simp add: change_set_def prog_defs split: sum.split)

lemma checkState_cases:
  "checkState r = (Inr (), r) \<or> (\<exists>e. checkState r = (Inl e, r))"
  by (simp add: checkState_def prog_defs)

lemma canRemove_cases:
  "canRemove k v r = (Inr (), r) \<or> (\<exists>e. canRemove k v r = (Inl e, r))"
  "canRemoveAll k r = (Inr (), r) \<or> (\<exists>e. canRemoveAll k r = (Inl e, r))"
  by (auto simp: canRemove_def canRemoveAll_def checkState_def own_rdn_def prog_defs split: list.split)

text \<open>An access either fails, and nothing has happened, or gives the set of the attribute.\<close>

lemma remote_getitem_cases:
  assumes "uniform b (cached r)" "keyed b (cached r)" "good_text b k"
  obtains (fails) e where "remote_getitem k r = (Inl e, r)"
    | (gives) sp a where "remote_getitem k r = (Inr a, r)" "map_of (eattrs (cached r)) (normalize_key k) = Some (sp, a)"
      "good_set b a" "normalize_key (akey a) = normalize_key k" "good_text b (akey a)"
      "attr_values (cached r) (normalize_key k) = set (avals a)"
proof (cases "checkState r = (Inr (), r) \<and> map_of (eattrs (cached r)) (normalize_key k) \<noteq> None")
  case True
  then obtain sp a where a: "map_of (eattrs (cached r)) (normalize_key k) = Some (sp, a)" by auto
  have "remote_getitem k r = (Inr a, r)"
    using True a getitem_good[OF assms(1,3)] by (simp add: remote_getitem_def bindP_def getP_def liftP_def)
  then show ?thesis
    using gives a uniform_map_of[OF assms(1) a] assms(2) by (auto simp: keyed_def attr_values_def)
next
  case False
  then show ?thesis
    using fails checkState_cases[of r] getitem_good[OF assms(1,3)]
    by (auto simp: remote_getitem_def bindP_def getP_def liftP_def split: option.splits)
qed

text \<open>Nothing has happened, or one modification has been made and noted.\<close>

definition one_step :: "bool \<Rightarrow> remote \<Rightarrow> remote \<Rightarrow> bool" where
  "one_step b r r' \<longleftrightarrow> r' = r \<or>
     (\<exists>m e'. r' = r\<lparr>cached := e', journal_of := journal_of r @ [m]\<rparr> \<and> good_mod b m \<and> uniform b e' \<and> keyed b e' \<and>
        edn e' = edn (cached r) \<and> deletable m (attr_values (cached r) (mod_key m)) \<and>
        attr_values e' = (attr_values (cached r))(mod_key m := mod_effect m (attr_values (cached r) (mod_key m))))"

lemma one_step_ok: "journal_ok b r \<Longrightarrow> one_step b r r' \<Longrightarrow> journal_ok b r'"
  unfolding one_step_def using journal_step by blast

lemma set_add_step:
  assumes "uniform b (cached r)" "keyed b (cached r)" "good_text b k" "good_text b v"
  shows "one_step b r (snd (set_add k v r))"
  using assms(1-3)
proof (cases rule: remote_getitem_cases)
  case (fails e)
  then show ?thesis by (simp add: set_add_def bindP_def one_step_def)
next
  case (gives sp a)
  let ?m = "Add (mkAttributeSet (akey a) [v])"
  obtain a' where a': "attrset_add a v = Inr a'" "good_set b a'" "set (avals a') = insert v (set (avals a))" "akey a' = akey a"
    using attrset_add_good[OF gives(3) assms(4)] by blast
  from change_set_good[where f = "\<lambda>old. attrset_add old v", OF assms(1-3) gives(2) a'(1,2,4)] obtain e' where
    e': "change_set k (\<lambda>old. attrset_add old v) r = (Inr (), r\<lparr>cached := e'\<rparr>)" "uniform b e'" "keyed b e'" "edn e' = edn (cached r)"
    "attr_values e' = (attr_values (cached r))(normalize_key k := set (avals a'))" by blast
  have "set_add k v r = (Inr (), r\<lparr>cached := e', journal_of := journal_of r @ [?m]\<rparr>)"
    using gives(1) e'(1) by (simp add: set_add_def bindP_def journal_def updateP_def)
  then show ?thesis
    using e' a' gives assms(4)
    by (auto simp: one_step_def good_mod_def good_mk mod_key_def fun_eq_iff intro!: exI[of _ ?m] exI[of _ e'])
qed

lemma set_remove_step:
  assumes "uniform b (cached r)" "keyed b (cached r)" "good_text b k" "good_text b v"
  shows "one_step b r (snd (set_remove k v r))"
  using assms(1-3)
proof (cases rule: remote_getitem_cases)
  case (fails e)
  then show ?thesis by (simp add: set_remove_def bindP_def one_step_def)
next
  case (gives sp a)
  let ?m = "Delete (mkAttributeSet (akey a) [v])"
  show ?thesis
  proof (cases "v \<in> set (avals a) \<and> canRemove (akey a) v r = (Inr (), r)")
    case False
    then have "snd (set_remove k v r) = r"
      using gives(1) canRemove_cases(1)[of "akey a" v r]
      by (auto simp: set_remove_def bindP_def unlessP_def returnP_def raiseP_def)
    then show ?thesis by (simp add: one_step_def)
  next
    case True
    obtain a' where a': "attrset_remove a v = Inr a'" "good_set b a'" "set (avals a') = set (avals a) - {v}"
      using attrset_remove_good[OF gives(3) assms(4)] True by blast
    have "akey a' = akey a" using a'(1) by (auto simp: attrset_remove_def)
    from change_set_good[where f = "\<lambda>old. attrset_remove old v", OF assms(1-3) gives(2) a'(1,2) this] obtain e' where
      e': "change_set k (\<lambda>old. attrset_remove old v) r = (Inr (), r\<lparr>cached := e'\<rparr>)" "uniform b e'" "keyed b e'"
      "edn e' = edn (cached r)" "attr_values e' = (attr_values (cached r))(normalize_key k := set (avals a'))" by blast
    have "set_remove k v r = (Inr (), r\<lparr>cached := e', journal_of := journal_of r @ [?m]\<rparr>)"
      using gives(1) e'(1) True by (simp add: set_remove_def bindP_def journal_def updateP_def unlessP_def returnP_def)
    then show ?thesis
      using e' a' gives assms(4) True
      by (auto simp: one_step_def good_mod_def good_mk mod_key_def fun_eq_iff intro!: exI[of _ ?m] exI[of _ e'])
  qed
qed

lemma set_clear_step:
  assumes "uniform b (cached r)" "keyed b (cached r)" "good_text b k" "attr_values (cached r) (normalize_key k) \<noteq> {}"
  shows "one_step b r (snd (set_clear k r))"
  using assms(1-3)
proof (cases rule: remote_getitem_cases)
  case (fails e)
  then show ?thesis by (simp add: set_clear_def bindP_def one_step_def)
next
  case (gives sp a)
  let ?m = "Delete (mkAttributeSet (akey a) [])"
  show ?thesis
  proof (cases "canRemoveAll (akey a) r = (Inr (), r)")
    case False
    then have "snd (set_clear k r) = r"
      using gives(1) canRemove_cases(2)[of "akey a" r] by (auto simp: set_clear_def bindP_def)
    then show ?thesis by (simp add: one_step_def)
  next
    case True
    have "good_set b (a\<lparr>avals := []\<rparr>)" by (simp add: good_set_def attrset_ok_def)
    from change_set_good[where f = "\<lambda>old. Inr (old\<lparr>avals := []\<rparr>)", OF assms(1-3) gives(2) refl this] obtain e' where
      e': "change_set k (\<lambda>old. Inr (old\<lparr>avals := []\<rparr>)) r = (Inr (), r\<lparr>cached := e'\<rparr>)" "uniform b e'" "keyed b e'"
      "edn e' = edn (cached r)" "attr_values e' = (attr_values (cached r))(normalize_key k := {})" by auto
    have "set_clear k r = (Inr (), r\<lparr>cached := e', journal_of := journal_of r @ [?m]\<rparr>)"
      using gives(1) e'(1) True by (simp add: set_clear_def bindP_def journal_def updateP_def)
    then show ?thesis
      using e' gives assms(4)
      by (auto simp: one_step_def good_mod_def good_mk mod_key_def fun_eq_iff intro!: exI[of _ ?m] exI[of _ e'])
  qed
qed

lemma setitem_step:
  assumes "uniform b (cached r)" "keyed b (cached r)" "good_text b k" "\<forall>v \<in> set vs. good_text b v"
  shows "one_step b r (snd (remote_setitem k vs r))"
proof (cases "checkState r = (Inr (), r) \<and> canRemoveAll k r = (Inr (), r)")
  case False
  then have "snd (remote_setitem k vs r) = r"
    using checkState_cases[of r] canRemove_cases(2)[of k r] by (auto simp: remote_setitem_def bindP_def)
  then show ?thesis by (simp add: one_step_def)
next
  case True
  let ?m = "Replace (mkAttributeSet k vs)" and ?e = "entry_setitem (cached r) k (avals (mkAttributeSet k vs))"
  have "remote_setitem k vs r = (Inr (), r\<lparr>cached := ?e, journal_of := journal_of r @ [?m]\<rparr>)"
    using True by (simp add: remote_setitem_def bindP_def journal_def updateP_def)
  moreover have "uniform b ?e" unfolding entry_setitem_def id_setitem_def
    using assms by (intro uniform_set) (auto intro!: good_mk)
  moreover have "keyed b ?e"
    using assms(2,3) by (auto simp: keyed_def entry_setitem_def id_setitem_def)
  ultimately show ?thesis
    using assms(3,4)
    by (auto simp: one_step_def good_mod_def good_mk mod_key_def entry_setitem_def id_setitem_def fun_eq_iff
        intro!: exI[of _ ?m] exI[of _ ?e])
qed

lemma attr_values_del:
  "attr_values (e\<lparr>eattrs := filter (\<lambda>kv. fst kv \<noteq> f) (eattrs e)\<rparr>) = (attr_values e)(f := {})"
  by (auto simp: attr_values_def fun_eq_iff map_of_filter_neq)

lemma delitem_step:
  assumes "uniform b (cached r)" "keyed b (cached r)" "good_text b k" "attr_values (cached r) (normalize_key k) \<noteq> {}"
  shows "one_step b r (snd (remote_delitem k r))"
proof (cases "checkState r = (Inr (), r) \<and> canRemoveAll k r = (Inr (), r)")
  case False
  then have "snd (remote_delitem k r) = r"
    using checkState_cases[of r] canRemove_cases(2)[of k r] by (auto simp: remote_delitem_def bindP_def)
  then show ?thesis by (simp add: one_step_def)
next
  case True
  let ?m = "Delete (mkAttributeSet k [])"
  let ?e = "(cached r)\<lparr>eattrs := filter (\<lambda>kv. fst kv \<noteq> normalize_key k) (eattrs (cached r))\<rparr>"
  have "map_of (eattrs (cached r)) (normalize_key k) \<noteq> None"
    using assms(4) by (auto simp: attr_values_def split: option.splits)
  then have "entry_delitem (cached r) k = Inr ?e"
    by (simp add: entry_delitem_def id_delitem_def dict_del_def)
  then have "remote_delitem k r = (Inr (), r\<lparr>cached := ?e, journal_of := journal_of r @ [?m]\<rparr>)"
    using True by (simp add: remote_delitem_def bindP_def journal_def updateP_def getP_def liftP_def)
  moreover have "uniform b ?e" using assms(1) by (auto simp: uniform_def)
  moreover have "keyed b ?e" using assms(2) by (auto simp: keyed_def map_of_filter_neq)
  ultimately show ?thesis
    using assms(3,4)
    by (auto simp: one_step_def good_mod_def good_mk mod_key_def attr_values_del
        intro!: exI[of _ ?m] exI[of _ ?e])
qed

text \<open>Several sequences are added: one note each, and one change of the set.\<close>

lemma journal_all_eq:
  "journal_all f vss r = (Inr (), r\<lparr>journal_of := journal_of r @ map f vss\<rparr>)"
  by (induction vss arbitrary: r) (simp_all add: bindP_def journal_def updateP_def returnP_def)

lemma update_all:
  "set (avals (foldl attrset_update a vss)) = set (avals a) \<union> \<Union> (set ` set vss)"
  "akey (foldl attrset_update a vss) = akey a"
  by (induction vss arbitrary: a) auto

lemma update_all_good:
  "good_set b a \<Longrightarrow> \<forall>vs \<in> set vss. \<forall>v \<in> set vs. good_text b v \<Longrightarrow> good_set b (foldl attrset_update a vss)"
proof (induction vss arbitrary: a)
  case (Cons vs vss)
  have "good_set b (attrset_update a vs)" using Cons.prems by (auto simp: good_set_def)
  then show ?case using Cons.IH Cons.prems(2) by simp
qed simp

lemma after_adds:
  "normalize_key k = f \<Longrightarrow>
   after_mods (map (\<lambda>vs. Add (mkAttributeSet k vs)) vss) U = Some (U(f := U f \<union> \<Union> (set ` set vss)))"
proof (induction vss arbitrary: U)
  case (Cons vs vss)
  show ?case using Cons.IH[OF Cons.prems, of "U(f := U f \<union> set vs)"] Cons.prems
    by (simp add: mod_key_def Un_assoc fun_upd_same del: fun_upd_apply)
qed simp

lemma set_update_ok:
  assumes J: "journal_ok b r" and "good_text b k" "\<forall>vs \<in> set vss. \<forall>v \<in> set vs. good_text b v"
  shows "journal_ok b (snd (set_update k vss r))"
proof -
  have u: "uniform b (cached r)" "keyed b (cached r)" using J by (simp_all add: journal_ok_def)
  from u assms(2) show ?thesis
  proof (cases rule: remote_getitem_cases)
    case (fails e)
    then show ?thesis using J by (simp add: set_update_def bindP_def)
  next
    case (gives sp a)
    let ?ms = "map (\<lambda>vs. Add (mkAttributeSet (akey a) vs)) vss"
    have g: "good_set b (foldl attrset_update a vss)" using update_all_good[OF gives(3) assms(3)] .
    from change_set_good[where f = "\<lambda>old. Inr (foldl attrset_update old vss)", OF u assms(2) gives(2) refl g update_all(2)]
    obtain e' where e': "change_set k (\<lambda>old. Inr (foldl attrset_update old vss)) r = (Inr (), r\<lparr>cached := e'\<rparr>)"
      "uniform b e'" "keyed b e'" "edn e' = edn (cached r)"
      "attr_values e' = (attr_values (cached r))(normalize_key k := set (avals a) \<union> \<Union> (set ` set vss))"
      unfolding update_all(1) by blast
    have r': "set_update k vss r = (Inr (), r\<lparr>cached := e', journal_of := journal_of r @ ?ms\<rparr>)"
      using gives(1) e'(1) by (simp add: set_update_def bindP_def journal_all_eq)
    have "after_mods (journal_of r @ ?ms) (attr_values (remoteData r)) = Some (attr_values e')"
      using J after_adds[OF gives(4)] e'(5) gives(6) by (simp add: after_mods_append journal_ok_def)
    moreover have "\<forall>m \<in> set ?ms. good_mod b m" using gives(5) assms(3) by (auto simp: good_mod_def good_mk)
    ultimately show ?thesis using J e'(2,3) unfolding r' by (auto simp: journal_ok_def)
  qed
qed

text \<open>Undoing goes back to the remote data, and a commit makes the cache the remote data.\<close>

lemma journal_ok_fresh:
  assumes "uniform b (cached r)" "keyed b (cached r)" "uniform b (remoteData r)" "journal_of r = []"
    "attr_values (cached r) = attr_values (remoteData r)"
  shows "journal_ok b r"
  using assms by (simp add: journal_ok_def)

lemma undo_restores:
  assumes "uniform b (remoteData r)" "checkState r = (Inr (), r)"
  shows "\<exists>e'. undo r = (Inr (), r\<lparr>cached := e', journal_of := []\<rparr>) \<and> uniform b e' \<and> keyed b e' \<and>
    edn e' = edn (cached r) \<and> attr_values e' = attr_values (remoteData r)"
proof -
  obtain items where it: "entry_items (remoteData r) = Inr items" "good_items b items"
    "\<And>f. attr_values (remoteData r) f =
      (case map_of (map (\<lambda>(k, vs). (normalize_key k, vs)) items) f of None \<Rightarrow> {} | Some vs \<Rightarrow> set vs)"
    using entry_items_good[OF assms(1)] by blast
  let ?e = "(cached r)\<lparr>eattrs := built items\<rparr>"
  have "set_items items id_empty = built items"
    using set_items_built[of "[]" items] it(2) by (simp add: good_items_def id_empty_def)
  then have "undo r = (Inr (), r\<lparr>cached := ?e, journal_of := []\<rparr>)"
    using assms(2) it(1) by (simp add: undo_def bindP_def updateP_def getP_def liftP_def)
  moreover have "uniform b ?e" "keyed b ?e" "attr_values ?e = attr_values (remoteData r)"
    using built_facts[OF it(2), of ?e] it(3) by (auto simp: fun_eq_iff)
  ultimately show ?thesis by (intro exI[of _ ?e]) simp
qed

lemma undo_ok: "journal_ok b r \<Longrightarrow> journal_ok b (snd (undo r))"
proof (cases "checkState r = (Inr (), r)")
  case False
  assume "journal_ok b r"
  then show ?thesis using False checkState_cases[of r] by (auto simp: undo_def bindP_def)
next
  case True
  assume J: "journal_ok b r"
  then have "uniform b (remoteData r)" by (simp add: journal_ok_def)
  from undo_restores[OF this True] J show ?thesis by (auto intro!: journal_ok_fresh simp: journal_ok_def)
qed

lemma commit_success_ok: "journal_ok b r \<Longrightarrow> journal_ok b (snd (commit_success msg r))"
proof (cases "fst (commit_success msg r) = Inr ()")
  case False
  have "snd (commit_success msg r) = r" 
    using False checkState_cases[of r]
    by (auto simp: commit_success_def remote_items_def bindP_def liftP_def getP_def updateP_def split: sum.splits prod.splits)
  then show "journal_ok b r \<Longrightarrow> ?thesis" by simp
next
  case True
  assume J: "journal_ok b r"
  then have u: "uniform b (cached r)" by (simp add: journal_ok_def)
  obtain items where it: "entry_items (cached r) = Inr items" "good_items b items"
    "\<And>f. attr_values (cached r) f =
      (case map_of (map (\<lambda>(k, vs). (normalize_key k, vs)) items) f of None \<Rightarrow> {} | Some vs \<Rightarrow> set vs)"
    using entry_items_good[OF u] by blast
  let ?e = "entry_init (edn (cached r)) items"
  have "snd (commit_success msg r) = r\<lparr>remoteData := ?e, journal_of := []\<rparr>"
    using True checkState_cases[of r] it(1)
    by (auto simp: commit_success_def remote_items_def bindP_def liftP_def getP_def updateP_def split: sum.splits prod.splits)
  moreover have "eattrs ?e = built items" using it(2) by (simp add: entry_init_built good_items_def)
  then have "uniform b ?e" "attr_values ?e = attr_values (cached r)"
    using built_facts[OF it(2), of ?e] it(3) by (auto simp: fun_eq_iff)
  ultimately show ?thesis using J by (auto intro!: journal_ok_fresh simp: journal_ok_def)
qed

section \<open>Any sequence of edits\<close>

datatype edit_op =
    AddValue pytext pytext
  | AddValues pytext "pytext list list"
  | RemoveValue pytext pytext
  | ClearValues pytext
  | SetAttribute pytext "pytext list"
  | DelAttribute pytext
  | UndoAll

fun perform_edit :: "edit_op \<Rightarrow> unit edit" where
  "perform_edit (AddValue k v) = set_add k v"
| "perform_edit (AddValues k vss) = set_update k vss"
| "perform_edit (RemoveValue k v) = set_remove k v"
| "perform_edit (ClearValues k) = set_clear k"
| "perform_edit (SetAttribute k vs) = remote_setitem k vs"
| "perform_edit (DelAttribute k) = remote_delitem k"
| "perform_edit UndoAll = undo"

text \<open>Texts of the kind of the entry; what is cleared or deleted as a whole has values.\<close>

fun sound_edit :: "bool \<Rightarrow> edit_op \<Rightarrow> remote \<Rightarrow> bool" where
  "sound_edit b (AddValue k v) r \<longleftrightarrow> good_text b k \<and> good_text b v"
| "sound_edit b (AddValues k vss) r \<longleftrightarrow> good_text b k \<and> (\<forall>vs \<in> set vss. \<forall>v \<in> set vs. good_text b v)"
| "sound_edit b (RemoveValue k v) r \<longleftrightarrow> good_text b k \<and> good_text b v"
| "sound_edit b (ClearValues k) r \<longleftrightarrow> good_text b k \<and> attr_values (cached r) (normalize_key k) \<noteq> {}"
| "sound_edit b (SetAttribute k vs) r \<longleftrightarrow> good_text b k \<and> (\<forall>v \<in> set vs. good_text b v)"
| "sound_edit b (DelAttribute k) r \<longleftrightarrow> good_text b k \<and> attr_values (cached r) (normalize_key k) \<noteq> {}"
| "sound_edit b UndoAll r \<longleftrightarrow> True"

lemma edit_keeps_journal:
  assumes J: "journal_ok b r" and snd: "sound_edit b ed r"
  shows "journal_ok b (snd (perform_edit ed r))"
proof -
  have u: "uniform b (cached r)" "keyed b (cached r)" using J by (simp_all add: journal_ok_def)
  note steps = set_add_step[OF u] set_remove_step[OF u] set_clear_step[OF u] setitem_step[OF u] delitem_step[OF u]
  show ?thesis
    using snd by (cases ed) (simp_all add: one_step_ok[OF J] steps set_update_ok[OF J] undo_ok[OF J])
qed

text \<open>Programs of edits, each of which may raise and be caught by the application.\<close>

fun run_edits :: "edit_op list \<Rightarrow> remote \<Rightarrow> remote" where
  "run_edits [] r = r"
| "run_edits (ed # eds) r = run_edits eds (snd (perform_edit ed r))"

fun sound_edits :: "bool \<Rightarrow> edit_op list \<Rightarrow> remote \<Rightarrow> bool" where
  "sound_edits b [] r \<longleftrightarrow> True"
| "sound_edits b (ed # eds) r \<longleftrightarrow> sound_edit b ed r \<and> sound_edits b eds (snd (perform_edit ed r))"

lemma run_edits_ok: "journal_ok b r \<Longrightarrow> sound_edits b eds r \<Longrightarrow> journal_ok b (run_edits eds r)"
  by (induction eds arbitrary: r) (auto intro: edit_keeps_journal)

text \<open>Edits leave the name, the state and the remote data alone.\<close>

definition same_frame :: "remote \<Rightarrow> remote \<Rightarrow> bool" where
  "same_frame r r' \<longleftrightarrow> edn (cached r') = edn (cached r) \<and> rstate r' = rstate r \<and> remoteData r' = remoteData r"

lemma same_frame_order: "reflp same_frame" "transp same_frame"
  by (auto simp: same_frame_def reflp_def transp_def)

lemma journal_frame: "keeps same_frame (journal m)"
  by (simp add: journal_def keeps_def updateP_def same_frame_def)

lemma entry_change_name: "entry_change e k f = Inr e' \<Longrightarrow> edn e' = edn e"
  by (cases "find_spelling e k") (auto simp: entry_change_def split: option.splits)

lemma change_set_frame: "keeps same_frame (change_set k f)"
  by (auto simp: change_set_def keeps_def prog_defs same_frame_def entry_change_name split: sum.split)

lemma set_cached_frame: "edn e = edn (cached r) \<Longrightarrow> same_frame r (r\<lparr>cached := e\<rparr>)"
  by (simp add: same_frame_def)

lemma still_frame:
  "keeps same_frame checkState" "keeps same_frame (remote_getitem k)" "keeps same_frame (canRemove k v)"
  "keeps same_frame (canRemoveAll k)"
  by (auto simp: keeps_def same_frame_def checkState_def remote_getitem_def canRemove_def canRemoveAll_def own_rdn_def
      prog_defs split: list.split sum.split)

lemma journal_all_frame: "keeps same_frame (journal_all f vss)"
  by (simp add: keeps_def journal_all_eq same_frame_def)

lemma delitem_frame: "keeps same_frame (remote_delitem k)"
  by (auto simp: keeps_def remote_delitem_def checkState_def canRemoveAll_def own_rdn_def journal_def entry_delitem_def
      same_frame_def prog_defs split: list.split sum.split)

lemma undo_frame: "keeps same_frame undo"
  by (auto simp: keeps_def undo_def checkState_def same_frame_def prog_defs split: sum.split)

lemma edit_frame: "same_frame r (snd (perform_edit ed r))"
proof -
  have "keeps same_frame (perform_edit ed)"
    by (cases ed)
      (auto simp: set_add_def set_update_def set_remove_def set_clear_def remote_setitem_def entry_setitem_def
        intro!: keeps_rules same_frame_order journal_frame change_set_frame still_frame journal_all_frame delitem_frame
          undo_frame keeps_updateP set_cached_frame)
  then show ?thesis by (simp add: keeps_def)
qed

lemma run_edits_frame: "same_frame r (run_edits eds r)"
proof (induction eds arbitrary: r)
  case (Cons ed eds)
  then show ?case using edit_frame[of r ed] same_frame_order(2)[THEN transpD] by auto
qed (simp add: same_frame_def)

lemma remote_init_ok: "good_items b items \<Longrightarrow> journal_ok b (remote_init d items c)"
  using built_facts[of b items "entry_init d items"]
  by (auto simp: remote_init_def entry_init_built good_items_def intro!: journal_ok_fresh)

section \<open>What a client relies on of its server\<close>

text \<open>
  A modify request for an entry that is there, whose modifications apply, succeeds, changes that entry
  accordingly, and no other.
\<close>

locale directory =
  fixes send :: "'s sender" and stored :: "'s \<Rightarrow> dn \<Rightarrow> entry option" and inv :: "'s \<Rightarrow> bool"
  assumes modify_law:
    "inv s \<Longrightarrow> stored s d = Some e \<Longrightarrow> dn_ok d \<Longrightarrow> uniform False e \<Longrightarrow> \<forall>m \<in> set ms. good_mod False m \<Longrightarrow>
     replay ms (attr_state e) = Some V \<Longrightarrow>
     \<exists>t res s' e'. send (OModifyRequest (class_tag LDAPModifyRequest) (Some (Str (dn_text d))) (Some (map mod_asLDAP ms))) s =
         (Inr (OResult LDAPModifyResponse t res), s') \<and>
       resultCode res = 0 \<and> referral res = None \<and> matchedDN res = Byt [] \<and>
       inv s' \<and> uniform False e' \<and> attr_state e' = V \<and>
       (\<forall>d'. stored s' d' = (if dn_eq d' d then Some e' else stored s d'))"
begin

text \<open>The remote data is what the server has.\<close>

definition in_sync :: "'s \<Rightarrow> remote \<Rightarrow> bool" where
  "in_sync s r \<longleftrightarrow> (\<exists>e. stored s (edn (cached r)) = Some e \<and> uniform False e \<and> attr_values e = attr_values (remoteData r))"

lemma commit_stores:
  assumes "inv s" "in_sync s r" "journal_ok False r" "rstate r = Ready_state" "dn_ok (edn (cached r))"
  shows "\<exists>r' s' e'. commit send (r, s) = (Inr (), (r', s')) \<and>
    cached r' = cached r \<and> journal_of r' = [] \<and> rstate r' = Ready_state \<and> journal_ok False r' \<and> inv s' \<and> in_sync s' r' \<and>
    stored s' (edn (cached r)) = Some e' \<and> attr_values e' = attr_values (cached r) \<and>
    (\<forall>d'. \<not> dn_eq d' (edn (cached r)) \<longrightarrow> stored s' d' = stored s d')"
proof -
  obtain e where e: "stored s (edn (cached r)) = Some e" "uniform False e" "attr_values e = attr_values (remoteData r)"
    using assms(2) by (auto simp: in_sync_def)
  have ready: "checkState r = (Inr (), r)" using assms(4) by (simp add: checkState_def prog_defs)
  show ?thesis
  proof (cases "journal_of r = []")
    case True
    then have "commit send (r, s) = (Inr (), (r, s))"
      using ready by (simp add: commit_def hereP_def prog_defs)
    moreover have "attr_values (remoteData r) = attr_values (cached r)"
      using assms(3) True by (simp add: journal_ok_def)
    ultimately show ?thesis using assms e True by auto
  next
    case False
    have m: "\<forall>m \<in> set (journal_of r). good_mod False m"
      "after_mods (journal_of r) (values_in (attr_state e)) = Some (attr_values (cached r))"
      using assms(3) e(3) by (simp_all add: journal_ok_def)
    obtain V where V: "replay (journal_of r) (attr_state e) = Some V" "values_in V = attr_values (cached r)"
      using after_mods_replay[OF m(2)] by blast
    obtain t res s' e' where sent: "send (commit_request r) s = (Inr (OResult LDAPModifyResponse t res), s')"
      "resultCode res = 0" "referral res = None" "matchedDN res = Byt []" "inv s'" "uniform False e'" "attr_state e' = V"
      "\<And>d'. stored s' d' = (if dn_eq d' (edn (cached r)) then Some e' else stored s d')"
      using modify_law[OF assms(1) e(1) assms(5) e(2) m(1) V(1)] unfolding commit_request_def by blast
    have u: "uniform False (cached r)" using assms(3) by (simp add: journal_ok_def)
    obtain items where it: "entry_items (cached r) = Inr items" "good_items False items"
      "\<And>f. attr_values (cached r) f =
        (case map_of (map (\<lambda>(k, vs). (normalize_key k, vs)) items) f of None \<Rightarrow> {} | Some vs \<Rightarrow> set vs)"
      using entry_items_good[OF u] by blast
    let ?r = "r\<lparr>remoteData := entry_init (edn (cached r)) items, journal_of := []\<rparr>"
    have fin: "commit_success (OResult LDAPModifyResponse t res) r = (Inr (), ?r)"
      using sent(2-4) ready it(1)
      by (simp add: commit_success_def remote_items_def bindP_def liftP_def getP_def updateP_def succeeded_def
          no_referral_def assertMatchedDN_def assertE_def)
    then have "commit send (r, s) = (Inr (), (?r, s'))"
      using ready False sent(1) by (simp add: commit_def hereP_def thereP_def prog_defs)
    moreover have J: "journal_ok False ?r" using commit_success_ok[OF assms(3), of "OResult LDAPModifyResponse t res"] fin by simp
    moreover have v: "attr_values e' = attr_values (cached r)" using sent(7) V(2) values_in_state[of e'] by simp
    moreover have "in_sync s' ?r"
      using J v sent(6,8) by (auto simp: in_sync_def journal_ok_def)
    ultimately show ?thesis using sent(5,8) assms(4) by (intro exI[of _ ?r] exI[of _ s'] exI[of _ e']) auto
  qed
qed

end

section \<open>The server meets the contract\<close>

text \<open>A request over the wire: the message as it is decoded, and the response as the client decodes it.\<close>

definition call :: "world \<Rightarrow> int \<Rightarrow> server sender" where
  "call w i op s =
     (case handle_async w (canon_message (OMessage (class_tag LDAPMessage) i op None)) s of
        (Some e, s') \<Rightarrow> (Inl ConnectionDone, s')
      | (None, s') \<Rightarrow>
          if length (sent s') = length (sent s) then (Inl OutsideModel, s')
          else (Inr (canon_op (msg_value (last (sent s')))), s'))"

definition stored_at :: "server \<Rightarrow> dn \<Rightarrow> entry option" where
  "stored_at s d = (case lookup d (stree s) of Inl e \<Rightarrow> None | Inr p \<Rightarrow> view (stree s) p)"

lemma canon_mod_good: "good_mod False m \<Longrightarrow> canon_mod m = m"
proof -
  have id: "canon v = v" if "good_text False v" for v
    using that by (cases v) (simp_all add: good_text_def)
  have "mkAttributeSet (canon (akey a)) (map canon (avals a)) = a" if "good_mod False m" "mod_set m = a" for a
  proof -
    have "map canon (avals a) = avals a" using that id by (intro map_idI) (auto simp: good_mod_def good_set_def)
    moreover have "rev (remdups (rev (avals a))) = avals a"
      using that by (simp add: good_mod_def good_set_def attrset_ok_def distinct_remdups_id)
    ultimately show ?thesis using that id by (simp add: mkAttributeSet_def good_mod_def)
  qed
  then show "good_mod False m \<Longrightarrow> ?thesis" by (cases m) simp_all
qed

lemma lookup_same_names:
  assumes "tree_ok n" "tree_ok n'" "\<And>p. map_option edn (view n' p) = map_option edn (view n p)"
  shows "lookup d n' = lookup d n"
proof (cases "lookup d n")
  case (Inr p)
  then obtain e where "view n p = Some e" "dn_eq d (edn e)" using lookup_view[OF assms(1)] by blast
  then have "lookup d n' = Inr p" using lookup_view[OF assms(2), of d p] assms(3)[of p] by (cases "view n' p") auto
  then show ?thesis using Inr by simp
next
  case (Inl e)
  have "\<exists>e'. lookup d n' = Inl e'"
  proof (cases "lookup d n'")
    case (Inr p)
    then obtain e' where "view n' p = Some e'" "dn_eq d (edn e')" using lookup_view[OF assms(2)] by blast
    then have "lookup d n = Inr p" using lookup_view[OF assms(1), of d p] assms(3)[of p] by (cases "view n p") auto
    then show ?thesis using Inl by simp
  qed simp
  then show ?thesis using Inl lookup_error by metis
qed

lemma modify_tree_stored:
  assumes "tree_ok root" "lookup d root = Inr p" "at_path p root = Some n"
    and "modify_patch op (nentry n) = (None, e')" "edn e' = edn (nentry n)" "mop_dn op = d"
  shows "\<exists>root'. modify_tree op root = (None, root') \<and> tree_ok root' \<and> view root' = (view root)(p \<mapsto> e') \<and>
    (\<forall>d'. lookup d' root' = lookup d' root)"
proof -
  let ?root = "on_path p (set_entry e') root"
  have m: "modify_tree op root = (None, ?root)" using assms(2-4,6) by (simp add: modify_tree_def)
  have v: "view ?root = (view root)(p \<mapsto> e')"
    using modify_tree_view(2)[of op root p n] assms m by simp
  have "tree_ok n" using tree_ok_at[OF assms(1,3)] by blast
  then have "tree_ok (set_entry e' n)" using assms(5) by (simp add: tree_ok_iff)
  then have t: "tree_ok ?root" using tree_ok_on_path[OF assms(1,3), of "set_entry e'"] assms(5) by simp
  have "map_option edn (view ?root q) = map_option edn (view root q)" for q
    using assms(3,5) by (auto simp: v view_def)
  from lookup_same_names[OF assms(1) t this] show ?thesis using m v t by blast
qed


text \<open>An identifier that a message can have: not the one of notices, and not beyond all bounds.\<close>

definition id_ok :: "int \<Rightarrow> bool" where
  "id_ok i \<longleftrightarrow> i \<noteq> 0 \<and> length (int2ber i True) \<le> 256"

lemma answer_size:
  assumes "id_ok i"
  shows "wire_size (in_message i (ldap_response LDAPModifyResponse 0 None None)) < limit"
proof -
  have "int_size i \<le> 256 + hdr" using assms by (simp add: id_ok_def int_size_def)
  moreover have "int_size 0 = 1 + hdr" by (simp add: int_size_def int2ber_def int2ber_loop.simps)
  ultimately show ?thesis
    by (simp add: in_message_def ldap_response_def seq_size_def text_size_def hdr_def limit_def opt_size_def result_size_def)
qed

lemma modify_call:
  assumes "id_ok i" "tree_ok (stree s)" "stored_at s d = Some e" "dn_ok d" "uniform False e"
    and "\<forall>m \<in> set ms. good_mod False m" "replay ms (attr_state e) = Some V"
  shows "\<exists>t res s' e'. call w i (OModifyRequest (class_tag LDAPModifyRequest) (Some (Str (dn_text d))) (Some (map mod_asLDAP ms))) s =
         (Inr (OResult LDAPModifyResponse t res), s') \<and>
       resultCode res = 0 \<and> referral res = None \<and> matchedDN res = Byt [] \<and>
       tree_ok (stree s') \<and> uniform False e' \<and> attr_state e' = V \<and>
       (\<forall>d'. stored_at s' d' = (if dn_eq d' d then Some e' else stored_at s d'))"
proof -
  let ?op = "\<lparr>mop_dn = d, modifications = ms\<rparr>"
  let ?req = "OModifyRequest (class_tag LDAPModifyRequest) (Some (Str (dn_text d))) (Some (map mod_asLDAP ms))"
  have req: "?req = modify_asLDAP ?op" by (simp add: modify_asLDAP_def class_simps)
  have "map canon_mod ms = ms" using assms(6) canon_mod_good by (simp add: map_idI)
  then have from_wire: "modify_fromLDAP (canon_op ?req) = Inr ?op"
    unfolding req using modify_fromLDAP_canon[of ?op] assms(4) by (simp del: canon_op.simps)
  obtain p n where p: "lookup d (stree s) = Inr p" "at_path p (stree s) = Some n" "nentry n = e"
    using assms(3) by (auto simp: stored_at_def view_def split: sum.splits)
  obtain e' where e': "for_each mod_patch ms e = (None, e')" "uniform False e'" "edn e' = edn e" "attr_state e' = V"
    using replay_patch[OF assms(5,6,7)] by blast
  have patch: "modify_patch ?op (nentry n) = (None, e')" using e'(1) p(3) by (simp add: modify_patch_def)
  obtain root' where root': "modify_tree ?op (stree s) = (None, root')" "tree_ok root'" "view root' = (view (stree s))(p \<mapsto> e')"
    "\<And>d'. lookup d' root' = lookup d' (stree s)"
    using modify_tree_stored[OF assms(2) p(1,2) patch] e'(3) p(3) by auto
  let ?s = "s\<lparr>stree := root'\<rparr>" and ?r = "ldap_response LDAPModifyResponse 0 None None"
  have stored: "stored_at (?s\<lparr>sent := x\<rparr>) d' = (if dn_eq d' d then Some e' else stored_at s d')" for x d'
  proof -
    have at: "view (stree s) p = Some e" using p(2,3) by (simp add: view_def)
    then have lk: "lookup x (stree s) = Inr p \<longleftrightarrow> dn_eq x (edn e)" for x
      using lookup_view[OF assms(2), of x p] by simp
    have "dn_eq d (edn e)" using p(1) lk by blast
    then have "dn_eq d' d \<longleftrightarrow> lookup d' (stree s) = Inr p" unfolding lk by (meson dn_eq_sym dn_eq_trans)
    then show ?thesis by (auto simp: stored_at_def root'(3,4) split: sum.split)
  qed
  have h: "handler w (canon_op ?req) None reply s = (Inr (Some ?r), ?s)" for reply
    using from_wire root'(1)
    by (simp add: class_simps some_response_def handle_LDAPModifyRequest_def bindP_def liftP_def effectP_def returnP_def)
  have "wire_size (in_message i ?r) < limit" by (rule answer_size[OF assms(1)])
  then obtain wr where wr: "toWire (in_message i ?r) = Inr wr"
    using fits_message[of ?r "class_tag LDAPMessage" i None] unfolding fits_def in_message_def by auto
  let ?s' = "?s\<lparr>sent := sent s @ [in_message i ?r]\<rparr>"
  have "handle_async w (canon_message (OMessage (class_tag LDAPMessage) i ?req None)) s = (None, ?s')"
    using h assms(1) wr
    by (simp add: handle_async_def canon_message_def handle_message_def bindP_def unlessP_def catchP_def returnP_def
       respond_in_message id_ok_def del: toWire.simps canon_op.simps)
  then have c: "call w i ?req s = (Inr (canon_op ?r), ?s')"
    by (simp add: call_def in_message_def del: canon_op.simps)
  moreover have "canon_op ?r = OResult LDAPModifyResponse (class_tag (CResult LDAPModifyResponse)) (canon_result (result ?r))"
    by (simp add: ldap_response_def)
  moreover have "resultCode (canon_result (result ?r)) = 0" "referral (canon_result (result ?r)) = None"
      "matchedDN (canon_result (result ?r)) = Byt []"
    by (simp_all add: ldap_response_def canon_result_def canon_referral_def utf8_encode_def)
  moreover have "tree_ok (stree ?s')" using root'(2) by simp
  ultimately show ?thesis using stored e'(2,4) by metis
qed

interpretation served: directory "call w i" stored_at "\<lambda>s. id_ok i \<and> tree_ok (stree s)" for w i
proof (unfold_locales, goal_cases)
  case (1 s d e ms V)
  then show ?case using modify_call[of i s d e ms V w] by blast
qed

end
