(* ===== verification/RemoteSearch.thy ===== *)
theory RemoteSearch
  imports RemoteCommit
begin

text \<open>
  A search of a remote entry from one end to the other: what the server sends, what the client makes of
  it, and the entries that the caller gets. At the end, outcomes that the callers would not expect.
\<close>

section \<open>What the server sends for a search\<close>

definition entry_message :: "node \<Rightarrow> ber" where
  "entry_message m =
     OSearchResultEntry (class_tag LDAPSearchResultEntry) (Str (dn_text (edn (nentry m))))
       (case entry_items (nentry m) of Inl e \<Rightarrow> [] | Inr items \<Rightarrow> items)"

definition search_end :: ber where
  "search_end = ldap_response LDAPSearchResultDone (result_code Success) None None"

text \<open>A node whose entry can be sent.\<close>

definition sendable :: "int \<Rightarrow> node \<Rightarrow> bool" where
  "sendable i m \<longleftrightarrow> (\<exists>items w. entry_items (nentry m) = Inr items \<and> toWire (in_message i (entry_message m)) = Inr w)"

lemma entry_sent:
  assumes "sendable i m"
  shows "as_callback (sendEntryToClient [] (respond i)) m s = (None, s\<lparr>sent := sent s @ [in_message i (entry_message m)]\<rparr>)"
proof -
  obtain items w where "entry_items (nentry m) = Inr items" "toWire (in_message i (entry_message m)) = Inr w"
    using assms by (auto simp: sendable_def)
  then show ?thesis
    by (simp add: as_callback_def sendEntryToClient_def filtered_attribs_def bindP_def liftP_def
        respond_in_message entry_message_def del: toWire.simps)
qed

lemma entries_sent_in_order:
  assumes "\<forall>m \<in> set ns. match (nentry m) f = Inr (holds (nentry m) f)"
    and "\<forall>m \<in> set ns. holds (nentry m) f \<longrightarrow> sendable i m"
  shows "for_each (\<lambda>m s. case match (nentry m) f of Inl exc \<Rightarrow> (Some exc, s)
      | Inr b \<Rightarrow> if b then as_callback (sendEntryToClient [] (respond i)) m s else (None, s)) ns s =
    (None, s\<lparr>sent := sent s @ map (\<lambda>m. in_message i (entry_message m)) (filter (\<lambda>m. holds (nentry m) f) ns)\<rparr>)"
  using assms
proof (induction ns arbitrary: s)
  case (Cons m ns)
  then show ?case by (cases "holds (nentry m) f") (simp_all add: entry_sent)
qed simp

lemma search_served:
  assumes "i \<noteq> 0" "base \<noteq> Byt []" "dn_of base = Inr d" "lookup d (stree s) = Inr p" "at_path p (stree s) = Some n"
    and "supported ends_only f" "scope_nodes (Some sc) n = Inr ns"
    and "\<forall>m \<in> set ns. holds (nentry m) f \<longrightarrow> sendable i m" "toWire (in_message i search_end) = Inr wr"
  shows "handle_async w (OMessage t i (OSearchRequest t' base sc deref slim tlim ty f []) None) s =
    (None, s\<lparr>sent := sent s @ map (in_message i) (map entry_message (filter (\<lambda>m. holds (nentry m) f) ns) @ [search_end])\<rparr>)"
proof -
  let ?s = "s\<lparr>sent := sent s @ map (\<lambda>m. in_message i (entry_message m)) (filter (\<lambda>m. holds (nentry m) f) ns)\<rparr>"
  have "search parseFilter None (Some f) (Some sc) (as_callback (sendEntryToClient [] (respond i))) n s = (None, ?s)" for parseFilter
    using entries_sent_in_order[OF _ assms(8), of s] match_holds[OF assms(6)]
    by (simp add: search_def choose_filter_def assms(7))
  then have "handle_LDAPSearchRequest pf et base sc f [] None (respond i) s = (Inr search_end, ?s)" for pf et
    using assms(2-5)
    by (simp add: handle_LDAPSearchRequest_def cbSearchGotBase_def lookup_object_def bindP_def liftP_def catchP_def
        getP_def returnP_def effectP_def search_end_def)
  then show ?thesis
    using assms(1,9)
    by (simp add: handle_async_def handle_message_def some_response_def bindP_def unlessP_def catchP_def returnP_def
        respond_in_message comp_def del: toWire.simps)
qed

section \<open>What the client makes of it\<close>

definition remote_of :: "bool \<Rightarrow> node \<Rightarrow> remote" where
  "remote_of c m = remote_init (edn (nentry m))
     (attributes_of (map (\<lambda>(k, vs). (canon k, map canon vs)) (case entry_items (nentry m) of Inl e \<Rightarrow> [] | Inr items \<Rightarrow> items))) c"

lemma entry_received:
  assumes "dn_ok (edn (nentry m))"
  shows "cbSearchMsg append_entry cmp nf (WithControls (canon_op (entry_message m)) ctl) st =
    (Inr False, st\<lparr>found := found st @ [remote_of cmp m]\<rparr>)"
proof -
  have "dn_of (canon (Str (dn_text (edn (nentry m))))) = Inr (edn (nentry m))"
    using dn_of_text_show[OF assms] by (simp add: dn_of_def)
  then show ?thesis
    by (simp add: entry_message_def cbSearchEntry_def append_entry_def remote_of_def bindP_def liftP_def effectP_def returnP_def)
qed

lemma end_received:
  assumes "sslot st = None"
  shows "cbSearchMsg cb cmp nf (WithControls (canon_op search_end) ctl) st = (Inr True, st\<lparr>sslot := Some (Inr ctl)\<rparr>)"
  using assms
  by (simp add: search_end_def ldap_response_def search_done_def canon_result_def canon_referral_def no_referral_def
      assertMatchedDN_def assertE_def set_slot_def bindP_def liftP_def getP_def unlessP_def updateP_def returnP_def utf8_encode_def)

abbreviation searching :: "nat \<Rightarrow> bool \<Rightarrow> bool \<Rightarrow> (remote list search_state) pending" where
  "searching k cmp nf \<equiv> \<lparr>pslot = k, return_controls = True, phandler = Some (cbSearchMsg append_entry cmp nf)\<rparr>"

lemma entries_handled:
  assumes "client_inv c" "map_of (onwire c) i = Some (searching k cmp nf)" "i \<noteq> 0" "upgrading c = None"
    and "\<forall>m \<in> set ms. dn_ok (edn (nentry m))"
  shows "for_each handle_response (map canon_message (map (in_message i) (map entry_message ms))) c =
    (None, c\<lparr>app := (app c)\<lparr>found := found (app c) @ map (remote_of cmp) ms\<rparr>\<rparr>)"
  using assms
proof (induction ms arbitrary: c)
  case (Cons m ms)
  let ?c = "c\<lparr>app := (app c)\<lparr>found := found (app c) @ [remote_of cmp m]\<rparr>\<rparr>"
  have r: "is_response (canon_op (entry_message m))" by (simp add: entry_message_def)
  have "handle_response (canon_message (in_message i (entry_message m))) c = (None, ?c)"
    using handle_response_verdict[OF Cons.prems(1,2) r Cons.prems(3), of "0x10" None] Cons.prems(4,5)
    by (simp add: canon_message_def in_message_def verdict_def answer_to_def see_upgrade_def entry_received del: canon_op.simps cbSearchMsg.simps)
  moreover have "client_inv ?c" "map_of (onwire ?c) i = Some (searching k cmp nf)" "upgrading ?c = None"
    using Cons.prems by simp_all
  ultimately show ?case using Cons.IH[of ?c] Cons.prems(3,5) by simp
qed simp

lemma search_handled:
  assumes "client_inv c" "map_of (onwire c) i = Some (searching k cmp nf)" "i \<noteq> 0" "upgrading c = None"
    and "\<forall>m \<in> set ms. dn_ok (edn (nentry m))" "sslot (app c) = None"
  shows "for_each handle_response (map canon_message (map (in_message i) (map entry_message ms @ [search_end]))) c =
    (None, c\<lparr>app := \<lparr>sslot = Some (Inr None), found = found (app c) @ map (remote_of cmp) ms\<rparr>,
       slots_of := (slots_of c)[k := Some (Value (WithControls (canon_op search_end) None))],
       onwire := filter (\<lambda>q. fst q \<noteq> i) (onwire c)\<rparr>)"
proof -
  let ?c = "c\<lparr>app := (app c)\<lparr>found := found (app c) @ map (remote_of cmp) ms\<rparr>\<rparr>"
  have c: "client_inv ?c" "map_of (onwire ?c) i = Some (searching k cmp nf)" using assms(1,2) by simp_all
  have r: "is_response (canon_op search_end)" by (simp add: search_end_def ldap_response_def)
  have s: "sslot (app ?c) = None" using assms(6) by simp
  have "handle_response (canon_message (in_message i search_end)) ?c =
      (None, ?c\<lparr>app := \<lparr>sslot = Some (Inr None), found = found (app c) @ map (remote_of cmp) ms\<rparr>,
       slots_of := (slots_of c)[k := Some (Value (WithControls (canon_op search_end) None))],
       onwire := filter (\<lambda>q. fst q \<noteq> i) (onwire c)\<rparr>)"
    using handle_response_verdict[OF c r assms(3), of "0x10" None] assms(4,6) end_received[OF s]
    by (simp add: canon_message_def in_message_def verdict_def answer_to_def see_upgrade_def del: canon_op.simps cbSearchMsg.simps)
  then show ?thesis using entries_handled[OF assms(1-5)] by (simp add: for_each_append)
qed

lemma good_bytes: "good_text False v \<Longrightarrow> canon v = v \<and> Byt (to_bytes v) = v"
  by (cases v) (simp_all add: good_text_def)

lemma attributes_of_good:
  assumes "good_items False items"
  shows "attributes_of (map (\<lambda>(k, vs). (canon k, map canon vs)) items) = items"
proof -
  have "foldl (\<lambda>d (key, vs). dict_set (Byt (to_bytes key)) (map (\<lambda>x. Byt (to_bytes x)) vs) d) d
      (map (\<lambda>(k, vs). (canon k, map canon vs)) xs) = d @ xs"
    if "distinct (map fst d @ map fst xs)" "\<forall>(k, vs) \<in> set xs. good_text False k \<and> (\<forall>v \<in> set vs. good_text False v)"
    for d and xs :: "(pytext \<times> pytext list) list"
    using that
  proof (induction xs arbitrary: d)
    case (Cons x xs)
    obtain k vs where x: "x = (k, vs)" by (cases x)
    have k: "canon k = k" "Byt (to_bytes k) = k" using Cons.prems(2) good_bytes by (auto simp: x)
    have vs: "map (\<lambda>x. Byt (to_bytes x)) (map canon vs) = vs"
      using Cons.prems(2) good_bytes by (intro map_idI[of vs, folded o_def, THEN trans[rotated]]) (auto simp: x comp_def)
    have "map_of d k = None" using Cons.prems(1) by (auto simp: x map_of_eq_None_iff)
    then have "dict_set (Byt (to_bytes (canon k))) (map (\<lambda>x. Byt (to_bytes x)) (map canon vs)) d = d @ [x]"
      unfolding vs using k by (simp add: dict_set_new x)
    then show ?case using Cons.IH[of "d @ [x]"] Cons.prems by (simp add: x)
  qed simp
  moreover have "distinct (map fst items)"
    using assms by (metis distinct_map good_items_def map_map)
  ultimately show ?thesis using assms by (simp add: attributes_of_def good_items_def)
qed

text \<open>An entry as a client gets it: the name and the values of the entry of the server, nothing journalled.\<close>

definition fetched_from :: "entry \<Rightarrow> remote \<Rightarrow> bool" where
  "fetched_from e r \<longleftrightarrow> edn (cached r) = edn e \<and> attr_values (cached r) = attr_values e \<and>
     remoteData r = cached r \<and> journal_of r = [] \<and> rstate r = Ready_state \<and> journal_ok False r"

lemma remote_of_fetched:
  assumes "uniform False (nentry m)"
  shows "fetched_from (nentry m) (remote_of cmp m)"
proof -
  obtain items where it: "entry_items (nentry m) = Inr items" "good_items False items"
    "\<And>f. attr_values (nentry m) f =
      (case map_of (map (\<lambda>(k, vs). (normalize_key k, vs)) items) f of None \<Rightarrow> {} | Some vs \<Rightarrow> set vs)"
    using entry_items_good[OF assms] by blast
  let ?e = "entry_init (edn (nentry m)) items"
  have e: "eattrs ?e = built items" "edn ?e = edn (nentry m)"
    using it(2) by (simp_all add: entry_init_built good_items_def)
  have r: "remote_of cmp m = remote_init (edn (nentry m)) items cmp"
    using attributes_of_good[OF it(2)] it(1) by (simp add: remote_of_def)
  note b = built_facts[OF it(2) e(1)]
  have "attr_values ?e = attr_values (nentry m)" using b(3) it(3) by (simp add: fun_eq_iff)
  then show ?thesis
    using e b(1,2) by (auto simp: fetched_from_def r remote_init_def intro!: journal_ok_fresh)
qed

lemma sendable_good:
  assumes "uniform False (nentry m)" "wire_size (in_message i (entry_message m)) < limit"
  shows "sendable i m"
proof -
  have "wf_op (entry_message m)" by (simp add: entry_message_def class_simps)
  then have "\<exists>w. toWire (in_message i (entry_message m)) = Inr w"
    using fits_message[of "entry_message m" "class_tag LDAPMessage" i None] assms(2)
    unfolding in_message_def fits_def by auto
  then show ?thesis using entry_items_good[OF assms(1)] by (auto simp: sendable_def)
qed

lemma all_encode: "\<forall>x \<in> set xs. \<exists>w. encodes x w \<Longrightarrow> \<exists>ws. list_all2 encodes xs ws"
  by (induction xs) (auto intro: list.rel_intros)

lemma sendable_encodes: "sendable i m \<Longrightarrow> \<exists>w. encodes (in_message i (entry_message m)) w"
proof -
  have "wf_op (entry_message m)" by (simp add: entry_message_def class_simps)
  then show "sendable i m \<Longrightarrow> ?thesis" unfolding sendable_def encodes_def in_message_def by auto
qed

section \<open>A search from one end to the other\<close>

lemma search_over_the_wire:
  assumes inv: "client_inv c" "is_connected c" "has_lock c" "has_stream c" "\<not> stream_broken c" "upgrading c = None"
    and st: "app c = \<lparr>sslot = None, found = []\<rparr>" and i: "i = next_id c" "i \<noteq> 0"
    and op: "op = OSearchRequest (class_tag LDAPSearchRequest) (Str (dn_text d)) sc LDAP_DEREF_neverDerefAliases 0 0 0 f []"
    and wq: "toWire (OMessage (class_tag LDAPMessage) i op None) = Inr wq"
    and d: "dn_ok d" "d \<noteq> []" "lookup d (stree s) = Inr p" "at_path p (stree s) = Some n"
    and f: "supported ends_only (canon_filter f)" and ns: "scope_nodes (Some sc) n = Inr ns"
    and good: "\<forall>m \<in> set ns. uniform False (nentry m) \<and> dn_ok (edn (nentry m)) \<and> wire_size (in_message i (entry_message m)) < limit"
    and small: "wire_size (in_message i search_end) < limit"
  defines "hits \<equiv> filter (\<lambda>m. holds (nentry m) (canon_filter f)) ns"
  shows "\<exists>c1 s' ws. send_and_wait op None True (Some (cbSearchMsg append_entry True False)) c = (Inr (length (slots_of c)), c1) \<and>
    written c1 = written c @ [wq] \<and>
    handle_async w (canon_message (OMessage (class_tag LDAPMessage) i op None)) s = (None, s') \<and>
    stree s' = stree s \<and> list_all2 encodes (drop (length (sent s)) (sent s')) ws \<and>
    (\<forall>chunks. concat chunks = concat ws \<longrightarrow>
      (\<exists>c2. client_read_from_stream handle_response chunks [] c1 = (None, [], c2) \<and>
         onwire c2 = onwire c \<and> search_result (None, app c2) = Inr (map (remote_of True) hits, None)))"
proof -
  let ?h = "cbSearchMsg append_entry True False"
  have "needs_answer op" by (simp add: op needs_answer_def)
  then have snd: "send_and_wait op None True (Some ?h) c =
      (Inr (length (slots_of c)), (put i True (Some ?h) (c\<lparr>next_id := i + 1\<rparr>))\<lparr>written := written c @ [wq]\<rparr>)" (is "_ = (_, ?c1)")
    using send_works[OF inv(1-5)] wq unfolding i(1) by blast
  have hits: "\<forall>m \<in> set hits. uniform False (nentry m) \<and> dn_ok (edn (nentry m)) \<and> wire_size (in_message i (entry_message m)) < limit"
    using good by (simp add: hits_def)
  let ?ms = "map entry_message hits @ [search_end]"
  let ?s = "s\<lparr>sent := sent s @ map (in_message i) ?ms\<rparr>"
  have wf: "wf_op search_end" by (simp add: search_end_def)
  obtain wr where wr: "toWire (in_message i search_end) = Inr wr"
    using fits_message[OF wf, of "class_tag LDAPMessage" i None] small unfolding in_message_def fits_def by auto
  have "canon_message (OMessage (class_tag LDAPMessage) i op None) =
      OMessage 0x10 i (OSearchRequest (class_tag LDAPSearchRequest) (canon (Str (dn_text d))) sc LDAP_DEREF_neverDerefAliases 0 0
        (truth_value 0) (canon_filter f) []) None"
    by (simp add: canon_message_def op)
  moreover have "dn_of (canon (Str (dn_text d))) = Inr d" using dn_of_text_show[OF d(1)] by (simp add: dn_of_def)
  moreover have "canon (Str (dn_text d)) \<noteq> Byt []"
  proof -
    have "dn_text d \<noteq> []"
      using \<open>dn_of (canon (Str (dn_text d))) = Inr d\<close> d(2) by (auto simp: dn_of_def dn_of_text_def splitOnNotEscaped_def)
    then show ?thesis by (cases "dn_text d") (auto simp: utf8_encode_def utf8_char_def Let_def)
  qed
  moreover have "\<forall>m \<in> set ns. holds (nentry m) (canon_filter f) \<longrightarrow> sendable i m" using good sendable_good by blast
  ultimately have srv: "handle_async w (canon_message (OMessage (class_tag LDAPMessage) i op None)) s = (None, ?s)"
    using search_served[OF i(2) _ _ d(3,4) f ns _ wr] unfolding hits_def by simp
  have "\<forall>x \<in> set (map (in_message i) ?ms). \<exists>w. encodes x w"
  proof
    fix x assume "x \<in> set (map (in_message i) ?ms)"
    then consider m where "m \<in> set hits" "x = in_message i (entry_message m)" | "x = in_message i search_end" by auto
    then show "\<exists>w. encodes x w"
    proof cases
      case 1
      then show ?thesis using sendable_encodes sendable_good hits by blast
    next
      case 2
      then show ?thesis using wr wf unfolding encodes_def in_message_def by auto
    qed
  qed
  then obtain ws where ws: "list_all2 encodes (map (in_message i) ?ms) ws"
    using all_encode by blast
  let ?k = "length (slots_of c)"
  have old: "map_of (onwire c) i = None" "\<forall>q \<in> set (onwire c). fst q \<noteq> i"
    using inv(1) i(1) by (force simp: client_inv_def map_of_eq_None_iff)+
  have c1: "client_inv ?c1" "map_of (onwire ?c1) i = Some (searching ?k True False)" "upgrading ?c1 = None" "sslot (app ?c1) = None"
    using put_inv[OF inv(1,2), of True "Some ?h"] old(1) inv(6) st i(1) by (simp_all add: put_def map_add_def)
  have each: "for_each handle_response (map canon_message (map (in_message i) ?ms)) ?c1 = (None,
      ?c1\<lparr>app := \<lparr>sslot = Some (Inr None), found = map (remote_of True) hits\<rparr>,
       slots_of := (slots_of ?c1)[?k := Some (Value (WithControls (canon_op search_end) None))],
       onwire := filter (\<lambda>q. fst q \<noteq> i) (onwire ?c1)\<rparr>)" (is "_ = (None, ?c2)")
    using search_handled[OF c1(1,2) i(2) c1(3) _ c1(4), of hits] hits st by (simp add: put_def)
  have "client_read_from_stream handle_response chunks [] ?c1 = (None, [], ?c2)" if "concat chunks = concat ws" for chunks
    using client.reader_frames[OF encodes_frames[OF ws] client.partial_Nil client.partial_Nil,
        of chunks handle_response ?c1] deliver_checked[of handle_response "map (in_message i) ?ms" ?c1] each that
    by (simp del: for_each.simps map_map map_append)
  moreover have "onwire ?c2 = onwire c" using old(2) by (simp add: put_def filter_True)
  moreover have "search_result (None, app ?c2) = Inr (map (remote_of True) hits, None)" by simp
  ultimately show ?thesis
    using snd srv ws
    by (intro exI[of _ ?c1] exI[of _ ?s] exI[of _ ws] conjI) (auto simp del: map_map map_append)
qed

section \<open>Outcomes that callers would not expect\<close>

text \<open>A search that the server cut short at a limit of its size is taken to have ended well.\<close>

lemma size_limit_taken_for_success:
  assumes "resultCode r = result_code LDAPSizeLimitExceeded" "referral r = None" "matchedDN r \<in> {Str [], Byt []}"
  shows "search_result (deliver_answers (cbSearchMsg cb cmp nonfatal) [WithControls (OResult LDAPSearchResultDone t r) ctl]
    \<lparr>sslot = None, found = x\<rparr>) = Inr (x, ctl)"
proof -
  have "get_exception 4 (errorMessage r) = Inr (Known LDAPSizeLimitExceeded (Some (errorMessage r)))"
    using get_instance_code[of LDAPSizeLimitExceeded] by (simp add: get_exception_def get_instance_def)
  then show ?thesis
    using assms
    by (auto simp: search_done_def no_referral_def assertMatchedDN_def assertE_def set_slot_def bindP_def liftP_def
        getP_def unlessP_def updateP_def returnP_def)
qed

text \<open>What is edited while a commit is under way is forgotten with the journal that was sent before.\<close>

lemma commit_success_forgets:
  assumes "journal_ok b r1" "rstate r1 = Ready_state" "msg = OResult LDAPModifyResponse t res"
    and "resultCode res = 0" "referral res = None" "matchedDN res \<in> {Str [], Byt []}"
  shows "\<exists>r2. commit_success msg r1 = (Inr (), r2) \<and> journal_of r2 = [] \<and> cached r2 = cached r1 \<and>
    attr_values (remoteData r2) = attr_values (cached r1) \<and> commit send (r2, s) = (Inr (), (r2, s))"
proof -
  have ready: "checkState r1 = (Inr (), r1)" using assms(2) by (simp add: checkState_def prog_defs)
  obtain items where it: "entry_items (cached r1) = Inr items"
    using entry_items_good[of b "cached r1"] assms(1) by (auto simp: journal_ok_def)
  let ?r = "r1\<lparr>remoteData := entry_init (edn (cached r1)) items, journal_of := []\<rparr>"
  have fin: "commit_success msg r1 = (Inr (), ?r)"
    using assms(3-6) ready it
    by (auto simp: commit_success_def remote_items_def bindP_def liftP_def getP_def updateP_def succeeded_def
        no_referral_def assertMatchedDN_def assertE_def)
  then have "attr_values (remoteData ?r) = attr_values (cached r1)"
    using commit_success_ok[OF assms(1), of msg] by (simp add: journal_ok_def)
  moreover have "commit send (?r, s) = (Inr (), (?r, s))"
    using assms(2) by (simp add: commit_def hereP_def checkState_def prog_defs)
  ultimately show ?thesis using fin by auto
qed

text \<open>An entry is out of use as soon as its deletion is asked for, also when the server refuses.\<close>

lemma refused_delete:
  assumes "rstate r = Ready_state" "send (OOctetString LDAPDelRequest (class_tag (COctetString LDAPDelRequest))
      (Str (dn_text (edn (cached r))))) s = (Inr msg, s')"
  shows "remote_delete send (r, s) = (delete_done msg, (r\<lparr>rstate := Deleted_state\<rparr>, s'))"
    and "fst (perform_edit ed (r\<lparr>rstate := Deleted_state\<rparr>)) = Inl ObjectDeletedError"
proof -
  show "remote_delete send (r, s) = (delete_done msg, (r\<lparr>rstate := Deleted_state\<rparr>, s'))"
    using assms by (simp add: remote_delete_def hereP_def thereP_def checkState_def prog_defs)
  show "fst (perform_edit ed (r\<lparr>rstate := Deleted_state\<rparr>)) = Inl ObjectDeletedError"
    by (cases ed) (simp_all add: set_add_def set_update_def set_remove_def set_clear_def remote_setitem_def
        remote_delitem_def undo_def remote_getitem_def checkState_def prog_defs)
qed

text \<open>A server that shows no object classes keeps \<open>setPasswordMaybe_Samba\<close> fetching for ever.\<close>

definition classless :: "dn \<Rightarrow> 's multi_sender" where
  "classless d op ctl s =
     (Inr [WithControls (OSearchResultEntry (class_tag LDAPSearchResultEntry) (Str (dn_text d)) []) None,
           WithControls search_end None], s)"

lemma classless_fetch:
  assumes "dn_ok d"
  shows "fetch parseFilter (classless d) [Str ''objectClass''] (remote_init d [] False, s) =
    (Inr (), (remote_init d [] False, s))"
proof -
  have e: "entry_init d [] = \<lparr>edn = d, eattrs = []\<rparr>" by (simp add: entry_init_def id_empty_def id_items_def)
  have none: "entry_get (entry_init d []) (Str ''objectClass'') None = Inr None"
    by (simp add: e entry_get_def find_spelling_def id_contains_def)
  have items: "entry_items (entry_init d []) = Inr []"
    by (simp add: e entry_items_def id_items_def object_classes_def object_class_keys_def)
  have name: "dn_of (Str (dn_text d)) = Inr d" using dn_of_text_show[OF assms] by (simp add: dn_of_def)
  let ?r = "remote_init d [] False"
  have ready: "checkState ?r = (Inr (), ?r)" by (simp add: checkState_def remote_init_def prog_defs)
  have entry: "cbSearchMsg append_entry False False
      (WithControls (OSearchResultEntry t (Str (dn_text d)) []) None) st =
    (Inr False, st\<lparr>found := found st @ [?r]\<rparr>)" for t st
    by (simp add: cbSearchEntry_def append_entry_def attributes_of_def name prog_defs)
  have fin: "cbSearchMsg append_entry False False (WithControls search_end None) \<lparr>sslot = None, found = x\<rparr> =
    (Inr True, \<lparr>sslot = Some (Inr None), found = x\<rparr>)" for x
    by (simp add: search_end_def ldap_response_def search_done_def no_referral_def
      assertMatchedDN_def assertE_def set_slot_def prog_defs)
  have search: "remote_search parseFilter (classless d) None None (Some [Str ''objectClass'']) (Some LDAP_SCOPE_baseObject) None
      0 0 0 False None append_entry [] (?r, s) = (Inr ([?r], None), (?r, s))"
    by (simp add: remote_search_def search_request_def choose_filter_def hereP_def thereP_def bindP_def ready getP_def
        liftP_def classless_def entry fin del: cbSearchMsg.simps)
  have take: "take_over ?r [Str ''objectClass''] ?r = (Inr (), ?r)"
    by (simp add: take_over_def effectP_def remote_init_def none)
  have un: "undo ?r = (Inr (), ?r)"
    using ready by (simp add: undo_def bindP_def updateP_def getP_def liftP_def remote_init_def items set_items_def)
      (simp add: e id_empty_def)
  have "cbFetch [?r] [Str ''objectClass''] ?r = (Inr (), ?r)"
    by (simp add: cbFetch_def bindP_def getP_def unlessP_def returnP_def take un) (simp add: remote_init_def)
  then show ?thesis
    by (simp add: fetch_def hereP_def bindP_def getP_def unlessP_def returnP_def ready search) (simp add: remote_init_def)
qed

lemma classless_never_returns:
  assumes "dn_ok d"
  shows "setPasswordMaybe_Samba parseFilter (classless d) h send pw (remote_init d [] False, s) = None"
proof (rule ccontr)
  let ?r = "remote_init d [] False"
  assume "setPasswordMaybe_Samba parseFilter (classless d) h send pw (?r, s) \<noteq> None"
  then obtain y where y: "setPasswordMaybe_Samba parseFilter (classless d) h send pw (?r, s) = Some y" by blast
  have lacks: "lacks_classes ?r = (Inr True, ?r)"
    by (simp add: lacks_classes_def remote_has_key_def checkState_def remote_init_def entry_init_def id_empty_def id_items_def
        entry_has_key_def find_spelling_def id_contains_def prog_defs)
  have "f = classless d \<longrightarrow> x = (?r, s) \<longrightarrow> False"
    if "setPasswordMaybe_Samba pf f h' send' pw' x = Some z" for pf f h' send' pw' x z
    using that
  proof (rule setPasswordMaybe_Samba.raw_induct[where xa = "(((((pf, f), h'), send'), pw'), x)", unfolded prod.case, rotated], goal_cases)
    case (1 g pf' f' h2 send2 pw2 x2 y2)
    show ?case
    proof (intro impI)
      assume "f' = classless d" "x2 = (?r, s)"
      with 1(2) have "g pf' (classless d) h2 send2 pw2 (?r, s) = Some y2"
        by (simp add: hereP_def lacks classless_fetch[OF assms])
      from 1(1)[OF this] show False by simp
    qed
  qed
  then show False using y by blast
qed

end
