(* ===== verification/LdapDn.thy ===== *)
theory LdapDn
  imports DistinguishedName
begin

text \<open>
  \<open>ldap/dn.py\<close>: distinguished names taken apart and put together in the manner of python-ldap, beside
  the classes of \<open>distinguishedname.py\<close>, whose escaping and splitting it shares. An escaped pair of
  hexadecimal digits is an octet here, and the octets of a value are read as UTF-8.
\<close>

section \<open>The code\<close>

definition AVA_STRING :: int where "AVA_STRING = 1"
definition AVA_NONPRINTABLE :: int where "AVA_NONPRINTABLE = 4"

type_synonym flagged_ava = "string \<times> string \<times> int"

text \<open>The pattern of an attribute type: a name, or numbers with dots between.\<close>

definition ascii_digit :: "char \<Rightarrow> bool" where
  "ascii_digit c = (let n = of_char c :: nat in 48 \<le> n \<and> n \<le> 57)"

definition ascii_alpha :: "char \<Rightarrow> bool" where
  "ascii_alpha c = (let n = of_char c :: nat in 65 \<le> n \<and> n \<le> 90 \<or> 97 \<le> n \<and> n \<le> 122)"

fun fields :: "char \<Rightarrow> string \<Rightarrow> string list" where
  "fields sep [] = [[]]"
| "fields sep (c # s) =
     (if c = sep then [] # fields sep s
      else (case fields sep s of [] \<Rightarrow> [[c]] | p # ps \<Rightarrow> (c # p) # ps))"

definition attribute_name :: "string \<Rightarrow> bool" where
  "attribute_name s =
     (case s of [] \<Rightarrow> False
      | c # t \<Rightarrow> ascii_alpha c \<and> list_all (\<lambda>x. ascii_alpha x \<or> ascii_digit x \<or> x = CHR ''-'') t)"

definition attribute_oid :: "string \<Rightarrow> bool" where
  "attribute_oid s =
     (let ps = fields (CHR ''.'') s in
      2 \<le> length ps \<and> list_all (\<lambda>p. p \<noteq> [] \<and> list_all ascii_digit p) ps)"

definition is_type :: "string \<Rightarrow> bool" where
  "is_type s \<longleftrightarrow> attribute_name s \<or> attribute_oid s"

text \<open>The loop of \<open>_unescape\<close>, which gathers octets.\<close>

fun gather_octets :: "string \<Rightarrow> exn + bytes" where
  "gather_octets [] = Inr []"
| "gather_octets (c # s) =
     (if c \<noteq> backslash then bindE (gather_octets s) (\<lambda>r. Inr (utf8_char c @ r))
      else
        (case s of
           [] \<Rightarrow> Inl DECODING_ERROR
         | [a] \<Rightarrow> Inr (utf8_char a)
         | a # b # t \<Rightarrow>
             (case (hex_value a, hex_value b) of
                (Some x, Some y) \<Rightarrow> bindE (gather_octets t) (\<lambda>r. Inr (of_nat (16 * x + y) # r))
              | _ \<Rightarrow> bindE (gather_octets (b # t)) (\<lambda>r. Inr (utf8_char a @ r)))))"

definition octets_text :: "bytes \<Rightarrow> exn + string" where
  "octets_text raw =
     (case utf8_decode raw of
        Inl e \<Rightarrow> Inl (if e = UnicodeDecodeError then DECODING_ERROR else e)
      | Inr s \<Rightarrow> Inr s)"

definition unescape_value :: "string \<Rightarrow> exn + string" where
  "unescape_value s = bindE (gather_octets s) octets_text"

definition ava_flag :: "string \<Rightarrow> int" where
  "ava_flag value =
     (if list_all (\<lambda>c. let n = of_char c :: nat in 32 \<le> n \<and> n \<le> 126) value then AVA_STRING else AVA_NONPRINTABLE)"

definition flagged_ava_of :: "string \<Rightarrow> exn + flagged_ava" where
  "flagged_ava_of s =
     (let attribute = takeWhile (\<lambda>c. c \<noteq> CHR ''='') s in
      if CHR ''='' \<notin> set s \<or> \<not> is_type attribute then Inl DECODING_ERROR
      else bindE (unescape_value (tl (dropWhile (\<lambda>c. c \<noteq> CHR ''='') s)))
             (\<lambda>v. Inr (attribute, v, ava_flag v)))"

definition split_all :: "string \<Rightarrow> char \<Rightarrow> exn + string list" where
  "split_all s sep =
     (let parts = splitOnNotEscaped s sep in
      if parts = [] \<or> join [sep] parts \<noteq> s then Inl DECODING_ERROR else Inr parts)"

definition flagged_rdn_of :: "string \<Rightarrow> exn + flagged_ava list" where
  "flagged_rdn_of rdn = bindE (split_all rdn (CHR ''+'')) (mapE flagged_ava_of)"

definition str2dn_text :: "string \<Rightarrow> exn + flagged_ava list list" where
  "str2dn_text s =
     (if s = [] then Inr [] else bindE (split_all s (CHR '','')) (mapE flagged_rdn_of))"

definition str2dn :: "pytext option \<Rightarrow> exn + flagged_ava list list" where
  "str2dn dn = (case dn of None \<Rightarrow> Inr [] | Some x \<Rightarrow> bindE (to_unicode x) str2dn_text)"

definition flagged_ava_text :: "flagged_ava \<Rightarrow> string" where
  "flagged_ava_text = (\<lambda>(attribute, v, flag). escape attribute @ ''='' @ escape v)"

definition flagged_rdn_text :: "flagged_ava list \<Rightarrow> string" where
  "flagged_rdn_text rdn = join ''+'' (map flagged_ava_text rdn)"

definition dn2str :: "flagged_ava list list \<Rightarrow> string" where
  "dn2str dn = join '','' (map flagged_rdn_text dn)"

definition text_falsy :: "pytext \<Rightarrow> bool" where
  "text_falsy x \<longleftrightarrow> x = Str [] \<or> x = Byt []"

definition explode_dn :: "pytext \<Rightarrow> bool \<Rightarrow> exn + string list" where
  "explode_dn dn notypes =
     (if text_falsy dn then Inr []
      else bindE (str2dn (Some dn)) (\<lambda>d.
        Inr (map (\<lambda>rdn. if notypes then join ''+'' (map (fst \<circ> snd) rdn) else dn2str [rdn]) d)))"

definition explode_rdn :: "pytext \<Rightarrow> bool \<Rightarrow> exn + string list" where
  "explode_rdn rdn notypes =
     (if text_falsy rdn then Inr []
      else bindE (str2dn (Some rdn)) (\<lambda>d.
        case d of [] \<Rightarrow> Inl IndexError
        | parsed # rest \<Rightarrow>
            Inr (if notypes then map (fst \<circ> snd) parsed else map (\<lambda>a. dn2str [[a]]) parsed)))"

definition is_dn :: "string \<Rightarrow> exn + bool" where
  "is_dn s =
     (case str2dn (Some (Str s)) of
        Inr d \<Rightarrow> Inr True
      | Inl e \<Rightarrow> if e = DECODING_ERROR then Inr False else Inl e)"

section \<open>Reading what was escaped\<close>

lemma gather_plain: "c \<noteq> backslash \<Longrightarrow> gather_octets (c # s) = bindE (gather_octets s) (\<lambda>r. Inr (utf8_char c @ r))"
  by simp

lemma gather_escaped:
  assumes "hex_value c = None"
  shows "gather_octets (backslash # c # s) = bindE (gather_octets s) (\<lambda>r. Inr (utf8_char c @ r))"
  using assms by (cases s) auto

lemma utf8_char_small: "(of_char c :: nat) \<le> 127 \<Longrightarrow> utf8_char c = [of_nat (of_char c)]"
proof -
  assume a: "(of_char c :: nat) \<le> 127"
  then have "(of_char c :: byte) < 0x80"
    by (simp add: word_less_nat_alt of_char_of of_nat_of_char[symmetric, where 'a = byte] unsigned_of_nat take_bit_nat_eq_self)
  moreover have "of_nat (of_char c) = (of_char c :: byte)" by (rule of_nat_of_char)
  ultimately show ?thesis by (simp add: utf8_char_def Let_def del: of_nat_of_char)
qed

lemma gather_control:
  assumes "(of_char c :: nat) \<le> 31"
  shows "gather_octets ([backslash, hex_upper (of_char c div 16), hex_upper (of_char c mod 16)] @ t) =
    bindE (gather_octets t) (\<lambda>r. Inr (utf8_char c @ r))"
proof -
  let ?n = "of_char c :: nat"
  have v: "hex_value (hex_upper (?n div 16)) = Some (?n div 16)" "hex_value (hex_upper (?n mod 16)) = Some (?n mod 16)"
    using assms by (simp_all add: hex_upper_value)
  have "utf8_char c = [of_nat ?n]" using assms by (intro utf8_char_small) simp
  moreover have "16 * (?n div 16) + ?n mod 16 = ?n" by simp
  ultimately show ?thesis using v by simp
qed

lemma escaped_no_hex: "c \<in> set escapedChars \<or> c \<in> set '' #'' \<Longrightarrow> hex_value c = None"
  by (auto simp: escapedChars_def hex_value_def)

lemma gather_escape_char:
  "gather_octets (escape_char c @ t) = bindE (gather_octets t) (\<lambda>r. Inr (utf8_char c @ r))"
proof -
  consider "c \<in> set escapedChars" | "c \<notin> set escapedChars" "(of_char c :: nat) \<le> 31"
    | "c \<notin> set escapedChars" "\<not> (of_char c :: nat) \<le> 31" by blast
  then show ?thesis
  proof cases
    case 1
    then show ?thesis
      using gather_escaped[of c t] escaped_no_hex by (simp add: escape_char_def del: gather_octets.simps)
  next
    case 2
    then show ?thesis using gather_control[of c t] by (simp add: escape_char_def del: gather_octets.simps)
  next
    case 3
    then have "c \<noteq> backslash" by (auto simp: escapedChars_def)
    with 3 show ?thesis by (simp add: escape_char_def)
  qed
qed

lemma gather_escape_chars:
  "gather_octets (concat (map escape_char s) @ t) = bindE (gather_octets t) (\<lambda>r. Inr (utf8_encode s @ r))"
  by (induction s) (auto simp: gather_escape_char bindE_assoc simp del: gather_octets.simps)

lemma gather_backslashes:
  "set l \<subseteq> set '' #'' \<Longrightarrow>
   gather_octets (concat (map (\<lambda>c. [backslash, c]) l) @ t) = bindE (gather_octets t) (\<lambda>r. Inr (utf8_encode l @ r))"
proof (induction l)
  case (Cons c l)
  then have "hex_value c = None" by (intro escaped_no_hex) auto
  moreover have "set l \<subseteq> set '' #''" using Cons.prems by simp
  ultimately show ?case
    using Cons.IH gather_escaped[of c] by (simp add: bindE_assoc del: list.set gather_octets.simps)
qed simp

lemma gather_escape: "gather_octets (escape s) = Inr (utf8_encode s)"
proof (cases s rule: escape_cases)
  case (plain s1 lead trail)
  show ?thesis
    unfolding plain(2) gather_backslashes[OF plain(3)] gather_escape_chars
      gather_backslashes[OF plain(4), of "[]", unfolded append_Nil2]
    unfolding plain(1) by simp
qed

lemma unescape_value_escape: "unescape_value (escape s) = Inr s"
  by (simp add: unescape_value_def gather_escape octets_text_def)

section \<open>Names read back\<close>

definition flagged_ok :: "flagged_ava \<Rightarrow> bool" where
  "flagged_ok = (\<lambda>(t, v, f). is_type t \<and> f = ava_flag v)"

lemma fields_chars: "x \<in> set s \<Longrightarrow> x = sep \<or> (\<exists>p \<in> set (fields sep s). x \<in> set p)"
  by (induction s) (auto split: list.splits)

definition type_char :: "char \<Rightarrow> bool" where
  "type_char c \<longleftrightarrow> ascii_alpha c \<or> ascii_digit c \<or> c = CHR ''-'' \<or> c = CHR ''.''"

lemma is_type_chars: "is_type s \<Longrightarrow> s \<noteq> [] \<and> (\<forall>c \<in> set s. type_char c)"
proof -
  assume t: "is_type s"
  have "s \<noteq> []" using t by (auto simp: is_type_def attribute_name_def attribute_oid_def)
  moreover have "type_char c" if "c \<in> set s" for c
    using t that fields_chars[of c s "CHR ''.''"]
    by (auto simp: is_type_def attribute_name_def attribute_oid_def type_char_def Let_def list_all_iff split: list.splits)
  ultimately show ?thesis by blast
qed

lemma type_char_plain: "type_char c \<Longrightarrow> escape_char c = [c] \<and> c \<noteq> CHR ''='' \<and> c \<notin> set '' #''"
proof -
  assume t: "type_char c"
  have "c \<notin> set escapedChars" "c \<notin> set '' #''"
    using t by (auto simp: type_char_def ascii_alpha_def ascii_digit_def escapedChars_def)
  moreover from this have "c \<noteq> CHR ''=''" by (auto simp: escapedChars_def)
  moreover have "\<not> (of_char c :: nat) \<le> 31"
    using t by (auto simp: type_char_def ascii_alpha_def ascii_digit_def Let_def)
  ultimately show ?thesis by (simp add: escape_char_def)
qed

lemma escape_type: "is_type s \<Longrightarrow> escape s = s"
proof -
  assume "is_type s"
  then have c: "s \<noteq> []" "\<forall>c \<in> set s. escape_char c = [c] \<and> c \<noteq> CHR ''='' \<and> c \<notin> set '' #''"
    using is_type_chars type_char_plain by blast+
  then have "hd s \<notin> set '' #''" "last s \<notin> set '' #''" by simp_all
  moreover have "concat (map escape_char s) = s"
    using c(2) by (induction s) auto
  ultimately show ?thesis using c(1) by (simp add: escape_def escapedChars_leading_def escapedChars_trailing_def)
qed

lemma flagged_ava_text_eq: "flagged_ava_text = (\<lambda>a. ava_text (AVA (fst a) (fst (snd a))))"
  by (simp add: flagged_ava_text_def ava_text_def case_prod_beta fun_eq_iff)

lemma flagged_ava_read: "flagged_ok a \<Longrightarrow> flagged_ava_of (flagged_ava_text a) = Inr a"
proof (cases a)
  case (fields t v f)
  assume "flagged_ok a"
  then have t: "is_type t" "f = ava_flag v" by (simp_all add: flagged_ok_def fields)
  then have "CHR ''='' \<notin> set t" using is_type_chars type_char_plain by blast
  then have "takeWhile (\<lambda>c. c \<noteq> CHR ''='') (t @ CHR ''='' # escape v) = t"
    "dropWhile (\<lambda>c. c \<noteq> CHR ''='') (t @ CHR ''='' # escape v) = CHR ''='' # escape v"
    by (induction t) auto
  then show ?thesis
    using t by (simp add: flagged_ava_of_def flagged_ava_text_def fields escape_type unescape_value_escape)
qed

interpretation favas: separated "CHR ''+''" flagged_ava_of flagged_ava_text flagged_ok
proof
  fix a
  show "closed (CHR ''+'') (flagged_ava_text a)"
    unfolding flagged_ava_text_eq by (rule closed_ava_text) (simp_all add: escapedChars_def)
  show "hd (flagged_ava_text a) \<noteq> CHR '' ''"
    unfolding flagged_ava_text_eq by (rule avas.show_hd) simp
  show "flagged_ava_of (flagged_ava_text a) = Inr a" if "flagged_ok a" by (rule flagged_ava_read[OF that])
qed simp_all

lemma split_all_show:
  assumes "splitOnNotEscaped (join [sep] ps) sep = ps" "ps \<noteq> []"
  shows "split_all (join [sep] ps) sep = Inr ps"
  using assms by (simp add: split_all_def)

lemma flagged_ava_text_neq [simp]: "flagged_ava_text a \<noteq> []"
  by (simp add: flagged_ava_text_eq)

lemma flagged_rdn_text_eq: "flagged_rdn_text r = rdn_text (map (\<lambda>a. AVA (fst a) (fst (snd a))) r)"
  by (simp add: flagged_rdn_text_def rdn_text_def comp_def flagged_ava_text_eq)

lemma flagged_rdn_read:
  assumes "r \<noteq> []" "\<forall>a \<in> set r. flagged_ok a"
  shows "flagged_rdn_of (flagged_rdn_text r) = Inr r"
proof -
  have "splitOnNotEscaped (join ''+'' (map flagged_ava_text r)) (CHR ''+'') = map flagged_ava_text r"
    by (rule favas.split_show) simp
  then have "split_all (flagged_rdn_text r) (CHR ''+'') = Inr (map flagged_ava_text r)"
    unfolding flagged_rdn_text_def using assms(1) by (intro split_all_show) simp_all
  moreover have "mapE flagged_ava_of (map flagged_ava_text r) = Inr r"
    using assms(2) by (induction r) (auto simp: flagged_ava_read)
  ultimately show ?thesis by (simp add: flagged_rdn_of_def)
qed

definition flagged_dn_ok :: "flagged_ava list list \<Rightarrow> bool" where
  "flagged_dn_ok d \<longleftrightarrow> (\<forall>r \<in> set d. r \<noteq> [] \<and> (\<forall>a \<in> set r. flagged_ok a))"

interpretation frdns: separated "CHR '',''" flagged_rdn_of flagged_rdn_text "\<lambda>r. r \<noteq> [] \<and> (\<forall>a \<in> set r. flagged_ok a)"
  proof
  fix r
  show "closed (CHR '','') (flagged_rdn_text r)" unfolding flagged_rdn_text_eq by (rule closed_rdn_text)
  show "hd (flagged_rdn_text r) \<noteq> CHR '' ''" if "flagged_rdn_text r \<noteq> []"
    using that unfolding flagged_rdn_text_eq by (rule rdn_text_hd)
  show "flagged_rdn_of (flagged_rdn_text r) = Inr r" if "r \<noteq> [] \<and> (\<forall>a \<in> set r. flagged_ok a)"
    using that flagged_rdn_read by blast
qed simp_all

lemma str2dn_dn2str:
  assumes "flagged_dn_ok d"
  shows "str2dn (Some (Str (dn2str d))) = Inr d"
proof (cases d)
  case (Cons r rs)
  have ne: "\<forall>r \<in> set d. flagged_rdn_text r \<noteq> []"
    using assms by (auto simp: flagged_dn_ok_def flagged_rdn_text_eq)
  have "splitOnNotEscaped (join '','' (map flagged_rdn_text d)) (CHR '','') = map flagged_rdn_text d"
    using ne by (intro frdns.split_show) (auto simp: Cons)
  then have "split_all (dn2str d) (CHR '','') = Inr (map flagged_rdn_text d)"
    unfolding dn2str_def by (intro split_all_show) (simp_all add: Cons)
  moreover have "dn2str d \<noteq> []" using ne by (cases rs) (auto simp: dn2str_def Cons)
  moreover have "mapE flagged_rdn_of (map flagged_rdn_text d) = Inr d"
    using assms unfolding flagged_dn_ok_def by (induction d) (auto simp: flagged_rdn_read)
  ultimately show ?thesis by (simp add: str2dn_def str2dn_text_def)
qed (simp add: str2dn_def str2dn_text_def dn2str_def)

text \<open>What was read is fit to be printed.\<close>

lemma split_all_nonempty: "split_all s sep = Inr ps \<Longrightarrow> ps \<noteq> []"
  by (auto simp: split_all_def Let_def split: if_splits)

lemma flagged_ava_of_ok: "flagged_ava_of s = Inr a \<Longrightarrow> flagged_ok a"
  by (auto simp: flagged_ava_of_def flagged_ok_def Let_def split: if_splits)

lemma mapE_results: "mapE f xs = Inr ys \<Longrightarrow> (\<And>x y. f x = Inr y \<Longrightarrow> P y) \<Longrightarrow> \<forall>y \<in> set ys. P y"
  by (induction xs arbitrary: ys) auto

lemma mapE_Inr_Nil: "mapE f xs = Inr [] \<longleftrightarrow> xs = []"
  by (cases xs) auto

lemma flagged_rdn_of_ok:
  assumes "flagged_rdn_of s = Inr r"
  shows "r \<noteq> [] \<and> (\<forall>a \<in> set r. flagged_ok a)"
proof -
  obtain ps where ps: "split_all s (CHR ''+'') = Inr ps" "mapE flagged_ava_of ps = Inr r"
    using assms by (auto simp: flagged_rdn_of_def)
  then have "r \<noteq> []" using split_all_nonempty mapE_Inr_Nil by metis
  then show ?thesis using mapE_results[OF ps(2), of flagged_ok] flagged_ava_of_ok by blast
qed

lemma str2dn_ok: "str2dn x = Inr d \<Longrightarrow> flagged_dn_ok d"
  using mapE_results[OF _ flagged_rdn_of_ok]
  by (force simp: str2dn_def str2dn_text_def flagged_dn_ok_def split: option.splits if_splits)

text \<open>Text raises nothing but the error of decoding.\<close>

lemma mapE_raised: "mapE f xs = Inl e \<Longrightarrow> \<exists>x. f x = Inl e"
  by (induction xs) (auto simp: bindE_eq_Inl)

lemma utf8_decode_only: "utf8_decode b = Inl e \<Longrightarrow> e \<in> {UnicodeDecodeError, OutsideModel}"
proof (induction b rule: utf8_decode.induct)
  case (2 w ws)
  show ?case
    using 2 by (auto simp: bindE_eq_Inl split: if_splits list.splits)
qed simp

lemma gather_only: "gather_octets s = Inl e \<Longrightarrow> e = DECODING_ERROR"
proof (induction "length s" arbitrary: s rule: less_induct)
  case less
  have step: "e = DECODING_ERROR" if "bindE (gather_octets t) (\<lambda>r. Inr (f r)) = Inl e" "length t < length s" for t f
    using that less(1) by (auto simp: bindE_eq_Inl)
  consider "s = []" | c t where "s = c # t" "c \<noteq> backslash" | "s = [backslash]" | a where "s = [backslash, a]"
    | a b t where "s = backslash # a # b # t" by (metis list.exhaust)
  then show ?case
  proof cases
    case (5 a b t)
    have short: "length t < length s" "length (b # t) < length s" using 5 by simp_all
    show ?thesis
    proof (cases "hex_value a = None \<or> hex_value b = None")
      case True
      then have "bindE (gather_octets (b # t)) (\<lambda>r. Inr (utf8_char a @ r)) = Inl e"
        using less(2) 5 by (auto split: option.splits simp del: gather_octets.simps(2) simp: gather_octets.simps(2)[of backslash])
      then show ?thesis using step short(2) by blast
    next
      case False
      then obtain x y where "hex_value a = Some x" "hex_value b = Some y" by auto
      then have "bindE (gather_octets t) (\<lambda>r. Inr (of_nat (16 * x + y) # r)) = Inl e" using less(2) 5 by simp
      then show ?thesis using step short(1) by blast
    qed
  qed (use less(2) step in auto)
qed

lemma octets_text_only: "octets_text b = Inl e \<Longrightarrow> e \<in> {DECODING_ERROR, OutsideModel}"
  using utf8_decode_only[of b] by (auto simp: octets_text_def split: sum.splits)

lemma unescape_value_only: "unescape_value s = Inl e \<Longrightarrow> e \<in> {DECODING_ERROR, OutsideModel}"
  unfolding unescape_value_def bindE_eq_Inl using gather_only octets_text_only by blast

lemma flagged_ava_of_only: "flagged_ava_of s = Inl e \<Longrightarrow> e \<in> {DECODING_ERROR, OutsideModel}"
proof -
  let ?bad = "CHR ''='' \<notin> set s \<or> \<not> is_type (takeWhile (\<lambda>c. c \<noteq> CHR ''='') s)"
  let ?rest = "tl (dropWhile (\<lambda>c. c \<noteq> CHR ''='') s)"
  assume a: "flagged_ava_of s = Inl e"
  show ?thesis
  proof (cases ?bad)
    case True
    then have "flagged_ava_of s = Inl DECODING_ERROR" unfolding flagged_ava_of_def Let_def by (rule if_P)
    then show ?thesis using a by simp
  next
    case False
    then have "unescape_value ?rest = Inl e" using a unfolding flagged_ava_of_def Let_def by (simp add: bindE_eq_Inl)
    then show ?thesis by (rule unescape_value_only)
  qed
qed

lemma split_all_only: "split_all s sep = Inl e \<Longrightarrow> e = DECODING_ERROR"
  by (auto simp: split_all_def Let_def split: if_splits)

lemma parts_only:
  assumes "bindE (split_all s sep) (mapE f) = Inl e" "\<And>x. f x = Inl e \<Longrightarrow> e \<in> {DECODING_ERROR, OutsideModel}"
  shows "e \<in> {DECODING_ERROR, OutsideModel}"
proof (cases "split_all s sep")
  case (Inl e')
  then show ?thesis using assms(1) split_all_only[OF Inl] by simp
next
  case (Inr ps)
  then have "mapE f ps = Inl e" using assms(1) by simp
  then obtain x where "f x = Inl e" using mapE_raised by metis
  then show ?thesis by (rule assms(2))
qed

lemma flagged_rdn_of_only: "flagged_rdn_of s = Inl e \<Longrightarrow> e \<in> {DECODING_ERROR, OutsideModel}"
  unfolding flagged_rdn_of_def by (rule parts_only, assumption, rule flagged_ava_of_only)

lemma str2dn_only:
  assumes "str2dn (Some (Str s)) = Inl e"
  shows "e \<in> {DECODING_ERROR, OutsideModel}"
proof (cases "s = []")
  case False
  then have "bindE (split_all s (CHR '','')) (mapE flagged_rdn_of) = Inl e"
    using assms by (simp add: str2dn_def str2dn_text_def)
  then show ?thesis by (rule parts_only) (rule flagged_rdn_of_only)
qed (use assms in \<open>simp add: str2dn_def str2dn_text_def\<close>)

text \<open>The other module's names are printed alike, and so read back here too.\<close>

lemma dn2str_text: "dn2str (map (map (\<lambda>a. (attributeType a, avalue a, ava_flag (avalue a)))) d) = dn_text d"
  by (simp add: dn2str_def dn_text_def flagged_rdn_text_eq comp_def)

end
