(* ===== verification/FilterEscape.thy ===== *)
theory FilterEscape
  imports LdapDn
begin

text \<open>
  \<open>ldap/filter.py\<close>: putting values that are not to be trusted into filters. What the texts mean is
  said by a reader of the values of RFC 4515, which the package has only in its grammar of filters.
\<close>

section \<open>The code\<close>

definition hex_lower :: "nat \<Rightarrow> char" where
  "hex_lower n = ''0123456789abcdef'' ! n"

definition escaped_filter_char :: "char \<Rightarrow> string" where
  "escaped_filter_char c =
     (if c = CHR ''*'' then backslash # ''2a'' else if c = CHR ''('' then backslash # ''28''
      else if c = CHR '')'' then backslash # ''29'' else if c = backslash then backslash # ''5c''
      else if c = CHR 0x00 then backslash # ''00'' else [c])"

definition hex_escaped :: "char \<Rightarrow> string" where
  "hex_escaped c = (let n = of_char c :: nat in [backslash, hex_lower (n div 16), hex_lower (n mod 16)])"

definition escape_mode_char :: "int \<Rightarrow> char \<Rightarrow> string" where
  "escape_mode_char escape_mode c =
     (if escape_mode = 2 \<or> c < CHR ''0'' \<or> c > CHR ''z'' \<or> c \<in> {backslash, CHR ''*'', CHR ''('', CHR '')''}
      then hex_escaped c else [c])"

definition escape_filter_chars :: "pytext \<Rightarrow> int \<Rightarrow> exn + string" where
  "escape_filter_chars assertion_value escape_mode =
     (if escape_mode \<notin> {0, 1, 2} then Inl ValueError
      else bindE (to_unicode assertion_value) (\<lambda>s.
        Inr (concat (map (if escape_mode = 0 then escaped_filter_char else escape_mode_char escape_mode) s))))"

text \<open>Python's \<open>%\<close>, of a template with the conversion \<open>%s\<close> alone.\<close>

fun percent :: "string \<Rightarrow> string list \<Rightarrow> exn + string" where
  "percent [] args = (if args = [] then Inr [] else Inl TypeError)"
| "percent (c # t) args =
     (if c \<noteq> CHR ''%'' then bindE (percent t args) (\<lambda>r. Inr (c # r))
      else
        (case t of
           [] \<Rightarrow> Inl ValueError
         | d # t' \<Rightarrow>
             if d = CHR ''%'' then bindE (percent t' args) (\<lambda>r. Inr (CHR ''%'' # r))
             else if d = CHR ''s'' then
               (case args of [] \<Rightarrow> Inl TypeError | a # as \<Rightarrow> bindE (percent t' as) (\<lambda>r. Inr (a @ r)))
             else Inl OutsideModel))"

definition filter_format :: "string \<Rightarrow> pytext list \<Rightarrow> exn + string" where
  "filter_format filter_template assertion_values =
     bindE (mapE (\<lambda>value. escape_filter_chars value 0) assertion_values) (percent filter_template)"

section \<open>What an escaped value means\<close>

text \<open>The octets of a value in a filter; None where the value would have ended or would be a pattern.\<close>

fun filter_octets :: "string \<Rightarrow> bytes option" where
  "filter_octets [] = Some []"
| "filter_octets (c # s) =
     (if c = backslash then
        (case s of
           a # b # t \<Rightarrow>
             (case (hex_value a, hex_value b) of
                (Some x, Some y) \<Rightarrow> map_option ((#) (of_nat (16 * x + y))) (filter_octets t)
              | _ \<Rightarrow> None)
         | _ \<Rightarrow> None)
      else if c \<in> {CHR ''*'', CHR ''('', CHR '')'', CHR 0x00} then None
      else map_option ((@) (utf8_char c)) (filter_octets s))"

lemma hex_lower_value: "n < 16 \<Longrightarrow> hex_value (hex_lower n) = Some n"
proof -
  assume "n < 16"
  then have "n \<in> set [0 ..< 16]" by simp
  then show ?thesis
    unfolding hex_lower_def hex_value_def by (auto simp: upt_rec numeral_eq_Suc)
qed

lemma char_digits: "(of_char (c :: char) :: nat) div 16 < 16" "(of_char c :: nat) mod 16 < 16"
proof -
  have "(of_char c :: nat) < 16 * 16" using nat_of_char_less_256[of c] by simp
  then show "(of_char c :: nat) div 16 < 16" by (rule less_mult_imp_div_less)
qed simp

lemma filter_octets_hex:
  "filter_octets (hex_escaped c @ t) = map_option ((#) (of_nat (of_char c))) (filter_octets t)"
proof -
  let ?n = "of_char c :: nat"
  have "16 * (?n div 16) + ?n mod 16 = ?n" by simp
  then show ?thesis using char_digits[of c] by (simp add: hex_escaped_def Let_def hex_lower_value del: of_nat_of_char)
qed

lemma escaped_filter_char_cases:
  obtains "escaped_filter_char c = hex_escaped c" "(of_char c :: nat) \<le> 127"
  | "escaped_filter_char c = [c]" "c \<notin> {CHR ''*'', CHR ''('', CHR '')'', CHR 0x00, backslash}"
proof (cases "c \<in> {CHR ''*'', CHR ''('', CHR '')'', CHR 0x00, backslash}")
  case True
  then have "escaped_filter_char c = hex_escaped c" "(of_char c :: nat) \<le> 127"
    by (auto simp: escaped_filter_char_def hex_escaped_def hex_lower_def)
  then show ?thesis by (rule that(1))
next
  case False
  then show ?thesis by (intro that(2)) (auto simp: escaped_filter_char_def)
qed

lemma filter_octets_escaped:
  "filter_octets (escaped_filter_char c @ t) = map_option ((@) (utf8_char c)) (filter_octets t)"
proof (cases c rule: escaped_filter_char_cases)
  case 1
  then show ?thesis
    by (simp add: filter_octets_hex utf8_char_small option.map_comp comp_def del: of_nat_of_char cong: map_option_cong)
next
  case 2
  then show ?thesis by simp
qed

lemma filter_octets_mode:
  assumes "m \<noteq> 0" "(of_char c :: nat) \<le> 127"
  shows "filter_octets (escape_mode_char m c @ t) = map_option ((@) (utf8_char c)) (filter_octets t)"
proof (cases "escape_mode_char m c = hex_escaped c")
  case True
  then show ?thesis
    using assms(2) by (simp add: filter_octets_hex utf8_char_small option.map_comp comp_def del: of_nat_of_char cong: map_option_cong)
next
  case False
  then have c: "escape_mode_char m c = [c]" "\<not> c < CHR ''0''" "c \<notin> {backslash, CHR ''*'', CHR ''('', CHR '')''}"
    by (auto simp: escape_mode_char_def split: if_splits)
  have "c \<noteq> CHR 0x00" using c(2) by (auto simp: less_char_def)
  then show ?thesis using c(1,3) by simp
qed

lemma filter_octets_concat:
  "(\<And>c t. c \<in> set s \<Longrightarrow> filter_octets (f c @ t) = map_option ((@) (utf8_char c)) (filter_octets t)) \<Longrightarrow>
   filter_octets (concat (map f s)) = Some (utf8_encode s)"
  by (induction s) (auto simp: utf8_encode_def)

lemma escaped_means_value:
  assumes "to_unicode v = Inr s" "m = 0 \<or> m \<in> {1, 2} \<and> (\<forall>c \<in> set s. (of_char c :: nat) \<le> 127)"
  shows "\<exists>x. escape_filter_chars v m = Inr x \<and> filter_octets x = Some (utf8_encode s)"
proof (cases "m = 0")
  case True
  then show ?thesis
    using assms(1) filter_octets_concat[of s escaped_filter_char] filter_octets_escaped
    by (simp add: escape_filter_chars_def)
next
  case False
  then have "filter_octets (concat (map (escape_mode_char m) s)) = Some (utf8_encode s)"
    using assms(2) by (intro filter_octets_concat filter_octets_mode) auto
  then show ?thesis using False assms by (auto simp: escape_filter_chars_def)
qed

text \<open>In no mode does a value bring in a character that has a meaning in filters.\<close>

lemma hex_escaped_chars: "set (hex_escaped c) \<subseteq> insert backslash (set ''0123456789abcdef'')"
proof -
  have "length ''0123456789abcdef'' = 16" by simp
  then have "hex_lower (of_char c div 16) \<in> set ''0123456789abcdef''" "hex_lower (of_char c mod 16) \<in> set ''0123456789abcdef''"
    using char_digits[of c] unfolding hex_lower_def by (metis nth_mem)+
  moreover have "set [backslash, x, y] \<subseteq> insert backslash H" if "x \<in> H" "y \<in> H" for x y H
    using that by simp
  ultimately show ?thesis unfolding hex_escaped_def Let_def by blast
qed

definition filter_special :: "char set" where "filter_special = {CHR ''*'', CHR ''('', CHR '')'', CHR 0x00}"

lemma escape_chars_inert:
  "escape_filter_chars v m = Inr x \<Longrightarrow> set x \<inter> filter_special = {}"
proof -
  have special: "set (hex_escaped c) \<inter> filter_special = {}" for c
    using hex_escaped_chars[of c] by (auto simp: filter_special_def)
  have "set (escaped_filter_char c) \<inter> filter_special = {}" for c
    using special by (cases c rule: escaped_filter_char_cases) (auto simp: filter_special_def)
  moreover have "set (escape_mode_char m' c) \<inter> filter_special = {}" for c m'
    using special[of c] by (auto simp: escape_mode_char_def filter_special_def less_char_def)
  ultimately show "escape_filter_chars v m = Inr x \<Longrightarrow> ?thesis"
    by (auto simp: escape_filter_chars_def split: if_splits) blast+
qed

end
