(* ===== verification/LdapLdif.thy ===== *)
theory LdapLdif
  imports LdifProtocol Programs
begin

text \<open>
  \<open>ldap/ldif.py\<close>: LDIF in the manner of python-ldap, a writer into a file and a parser that reads a
  file line by line, beside the line receiver of \<open>ldifprotocol.py\<close>. The output file is the text
  written so far, the input file the lines that \<open>readline\<close> will give; the records found are kept
  as \<open>LDIFRecordList\<close> does. Python's \<open>urlparse\<close> and the fetching of values by URL are parameters.
\<close>

section \<open>Patterns\<close>

text \<open>
  Python's \<open>re\<close> for the pattern of a name. A pattern gives what is left of the text after each of its
  matches, in the order in which the backtracking search tries them.
\<close>

datatype regex =
    Char_in string
  | Char_not_in string
  | Word_or string
  | Any_char
  | Both regex regex
  | Either regex regex
  | Many regex
  | Few regex
  | End_of_text

definition word_char :: "char \<Rightarrow> bool" where
  "word_char c =
     (let n = of_char c :: nat in
      48 \<le> n \<and> n \<le> 57 \<or> 65 \<le> n \<and> n \<le> 90 \<or> n = 95 \<or> 97 \<le> n \<and> n \<le> 122 \<or>
      n \<in> {170, 178, 179, 181, 185, 186, 188, 189, 190} \<or> 192 \<le> n \<and> n \<noteq> 215 \<and> n \<noteq> 247)"

function many_ends :: "(string \<Rightarrow> string list) \<Rightarrow> string \<Rightarrow> string list" where
  "many_ends f s = concat (map (\<lambda>t. if length t < length s then many_ends f t else []) (f s)) @ [s]"
  by pat_completeness auto
termination by (relation "measure (\<lambda>(f, s). length s)") auto

function few_ends :: "(string \<Rightarrow> string list) \<Rightarrow> string \<Rightarrow> string list" where
  "few_ends f s = s # concat (map (\<lambda>t. if length t < length s then few_ends f t else []) (f s))"
  by pat_completeness auto
termination by (relation "measure (\<lambda>(f, s). length s)") auto

declare many_ends.simps [simp del] few_ends.simps [simp del]

definition one_char :: "(char \<Rightarrow> bool) \<Rightarrow> string \<Rightarrow> string list" where
  "one_char P s = (case s of [] \<Rightarrow> [] | c # t \<Rightarrow> if P c then [t] else [])"

primrec ends :: "regex \<Rightarrow> string \<Rightarrow> string list" where
  "ends (Char_in cs) = one_char (\<lambda>c. c \<in> set cs)"
| "ends (Char_not_in cs) = one_char (\<lambda>c. c \<notin> set cs)"
| "ends (Word_or cs) = one_char (\<lambda>c. word_char c \<or> c \<in> set cs)"
| "ends Any_char = one_char (\<lambda>c. c \<noteq> CHR 0x0A)"
| "ends (Both r q) = (\<lambda>s. concat (map (ends q) (ends r s)))"
| "ends (Either r q) = (\<lambda>s. ends r s @ ends q s)"
| "ends (Many r) = many_ends (ends r)"
| "ends (Few r) = few_ends (ends r)"
| "ends End_of_text = (\<lambda>s. if s = [] \<or> s = [CHR 0x0A] then [s] else [])"

fun in_turn :: "regex list \<Rightarrow> regex" where
  "in_turn [] = Many (Char_in [])"
| "in_turn [r] = r"
| "in_turn (r # q # rs) = Both r (in_turn (q # rs))"

definition many1 :: "regex \<Rightarrow> regex" where "many1 r = Both r (Many r)"

definition blanks :: regex where "blanks = Many (Char_in '' '')"

definition attrtype_pattern :: regex where
  "attrtype_pattern = Both (many1 (Word_or '';.-'')) (Many (Both (Char_in '';'') (many1 (Word_or ''-''))))"

definition attrvalue_pattern :: regex where
  "attrvalue_pattern =
     Either (many1 (Either (Char_not_in '','') (Both (Char_in [backslash]) (Char_in '',''))))
       (in_turn [Char_in [CHR 0x22], Few Any_char, Char_in [CHR 0x22]])"

definition attrtypeandvalue_pattern :: regex where
  "attrtypeandvalue_pattern = in_turn [attrtype_pattern, blanks, Char_in ''='', blanks, attrvalue_pattern]"

definition rdn_pattern :: regex where
  "rdn_pattern =
     in_turn [attrtypeandvalue_pattern, Many (in_turn [blanks, Char_in ''+'', blanks, attrtypeandvalue_pattern]), blanks]"

definition dn_pattern :: regex where
  "dn_pattern = in_turn [rdn_pattern, Many (in_turn [blanks, Char_in '','', blanks, rdn_pattern]), blanks]"

definition dn_regex :: regex where "dn_regex = Both dn_pattern End_of_text"

definition ldif_is_dn :: "string \<Rightarrow> bool" where
  "ldif_is_dn s \<longleftrightarrow> s = [] \<or> (case ends dn_regex s of [] \<Rightarrow> False | t # ts \<Rightarrow> t = [])"

section \<open>The writer\<close>

record ldif_writer =
  base64_attrs :: "string list"
  cols :: int
  line_sep :: string
  output_file :: string
  records_written :: int

definition ldif_writer_init :: "string list \<Rightarrow> int \<Rightarrow> string \<Rightarrow> ldif_writer" where
  "ldif_writer_init attrs c sep =
     \<lparr>base64_attrs = map lower attrs, cols = c, line_sep = sep, output_file = [], records_written = 0\<rparr>"

text \<open>What is written, or that writing does not end; or the exception, with what was written before it.\<close>

type_synonym 'a wprog = "ldif_writer \<Rightarrow> ((exn + 'a) \<times> ldif_writer) option"

definition bindW :: "'a wprog \<Rightarrow> ('a \<Rightarrow> 'b wprog) \<Rightarrow> 'b wprog" where
  "bindW m f w = (case m w of None \<Rightarrow> None | Some (Inl e, w') \<Rightarrow> Some (Inl e, w') | Some (Inr a, w') \<Rightarrow> f a w')"

definition writeW :: "string \<Rightarrow> unit wprog" where
  "writeW s w = Some (Inr (), w\<lparr>output_file := output_file w @ s\<rparr>)"

definition raiseW :: "exn \<Rightarrow> 'a wprog" where
  "raiseW e w = Some (Inl e, w)"

fun each_W :: "('a \<Rightarrow> unit wprog) \<Rightarrow> 'a list \<Rightarrow> unit wprog" where
  "each_W f [] w = Some (Inr (), w)"
| "each_W f (x # xs) w = bindW (f x) (\<lambda>_. each_W f xs) w"

text \<open>The loop that folds a line: with fewer than two columns it gets nowhere.\<close>

partial_function (option) fold_rest :: "int \<Rightarrow> string \<Rightarrow> string \<Rightarrow> int \<Rightarrow> string option" where
  "fold_rest c sep line pos =
     (if pos < int (length line) then
        Option.bind (fold_rest c sep line (pos + c - 1))
          (\<lambda>r. Some ('' '' @ take (nat (c - 1)) (drop (nat pos) line) @ sep @ r))
      else Some [])"

definition fold_line :: "int \<Rightarrow> string \<Rightarrow> string \<Rightarrow> string option" where
  "fold_line c sep line =
     (if int (length line) \<le> c then Some (line @ sep)
      else Option.bind (fold_rest c sep line c) (\<lambda>r. Some (take (nat c) line @ sep @ r)))"

definition writer_unfold_lines :: "string \<Rightarrow> unit wprog" where
  "writer_unfold_lines line w =
     (case fold_line (cols w) (line_sep w) line of None \<Rightarrow> None | Some s \<Rightarrow> writeW s w)"

text \<open>The search for \<open>SAFE_STRING_PATTERN\<close>.\<close>

definition unsafe_value :: "bytes \<Rightarrow> bool" where
  "unsafe_value v \<longleftrightarrow>
     v \<noteq> [] \<and> (hd v \<in> {0, 10, 13, 32, 58, 60} \<or> list_ex (\<lambda>x. x \<in> {0, 10, 13} \<or> 128 \<le> x) v \<or> last v = 32)"

definition needs_base64_encoding :: "string \<Rightarrow> bytes \<Rightarrow> ldif_writer \<Rightarrow> bool" where
  "needs_base64_encoding attr_type v w \<longleftrightarrow> lower attr_type \<in> set (base64_attrs w) \<or> unsafe_value v"

definition ascii_text :: "bytes \<Rightarrow> string" where
  "ascii_text v = map (\<lambda>x. char_of (unat x)) v"

definition unparseAttrTypeandValue :: "string \<Rightarrow> bytes \<Rightarrow> unit wprog" where
  "unparseAttrTypeandValue attr_type v w =
     (if needs_base64_encoding attr_type v w
      then writer_unfold_lines (attr_type @ '':: '' @ ascii_text (b64_encode v)) w
      else writer_unfold_lines (attr_type @ '': '' @ ascii_text v) w)"

definition unparseEntryRecord :: "(string \<times> bytes list) list \<Rightarrow> unit wprog" where
  "unparseEntryRecord entry =
     each_W (\<lambda>(attr_type, vs). each_W (unparseAttrTypeandValue attr_type) vs) (sort_key fst entry)"

text \<open>The items of a list of changes: pairs of an addition, triples of a modification.\<close>

datatype modlist_item = Pair_item string "bytes list option" | Triple_item int string "bytes list option"

fun is_triple :: "modlist_item \<Rightarrow> bool" where
  "is_triple (Pair_item t vs) \<longleftrightarrow> False"
| "is_triple (Triple_item i t vs) \<longleftrightarrow> True"

definition MOD_OP_STR :: "int \<Rightarrow> string option" where
  "MOD_OP_STR i =
     (if i = 0 then Some ''add'' else if i = 1 then Some ''delete'' else if i = 2 then Some ''replace''
      else if i = 3 then Some ''increment'' else None)"

text \<open>\<open>str.encode("ascii")\<close>, whose exception is a kind of ValueError.\<close>

definition encode_ascii :: "string \<Rightarrow> exn + bytes" where
  "encode_ascii s = (if list_all (\<lambda>c. (of_char c :: nat) < 128) s then Inr (utf8_encode s) else Inl ValueError)"

definition liftW :: "exn + 'a \<Rightarrow> 'a wprog" where
  "liftW x w = Some (x, w)"

definition values_of_item :: "string \<Rightarrow> bytes list option \<Rightarrow> unit wprog" where
  "values_of_item t vs = each_W (unparseAttrTypeandValue t) (case vs of None \<Rightarrow> [] | Some l \<Rightarrow> l)"

fun unparse_item :: "bool \<Rightarrow> modlist_item \<Rightarrow> unit wprog" where
  "unparse_item triple (Pair_item t vs) w = (if triple then raiseW ValueError w else values_of_item t vs w)"
| "unparse_item triple (Triple_item i t vs) w =
     (if \<not> triple then raiseW ValueError w
      else case MOD_OP_STR i of
        None \<Rightarrow> raiseW KeyError w
      | Some op \<Rightarrow>
          bindW (liftW (encode_ascii t)) (\<lambda>tb. bindW (unparseAttrTypeandValue op tb) (\<lambda>_.
          bindW (values_of_item t vs) (\<lambda>_ w. writeW (''-'' @ line_sep w) w))) w)"

definition unparseChangeRecord :: "modlist_item list \<Rightarrow> unit wprog" where
  "unparseChangeRecord modlist =
     (case modlist of
        [] \<Rightarrow> raiseW IndexError
      | first # rest \<Rightarrow>
          bindW (unparseAttrTypeandValue ''changetype'' (lit (if is_triple first then ''modify'' else ''add''))) (\<lambda>_.
            each_W (unparse_item (is_triple first)) modlist))"

datatype ldif_record = Entry_record "(string \<times> bytes list) list" | Change_record "modlist_item list"

fun unparse_record :: "ldif_record \<Rightarrow> unit wprog" where
  "unparse_record (Entry_record e) w = unparseEntryRecord e w"
| "unparse_record (Change_record ms) w = unparseChangeRecord ms w"

definition unparse :: "string \<Rightarrow> ldif_record \<Rightarrow> unit wprog" where
  "unparse dn r =
     bindW (unparseAttrTypeandValue ''dn'' (utf8_encode dn)) (\<lambda>_.
     bindW (unparse_record r) (\<lambda>_.
     bindW (\<lambda>w. writeW (line_sep w) w) (\<lambda>_ w.
       Some (Inr (), w\<lparr>records_written := records_written w + 1\<rparr>))))"

section \<open>The parser: lines\<close>

record url_io =
  url_scheme :: "string \<Rightarrow> string"
  read_url :: "string \<Rightarrow> exn + bytes"

type_synonym parsed_entry = "(string \<times> bytes option list) list"
type_synonym modop = "int \<times> string \<times> bytes list option"

record pyldif =
  ignored_attr_types :: "string list"
  max_entries :: int
  process_url_schemes :: "string list"
  input_lines :: "pytext list"
  last_line :: "string option"
  line_counter :: int
  byte_counter :: int
  records_read :: int
  pyversion :: "int option"
  changetype_counter :: "string option \<rightharpoonup> int"
  all_records :: "(string \<times> parsed_entry) list"
  all_modify_changes :: "(string \<times> modop list) list"

type_synonym 'a parse = "(pyldif, exn, 'a) prog"

definition strip_newline :: "string \<Rightarrow> string" where
  "strip_newline s =
     (if 2 \<le> length s \<and> drop (length s - 2) s = [CHR 0x0D, CHR 0x0A] then take (length s - 2) s
      else if s \<noteq> [] \<and> last s = CHR 0x0A then butlast s else s)"

definition ldif_readline :: "string option parse" where
  "ldif_readline p =
     (case input_lines p of
        [] \<Rightarrow> (Inr None, p\<lparr>line_counter := line_counter p + 1\<rparr>)
      | l # ls \<Rightarrow>
          (case to_unicode l of
             Inl e \<Rightarrow> (Inl e, p\<lparr>input_lines := ls\<rparr>)
           | Inr s \<Rightarrow>
               (Inr (if s = [] then None else Some (strip_newline s)),
                p\<lparr>input_lines := ls, line_counter := line_counter p + 1,
                  byte_counter := byte_counter p + int (length s)\<rparr>)))"

definition pyldif_start :: "string list \<Rightarrow> int \<Rightarrow> string list \<Rightarrow> pytext list \<Rightarrow> pyldif" where
  "pyldif_start ign mx schemes ls =
     \<lparr>ignored_attr_types = map lower ign, max_entries = mx, process_url_schemes = map lower schemes,
      input_lines = ls, last_line = None, line_counter = 0, byte_counter = 0, records_read = 0, pyversion = None,
      changetype_counter = [Some ''add'' \<mapsto> 0, Some ''delete'' \<mapsto> 0, Some ''modify'' \<mapsto> 0, Some ''modrdn'' \<mapsto> 0],
      all_records = [], all_modify_changes = []\<rparr>"

text \<open>The constructor, which reads the first line.\<close>

definition pyldif_init :: "string list \<Rightarrow> int \<Rightarrow> string list \<Rightarrow> pytext list \<Rightarrow> (exn + unit) \<times> pyldif" where
  "pyldif_init ign mx schemes ls =
     bindP ldif_readline (\<lambda>l. updateP (\<lambda>p. p\<lparr>last_line := l\<rparr>)) (pyldif_start ign mx schemes ls)"

lemma readline_shorter: "ldif_readline p = (Inr (Some s), p') \<Longrightarrow> length (input_lines p') < length (input_lines p)"
  by (auto simp: ldif_readline_def split: list.splits sum.splits if_splits)

lemma readline_length: "ldif_readline p = (x, p') \<Longrightarrow> length (input_lines p') \<le> length (input_lines p)"
  by (auto simp: ldif_readline_def split: list.splits sum.splits if_splits)

text \<open>The loop of \<open>_unfold_lines\<close>: the lines gathered, and the one that follows.\<close>

function more_lines :: "string list \<Rightarrow> (string list \<times> string option) parse" where
  "more_lines acc p =
     (case ldif_readline p of
        (Inl e, p') \<Rightarrow> (Inl e, p')
      | (Inr next_line, p') \<Rightarrow>
          (case next_line of
             Some (c # t) \<Rightarrow>
               if c = CHR '' '' then more_lines (acc @ [t]) p' else (Inr (acc, next_line), p')
           | _ \<Rightarrow> (Inr (acc, next_line), p')))"
  by pat_completeness auto
termination
  by (relation "measure (\<lambda>(acc, p). length (input_lines p))") (auto dest!: readline_shorter[OF sym])

declare more_lines.simps [simp del]

definition ldif_unfold_lines :: "string parse" where
  "ldif_unfold_lines p =
     (case last_line p of
        None \<Rightarrow> (Inl EOFError, p)
      | Some l \<Rightarrow>
          (case more_lines [l] p of
             (Inl e, p') \<Rightarrow> (Inl e, p')
           | (Inr (ls, next_line), p') \<Rightarrow> (Inr (concat ls), p'\<lparr>last_line := next_line\<rparr>)))"

text \<open>What is left to be read; every logical line takes something of it.\<close>

definition weight :: "pyldif \<Rightarrow> nat" where
  "weight p = length (input_lines p) + (case last_line p of None \<Rightarrow> 0 | Some l \<Rightarrow> 1)"

lemma more_lines_weight:
  "more_lines acc p = (Inr (ls, next_line), p') \<Longrightarrow>
   length (input_lines p') + (case next_line of None \<Rightarrow> 0 | Some l \<Rightarrow> 1) \<le> length (input_lines p)"
proof (induction acc p rule: more_lines.induct)
  case (1 acc p)
  obtain x q where r: "ldif_readline p = (x, q)" by fastforce
  show ?case
  proof (cases x)
    case (Inr nl)
    show ?thesis
    proof (cases "\<exists>t. nl = Some (CHR '' '' # t)")
      case True
      then obtain t where t: "nl = Some (CHR '' '' # t)" by blast
      then have "length (input_lines q) < length (input_lines p)" using readline_shorter r Inr by simp
      moreover have "more_lines (acc @ [t]) q = (Inr (ls, next_line), p')"
        using 1(2) r Inr t by (simp add: more_lines.simps[of acc p])
      ultimately show ?thesis using 1(1)[OF r[symmetric] Inr t refl refl] by fastforce
    next
      case False
      then have "nl = next_line" "q = p'"
        using 1(2) r Inr by (auto simp: more_lines.simps[of acc p] split: option.splits list.splits if_splits)
      then show ?thesis using r Inr readline_shorter[of p] readline_length[OF r] by (cases nl) fastforce+
    qed
  qed (use 1(2) r in \<open>simp add: more_lines.simps[of acc p]\<close>)
qed

lemma unfold_weight: "ldif_unfold_lines p = (Inr l, p') \<Longrightarrow> weight p' < weight p"
  by (auto simp: ldif_unfold_lines_def weight_def split: option.splits prod.splits sum.splits dest!: more_lines_weight)

function skip_comments :: "string \<Rightarrow> string parse" where
  "skip_comments l p =
     (if l \<noteq> [] \<and> hd l = CHR ''#'' then
        (case ldif_unfold_lines p of (Inl e, p') \<Rightarrow> (Inl e, p') | (Inr l', p') \<Rightarrow> skip_comments l' p')
      else (Inr l, p))"
  by pat_completeness auto
termination by (relation "measure (\<lambda>(l, p). weight p)") (auto dest!: unfold_weight[OF sym])

declare skip_comments.simps [simp del]

text \<open>\<open>str.strip\<close>, and what a logical line says.\<close>

definition strip_text :: "string \<Rightarrow> string" where
  "strip_text s = rev (dropWhile py_space (rev (dropWhile py_space s)))"

definition line_value :: "url_io \<Rightarrow> string list \<Rightarrow> string \<Rightarrow> exn + bytes option" where
  "line_value io schemes rest =
     (if take 2 rest = '': '' then Inr (Some (utf8_encode (dropWhile py_space (drop 2 rest))))
      else if take 2 rest = ''::'' then bindE (encode_ascii (drop 2 rest)) (\<lambda>b. bindE (decodebytes b) (\<lambda>v. Inr (Some v)))
      else if take 2 rest = '':<'' then
        (let url = strip_text (drop 2 rest) in
         if schemes \<noteq> [] \<and> url_scheme io url \<in> set schemes then bindE (read_url io url) (\<lambda>v. Inr (Some v))
         else Inr None)
      else Inr (Some (utf8_encode (drop 1 rest))))"

definition line_parts :: "url_io \<Rightarrow> string list \<Rightarrow> string \<Rightarrow> exn + string option \<times> bytes option" where
  "line_parts io schemes l =
     (if l = [] then Inr (None, None)
      else if l = ''-'' then Inr (Some ''-'', None)
      else if CHR '':'' \<notin> set l then Inl ValueError
      else bindE (line_value io schemes (dropWhile (\<lambda>c. c \<noteq> CHR '':'') l)) (\<lambda>v.
             Inr (Some (takeWhile (\<lambda>c. c \<noteq> CHR '':'') l), v)))"

type_synonym key_value = "string option \<times> bytes option"

definition next_key_and_value :: "url_io \<Rightarrow> key_value parse" where
  "next_key_and_value io =
     bindP ldif_unfold_lines (\<lambda>l0. bindP (skip_comments l0) (\<lambda>l.
     bindP (getP process_url_schemes) (\<lambda>schemes. liftP (line_parts io schemes l))))"

lemma skip_comments_weight: "skip_comments l p = (Inr l', p') \<Longrightarrow> weight p' \<le> weight p"
proof (induction l p rule: skip_comments.induct)
  case (1 l p)
  show ?case
  proof (cases "l \<noteq> [] \<and> hd l = CHR ''#''")
    case True
    then obtain m q where m: "ldif_unfold_lines p = (Inr m, q)" "skip_comments m q = (Inr l', p')"
      using 1(2) by (auto simp: skip_comments.simps[of l p] split: prod.splits sum.splits)
    then show ?thesis using 1(1)[OF True m(1)[symmetric] refl m(2)] unfold_weight by fastforce
  qed (use 1(2) in \<open>simp add: skip_comments.simps[of l p] split: if_splits\<close>)
qed

lemma next_weight: "next_key_and_value io p = (Inr kv, p') \<Longrightarrow> weight p' < weight p"
  unfolding next_key_and_value_def
  by (auto simp: prog_defs split: prod.splits sum.splits dest!: unfold_weight skip_comments_weight)

text \<open>\<open>_next_key_and_value\<close> where the end of the file is a pair of None.\<close>

definition next_or_end :: "url_io \<Rightarrow> key_value parse" where
  "next_or_end io =
     catchP (next_key_and_value io) (\<lambda>e. if e = EOFError then returnP (None, None) else raiseP e)"

lemma next_or_end_weight: "next_or_end io p = (Inr (Some k, v), p') \<Longrightarrow> weight p' < weight p"
  unfolding next_or_end_def by (auto simp: prog_defs split: prod.splits sum.splits if_splits dest!: next_weight)

section \<open>The parser: records\<close>

function consume_empty_lines :: "url_io \<Rightarrow> key_value parse" where
  "consume_empty_lines io p =
     (case next_key_and_value io p of
        (Inl e, p') \<Rightarrow> if e = EOFError then (Inr (None, None), p') else (Inl e, p')
      | (Inr kv, p') \<Rightarrow> if kv = (None, None) then consume_empty_lines io p' else (Inr kv, p'))"
  by pat_completeness auto
termination by (relation "measure (\<lambda>(io, p). weight p)") (auto dest!: next_weight[OF sym])

declare consume_empty_lines.simps [simp del]

text \<open>\<open>int\<close> of a text of ASCII characters.\<close>

definition int_of_ascii :: "string \<Rightarrow> exn + int" where
  "int_of_ascii s = int_of_bytes (utf8_encode (strip_text s))"

definition version_of :: "bool \<Rightarrow> bytes option \<Rightarrow> exn + int" where
  "version_of entries v =
     (case v of
        None \<Rightarrow> Inl AssertionError
      | Some b \<Rightarrow>
          if entries then
            (if list_all (\<lambda>x. x < 128) b then int_of_ascii (ascii_text b) else Inl UnicodeDecodeError)
          else int_of_bytes b)"

text \<open>What both loops begin with: empty lines, and the version if there is one.\<close>

definition first_key_and_value :: "url_io \<Rightarrow> bool \<Rightarrow> key_value parse" where
  "first_key_and_value io entries =
     bindP (consume_empty_lines io) (\<lambda>(k, v).
       if k = Some ''version'' then
         bindP (liftP (version_of entries v)) (\<lambda>i.
         bindP (updateP (\<lambda>p. p\<lparr>pyversion := Some i\<rparr>)) (\<lambda>_. consume_empty_lines io))
       else returnP (k, v))"

definition record_dn :: "string option \<Rightarrow> bytes option \<Rightarrow> exn + string" where
  "record_dn k v =
     (if k \<noteq> Some ''dn'' then Inl ValueError
      else case v of
        None \<Rightarrow> Inl AssertionError
      | Some b \<Rightarrow> bindE (utf8_decode b) (\<lambda>dn. if ldif_is_dn dn then Inr dn else Inl ValueError))"

text \<open>\<open>entry.setdefault(k, []).append(v)\<close>.\<close>

fun append_value :: "string \<Rightarrow> bytes option \<Rightarrow> parsed_entry \<Rightarrow> parsed_entry" where
  "append_value k v [] = [(k, [v])]"
| "append_value k v ((k', vs) # e) = (if k' = k then (k', vs @ [v]) # e else (k', vs) # append_value k v e)"

function read_attributes :: "url_io \<Rightarrow> string option \<Rightarrow> bytes option \<Rightarrow> parsed_entry \<Rightarrow> parsed_entry parse" where
  "read_attributes io k v e p =
     (case k of
        None \<Rightarrow> (Inr e, p)
      | Some ty \<Rightarrow>
          let e' = (if lower ty \<in> set (ignored_attr_types p) then e else append_value ty v e) in
          case next_or_end io p of
            (Inl exc, p') \<Rightarrow> (Inl exc, p')
          | (Inr (k', v'), p') \<Rightarrow> if k' = None then (Inr e', p') else read_attributes io k' v' e' p')"
  by pat_completeness auto
termination
  by (relation "measure (\<lambda>(io, k, v, e, p). weight p)") (auto dest!: next_or_end_weight[OF sym])

declare read_attributes.simps [simp del]

definition handle_entry :: "string \<Rightarrow> parsed_entry \<Rightarrow> unit parse" where
  "handle_entry dn e = updateP (\<lambda>p. p\<lparr>all_records := all_records p @ [(dn, e)]\<rparr>)"

definition one_entry :: "url_io \<Rightarrow> key_value \<Rightarrow> key_value parse" where
  "one_entry io = (\<lambda>(k, v).
     bindP (liftP (record_dn k v)) (\<lambda>dn.
     bindP (next_key_and_value io) (\<lambda>(k1, v1).
     bindP (read_attributes io k1 v1 []) (\<lambda>e.
     bindP (handle_entry dn e) (\<lambda>_.
     bindP (updateP (\<lambda>p. p\<lparr>records_read := records_read p + 1\<rparr>)) (\<lambda>_.
       consume_empty_lines io))))))"

definition wants_more :: "pyldif \<Rightarrow> bool" where
  "wants_more p \<longleftrightarrow> max_entries p = 0 \<or> records_read p < max_entries p"

text \<open>Nothing puts lines back.\<close>

definition shrinks :: "pyldif \<Rightarrow> pyldif \<Rightarrow> bool" where
  "shrinks p q \<longleftrightarrow> weight q \<le> weight p"

lemma shrinks_order: "reflp shrinks" "transp shrinks"
  by (auto simp: shrinks_def reflp_def transp_def)

lemma more_lines_length: "more_lines acc p = (x, p') \<Longrightarrow> length (input_lines p') \<le> length (input_lines p) \<and> last_line p' = last_line p"
proof (induction acc p rule: more_lines.induct)
  case (1 acc p)
  obtain y q where r: "ldif_readline p = (y, q)" by fastforce
  have q: "length (input_lines q) \<le> length (input_lines p)" "last_line q = last_line p"
    using r by (auto simp: ldif_readline_def split: list.splits sum.splits)
  show ?case
  proof (cases "\<exists>t. y = Inr (Some (CHR '' '' # t))")
    case True
    then obtain t where t: "y = Inr (Some (CHR '' '' # t))" by blast
    then have "more_lines (acc @ [t]) q = (x, p')" using 1(2) r by (simp add: more_lines.simps[of acc p])
    then show ?thesis using 1(1)[OF r[symmetric] t refl refl refl] q by simp
  next
    case False
    then have "q = p'"
      using 1(2) r by (auto simp: more_lines.simps[of acc p] split: option.splits list.splits if_splits sum.splits)
    then show ?thesis using q by simp
  qed
qed

lemma unfold_shrinks: "keeps shrinks ldif_unfold_lines"
  unfolding keeps_def
proof
  fix p
  obtain x q where u: "ldif_unfold_lines p = (x, q)" by fastforce
  show "shrinks p (snd (ldif_unfold_lines p))"
  proof (cases x)
    case (Inl e)
    then have "weight q \<le> weight p"
      using u by (auto simp: ldif_unfold_lines_def weight_def split: option.splits prod.splits sum.splits dest!: more_lines_length)
    then show ?thesis using u by (simp add: shrinks_def)
  next
    case (Inr l)
    then show ?thesis using u unfold_weight[of p l q] by (simp add: shrinks_def)
  qed
qed

lemma skip_comments_shrinks: "keeps shrinks (skip_comments l)"
  unfolding keeps_def
proof
  fix p
  show "shrinks p (snd (skip_comments l p))"
  proof (induction l p rule: skip_comments.induct)
    case (1 l p)
    have "shrinks p (snd (ldif_unfold_lines p))" using unfold_shrinks by (simp add: keeps_def)
    then show ?case
      using 1 shrinks_order(1)[THEN reflpD, of p]
      by (auto simp: skip_comments.simps[of l p] shrinks_def split: prod.splits sum.splits)
  qed
qed

lemma next_shrinks: "keeps shrinks (next_key_and_value io)"
  unfolding next_key_and_value_def by (intro keeps_rules shrinks_order unfold_shrinks skip_comments_shrinks)

lemma next_or_end_shrinks: "keeps shrinks (next_or_end io)"
  unfolding next_or_end_def by (intro keeps_rules shrinks_order next_shrinks)

lemma consume_shrinks: "keeps shrinks (consume_empty_lines io)"
  unfolding keeps_def
proof
  fix p
  show "shrinks p (snd (consume_empty_lines io p))"
  proof (induction "weight p" arbitrary: p rule: less_induct)
    case less
    obtain x q where n: "next_key_and_value io p = (x, q)" by fastforce
    then have q: "weight q \<le> weight p" using next_shrinks[of io] by (auto simp: keeps_def shrinks_def dest: spec[of _ p])
    show ?case
    proof (cases "x = Inr (None, None)")
      case True
      then have "weight q < weight p" using n next_weight by simp
      then show ?thesis using less[of q] n True by (simp add: consume_empty_lines.simps[of io p] shrinks_def)
    next
      case False
      then show ?thesis using n q by (cases x) (auto simp: consume_empty_lines.simps[of io p] shrinks_def)
    qed
  qed
qed

lemma attributes_shrink: "keeps shrinks (read_attributes io k v e)"
  unfolding keeps_def
proof
  fix p
  show "shrinks p (snd (read_attributes io k v e p))"
  proof (induction "weight p" arbitrary: k v e p rule: less_induct)
    case less
    obtain x q where n: "next_or_end io p = (x, q)" by fastforce
    then have q: "weight q \<le> weight p" using next_or_end_shrinks[of io] by (auto simp: keeps_def shrinks_def dest: spec[of _ p])
    show ?case
    proof (cases "\<exists>k' v'. x = Inr (Some k', v')")
      case True
      then obtain k' v' where x: "x = Inr (Some k', v')" by blast
      then have "weight q < weight p" using n next_or_end_weight by simp
      then have ih: "shrinks q (snd (read_attributes io (Some k') v' e' q))" for e' using less by blast
      have "read_attributes io k v e p = (Inr e, p) \<or>
          (\<exists>e'. read_attributes io k v e p = read_attributes io (Some k') v' e' q)"
        unfolding read_attributes.simps[of io k v e p] using n x by (cases k) (simp_all add: Let_def, blast)
      then show ?thesis using ih q unfolding shrinks_def by (metis order.refl order.trans snd_conv)
    next
      case False
      then show ?thesis
        unfolding read_attributes.simps[of io k v e p] shrinks_def
        using n q by (cases k; cases x) (auto simp: Let_def split: option.splits)
    qed
  qed
qed

lemma counters_shrink:
  "keeps shrinks (updateP (\<lambda>p. p\<lparr>all_records := f p\<rparr>))" "keeps shrinks (updateP (\<lambda>p. p\<lparr>records_read := g p\<rparr>))"
  "keeps shrinks (updateP (\<lambda>p. p\<lparr>all_modify_changes := h p\<rparr>))" "keeps shrinks (updateP (\<lambda>p. p\<lparr>changetype_counter := i p\<rparr>))"
  by (rule keeps_updateP, simp add: shrinks_def weight_def)+

lemma after_next_weight:
  assumes "bindP (next_key_and_value io) f p = (Inr x, p')" "\<And>kv. keeps shrinks (f kv)"
  shows "weight p' < weight p"
proof -
  obtain kv q where q: "next_key_and_value io p = (Inr kv, q)" "f kv q = (Inr x, p')"
    using assms(1) by (auto simp: bindP_def split: prod.splits sum.splits)
  then have "weight q < weight p" "shrinks q p'"
    using next_weight[OF q(1)] assms(2)[of kv] unfolding keeps_def by (simp, metis snd_conv)
  then show ?thesis by (simp add: shrinks_def)
qed

lemma one_entry_weight: "one_entry io kv p = (Inr kv', p') \<Longrightarrow> weight p' < weight p"
proof -
  obtain k v where kv: "kv = (k, v)" by fastforce
  assume a: "one_entry io kv p = (Inr kv', p')"
  then obtain dn where "record_dn k v = Inr dn"
    by (cases "record_dn k v") (auto simp: one_entry_def kv bindP_def liftP_def)
  with a show ?thesis
    by (simp add: one_entry_def kv bindP_lift)
      (erule after_next_weight, auto simp: handle_entry_def intro!: keeps_rules shrinks_order attributes_shrink counters_shrink consume_shrinks)
qed

function entry_records :: "url_io \<Rightarrow> key_value \<Rightarrow> unit parse" where
  "entry_records io kv p =
     (if fst kv \<noteq> None \<and> wants_more p then
        (case one_entry io kv p of (Inl e, p') \<Rightarrow> (Inl e, p') | (Inr kv', p') \<Rightarrow> entry_records io kv' p')
      else (Inr (), p))"
  by pat_completeness auto
termination by (relation "measure (\<lambda>(io, kv, p). weight p)") (auto dest!: one_entry_weight[OF sym])

declare entry_records.simps [simp del]

definition parse_entry_records :: "url_io \<Rightarrow> unit parse" where
  "parse_entry_records io = bindP (first_key_and_value io True) (entry_records io)"

section \<open>The parser: changes\<close>

definition MOD_OP_INTEGER :: "string \<Rightarrow> int option" where
  "MOD_OP_INTEGER s =
     (if s = ''add'' then Some 0 else if s = ''delete'' then Some 1 else if s = ''replace'' then Some 2
      else if s = ''increment'' then Some 3 else None)"

definition valid_changetype :: "string \<Rightarrow> bool" where
  "valid_changetype s \<longleftrightarrow> s \<in> {''add'', ''delete'', ''modify'', ''modrdn''}"

text \<open>A text in which a control is read must have a space at least.\<close>

definition control_of :: "bytes option \<Rightarrow> exn + unit" where
  "control_of v =
     (case v of
        None \<Rightarrow> Inl AssertionError
      | Some b \<Rightarrow> bindE (utf8_decode b) (\<lambda>s. if CHR '' '' \<in> set s then Inr () else Inl ValueError))"

function read_controls :: "url_io \<Rightarrow> key_value \<Rightarrow> key_value parse" where
  "read_controls io kv p =
     (if fst kv = Some ''control'' then
        (case control_of (snd kv) of
           Inl e \<Rightarrow> (Inl e, p)
         | Inr u \<Rightarrow>
             (case next_key_and_value io p of
                (Inl e, p') \<Rightarrow> (Inl e, p')
              | (Inr kv', p') \<Rightarrow> read_controls io kv' p'))
      else (Inr kv, p))"
  by pat_completeness auto
termination by (relation "measure (\<lambda>(io, kv, p). weight p)") (auto dest!: next_weight[OF sym])

declare read_controls.simps [simp del]

definition decoded :: "bytes option \<Rightarrow> exn + string" where
  "decoded v = (case v of None \<Rightarrow> Inl AssertionError | Some b \<Rightarrow> utf8_decode b)"

definition read_changetype :: "url_io \<Rightarrow> key_value \<Rightarrow> (string option \<times> key_value) parse" where
  "read_changetype io = (\<lambda>(k, v).
     if k = Some ''changetype'' then
       bindP (liftP (decoded v)) (\<lambda>c. bindP (unlessP (valid_changetype c) ValueError) (\<lambda>_.
       bindP (next_key_and_value io) (\<lambda>kv. returnP (Some c, kv))))
     else returnP (None, (k, v)))"

text \<open>The loop over the values of one modification; the loop over the modifications.\<close>

function mod_values_loop :: "url_io \<Rightarrow> string \<Rightarrow> key_value \<Rightarrow> bytes list \<Rightarrow> bytes list parse" where
  "mod_values_loop io modattr kv acc p =
     (if fst kv = Some modattr then
        (case snd kv of
           None \<Rightarrow> (Inl AssertionError, p)
         | Some b \<Rightarrow>
             (case next_or_end io p of
                (Inl e, p') \<Rightarrow> (Inl e, p')
              | (Inr kv', p') \<Rightarrow>
                  if fst kv' = None then (Inr (acc @ [b]), p') else mod_values_loop io modattr kv' (acc @ [b]) p'))
      else (Inr acc, p))"
  by pat_completeness auto
termination
  by (relation "measure (\<lambda>(io, modattr, kv, acc, p). weight p)") (auto dest!: next_or_end_weight[OF sym])

declare mod_values_loop.simps [simp del]

definition one_modification :: "url_io \<Rightarrow> string \<Rightarrow> bytes option \<Rightarrow> modop parse" where
  "one_modification io op v =
     bindP (liftP (case MOD_OP_INTEGER op of None \<Rightarrow> Inl ValueError | Some i \<Rightarrow> Inr i)) (\<lambda>i.
     bindP (liftP (decoded v)) (\<lambda>modattr.
     bindP (next_or_end io) (\<lambda>kv.
     bindP (mod_values_loop io modattr kv []) (\<lambda>vs.
       returnP (i, modattr, if vs = [] then None else Some vs)))))"

definition after_modification :: "url_io \<Rightarrow> key_value parse" where
  "after_modification io =
     bindP (next_or_end io) (\<lambda>kv. if fst kv = Some ''-'' then next_or_end io else returnP kv)"

lemma controls_shrink: "keeps shrinks (read_controls io kv)"
  unfolding keeps_def
proof
  fix p
  show "shrinks p (snd (read_controls io kv p))"
  proof (induction "weight p" arbitrary: kv p rule: less_induct)
    case less
    obtain x q where n: "next_key_and_value io p = (x, q)" by fastforce
    then have q: "weight q \<le> weight p" using next_shrinks[of io] by (auto simp: keeps_def shrinks_def dest: spec[of _ p])
    show ?case
    proof (cases x)
      case (Inl e)
      then show ?thesis
        unfolding read_controls.simps[of io kv p] shrinks_def using n q by (auto split: sum.splits)
    next
      case (Inr kv')
      then have "weight q < weight p" using n next_weight by simp
      then have "shrinks q (snd (read_controls io kv' q))" using less by blast
      then show ?thesis
        unfolding read_controls.simps[of io kv p] shrinks_def using n q Inr by (auto split: sum.splits)
    qed
  qed
qed

lemma changetype_shrinks: "keeps shrinks (read_changetype io kv)"
  unfolding read_changetype_def by (cases kv) (auto intro!: keeps_rules shrinks_order next_shrinks)

lemma mod_values_shrink: "keeps shrinks (mod_values_loop io modattr kv acc)"
  unfolding keeps_def
proof
  fix p
  show "shrinks p (snd (mod_values_loop io modattr kv acc p))"
  proof (induction "weight p" arbitrary: kv acc p rule: less_induct)
    case less
    obtain x q where n: "next_or_end io p = (x, q)" by fastforce
    then have q: "weight q \<le> weight p" using next_or_end_shrinks[of io] by (auto simp: keeps_def shrinks_def dest: spec[of _ p])
    show ?case
    proof (cases "\<exists>k' v'. x = Inr (Some k', v')")
      case True
      then obtain k' v' where x: "x = Inr (Some k', v')" by blast
      then have "weight q < weight p" using n next_or_end_weight by simp
      then have "shrinks q (snd (mod_values_loop io modattr (Some k', v') acc' q))" for acc' using less by blast
      then show ?thesis
        unfolding mod_values_loop.simps[of io modattr kv acc p] shrinks_def using n x q
        by (auto split: option.splits intro: order.trans)
    next
      case False
      then show ?thesis
        unfolding mod_values_loop.simps[of io modattr kv acc p] shrinks_def
        using n q by (cases x) (auto split: option.splits)
    qed
  qed
qed

lemma one_modification_shrinks: "keeps shrinks (one_modification io op v)"
  unfolding one_modification_def
  by (intro keeps_rules shrinks_order next_or_end_shrinks mod_values_shrink)

lemma after_modification_shrinks: "keeps shrinks (after_modification io)"
  unfolding after_modification_def by (intro keeps_rules shrinks_order next_or_end_shrinks)

lemma after_modification_weight: "after_modification io p = (Inr (Some k, v), p') \<Longrightarrow> weight p' < weight p"
proof -
  assume a: "after_modification io p = (Inr (Some k, v), p')"
  then obtain kv q where n: "next_or_end io p = (Inr kv, q)"
    "(if fst kv = Some ''-'' then next_or_end io else returnP kv) q = (Inr (Some k, v), p')"
    by (auto simp: after_modification_def bindP_def split: prod.splits sum.splits)
  have "weight q \<le> weight p" using n(1) next_or_end_shrinks[of io] by (auto simp: keeps_def shrinks_def dest: spec[of _ p])
  moreover obtain k0 v0 where "kv = (k0, v0)" by fastforce
  ultimately show ?thesis
    using n next_or_end_weight[of io p] next_or_end_weight[of io q] by (auto simp: returnP_def split: if_splits)
qed

function mod_ops_loop :: "url_io \<Rightarrow> key_value \<Rightarrow> modop list \<Rightarrow> modop list parse" where
  "mod_ops_loop io kv ms p =
     (case fst kv of
        None \<Rightarrow> (Inr ms, p)
      | Some op \<Rightarrow>
          (case bindP (one_modification io op (snd kv)) (\<lambda>m. bindP (after_modification io) (\<lambda>kv'. returnP (m, kv'))) p of
             (Inl e, p') \<Rightarrow> (Inl e, p')
           | (Inr (m, kv'), p') \<Rightarrow>
               if fst kv' = None then (Inr (ms @ [m]), p') else mod_ops_loop io kv' (ms @ [m]) p'))"
  by pat_completeness auto
termination
proof (relation "measure (\<lambda>(io, kv, ms, p). weight p)", goal_cases)
  case (2 io kv ms p op x p' r m kv')
  then obtain q where q: "one_modification io op (snd kv) p = (Inr m, q)" "after_modification io q = (Inr kv', p')"
    by (auto simp: bindP_def returnP_def split: prod.splits sum.splits dest!: sym[of _ "bindP _ _ _"])
  have "weight q \<le> weight p" using q(1) one_modification_shrinks[of io op "snd kv"]
    by (auto simp: keeps_def shrinks_def dest: spec[of _ p])
  moreover have "weight p' < weight q" using q(2) after_modification_weight[of io q] 2 by (cases kv') fastforce
  ultimately show ?case by simp
qed simp

declare mod_ops_loop.simps [simp del]

lemma mod_ops_shrink: "keeps shrinks (mod_ops_loop io kv ms)"
  unfolding keeps_def
proof
  fix p
  show "shrinks p (snd (mod_ops_loop io kv ms p))"
  proof (induction "weight p" arbitrary: kv ms p rule: less_induct)
    case less
    show ?case
    proof (cases "fst kv")
      case None
      then show ?thesis by (simp add: mod_ops_loop.simps[of io kv ms p] shrinks_def)
    next
      case (Some op)
      let ?m = "bindP (one_modification io op (snd kv)) (\<lambda>m. bindP (after_modification io) (\<lambda>kv'. returnP (m, kv')))"
      obtain x q where n: "?m p = (x, q)" by fastforce
      have "keeps shrinks ?m"
        by (intro keeps_rules shrinks_order one_modification_shrinks after_modification_shrinks)
      then have q: "weight q \<le> weight p" using n by (auto simp: keeps_def shrinks_def dest: spec[of _ p])
      show ?thesis
      proof (cases "\<exists>m k v. x = Inr (m, (Some k, v))")
        case True
        then obtain m k v where x: "x = Inr (m, (Some k, v))" by blast
        then obtain q0 where q0: "one_modification io op (snd kv) p = (Inr m, q0)" "after_modification io q0 = (Inr (Some k, v), q)"
          using n by (auto simp: bindP_def returnP_def split: prod.splits sum.splits)
        have "weight q0 \<le> weight p" using q0(1) one_modification_shrinks[of io op "snd kv"]
          by (auto simp: keeps_def shrinks_def dest: spec[of _ p])
        then have "weight q < weight p" using after_modification_weight[OF q0(2)] by simp
        then have "shrinks q (snd (mod_ops_loop io (Some k, v) (ms @ [m]) q))" using less by blast
        then show ?thesis
          unfolding mod_ops_loop.simps[of io kv ms p] shrinks_def Some option.case n x using q by simp
      next
        case False
        then show ?thesis
          unfolding mod_ops_loop.simps[of io kv ms p] shrinks_def Some option.case n using q
          by (cases x) (auto split: prod.splits)
      qed
    qed
  qed
qed

text \<open>Records of other kinds are read over, and end with an empty line.\<close>

function read_over :: "url_io \<Rightarrow> key_value \<Rightarrow> unit parse" where
  "read_over io kv p =
     (if fst kv = None then (Inr (), p)
      else (case next_key_and_value io p of (Inl e, p') \<Rightarrow> (Inl e, p') | (Inr kv', p') \<Rightarrow> read_over io kv' p'))"
  by pat_completeness auto
termination by (relation "measure (\<lambda>(io, kv, p). weight p)") (auto dest!: next_weight[OF sym])

declare read_over.simps [simp del]

lemma read_over_shrinks: "keeps shrinks (read_over io kv)"
  unfolding keeps_def
proof
  fix p
  show "shrinks p (snd (read_over io kv p))"
  proof (induction "weight p" arbitrary: kv p rule: less_induct)
    case less
    obtain x q where n: "next_key_and_value io p = (x, q)" by fastforce
    then have q: "weight q \<le> weight p" using next_shrinks[of io] by (auto simp: keeps_def shrinks_def dest: spec[of _ p])
    show ?case
    proof (cases x)
      case (Inl e)
      then show ?thesis unfolding read_over.simps[of io kv p] shrinks_def using n q by auto
    next
      case (Inr kv')
      then have "weight q < weight p" using n next_weight by simp
      then have "shrinks q (snd (read_over io kv' q))" using less by blast
      then show ?thesis unfolding read_over.simps[of io kv p] shrinks_def using n q Inr by (auto intro: order.trans)
    qed
  qed
qed

definition handle_modify :: "string \<Rightarrow> modop list \<Rightarrow> unit parse" where
  "handle_modify dn ms = updateP (\<lambda>p. p\<lparr>all_modify_changes := all_modify_changes p @ [(dn, ms)]\<rparr>)"

definition count_record :: "string option \<Rightarrow> unit parse" where
  "count_record c =
     bindP (updateP (\<lambda>p. p\<lparr>changetype_counter :=
       (changetype_counter p)(c \<mapsto> (case changetype_counter p c of None \<Rightarrow> 0 | Some n \<Rightarrow> n) + 1)\<rparr>)) (\<lambda>_.
       updateP (\<lambda>p. p\<lparr>records_read := records_read p + 1\<rparr>))"

definition one_change :: "url_io \<Rightarrow> key_value \<Rightarrow> key_value parse" where
  "one_change io = (\<lambda>(k, v).
     bindP (liftP (record_dn k v)) (\<lambda>dn.
     bindP (next_key_and_value io) (\<lambda>kv1.
     bindP (read_controls io kv1) (\<lambda>kv2.
     bindP (read_changetype io kv2) (\<lambda>(c, kv3).
     bindP (if c = Some ''modify'' then
              bindP (mod_ops_loop io kv3 []) (\<lambda>ms. if ms = [] then returnP () else handle_modify dn ms)
            else read_over io kv3) (\<lambda>_.
     bindP (consume_empty_lines io) (\<lambda>kv'.
     bindP (count_record c) (\<lambda>_. returnP kv'))))))))"

lemma count_shrinks: "keeps shrinks (count_record c)"
  unfolding count_record_def by (intro keeps_rules shrinks_order counters_shrink)

lemma handle_modify_shrinks: "keeps shrinks (handle_modify dn ms)"
  unfolding handle_modify_def by (rule counters_shrink)

lemma one_change_weight: "one_change io kv p = (Inr kv', p') \<Longrightarrow> weight p' < weight p"
proof -
  obtain k v where kv: "kv = (k, v)" by fastforce
  assume a: "one_change io kv p = (Inr kv', p')"
  then obtain dn where "record_dn k v = Inr dn"
    by (cases "record_dn k v") (auto simp: one_change_def kv bindP_def liftP_def)
  with a show ?thesis
    by (simp add: one_change_def kv bindP_lift)
      (erule after_next_weight, auto intro!: keeps_rules shrinks_order controls_shrink changetype_shrinks
        mod_ops_shrink handle_modify_shrinks read_over_shrinks consume_shrinks count_shrinks)
qed

function change_records :: "url_io \<Rightarrow> key_value \<Rightarrow> unit parse" where
  "change_records io kv p =
     (if fst kv \<noteq> None \<and> wants_more p then
        (case one_change io kv p of (Inl e, p') \<Rightarrow> (Inl e, p') | (Inr kv', p') \<Rightarrow> change_records io kv' p')
      else (Inr (), p))"
  by pat_completeness auto
termination by (relation "measure (\<lambda>(io, kv, p). weight p)") (auto dest!: one_change_weight[OF sym])

declare change_records.simps [simp del]

definition parse_change_records :: "url_io \<Rightarrow> unit parse" where
  "parse_change_records io = bindP (first_key_and_value io False) (change_records io)"

end
