(* ===== verification/LdapLdifLines.thy ===== *)
theory LdapLdifLines
  imports LdapLdif
begin

text \<open>
  What \<open>ldap/ldif.py\<close> writes, line by line: the folding of a line and when it ends, the logical lines
  of a file and how the parser takes the next one, the line of an attribute, and the programs of the
  writer described by the logical lines they write.
\<close>

section \<open>Folding\<close>

lemma fold_rest_pieces:
  assumes "2 \<le> c"
  shows "0 \<le> pos \<Longrightarrow> \<exists>ts. fold_rest c sep line pos = Some (concat (map (\<lambda>t. '' '' @ t @ sep) ts)) \<and>
    concat ts = drop (nat pos) line \<and> (\<forall>t \<in> set ts. t \<noteq> [] \<and> int (length t) \<le> c - 1)"
proof (induction "nat (int (length line) - pos)" arbitrary: pos rule: less_induct)
  case less
  show ?case
  proof (cases "pos < int (length line)")
    case True
    let ?t = "take (nat (c - 1)) (drop (nat pos) line)"
    have "nat (int (length line) - (pos + c - 1)) < nat (int (length line) - pos)" "0 \<le> pos + c - 1"
      using True assms less.prems by auto
    from less.hyps[OF this] obtain ts where
      ts: "fold_rest c sep line (pos + c - 1) = Some (concat (map (\<lambda>t. '' '' @ t @ sep) ts))"
      "concat ts = drop (nat (pos + c - 1)) line" "\<forall>t \<in> set ts. t \<noteq> [] \<and> int (length t) \<le> c - 1" by blast
    have "nat (pos + c - 1) = nat (c - 1) + nat pos" using assms less.prems by simp
    then have "?t @ drop (nat (pos + c - 1)) line = drop (nat pos) line"
      by (metis append_take_drop_id drop_drop)
    then have "concat (?t # ts) = drop (nat pos) line" using ts(2) by simp
    moreover have "?t \<noteq> [] \<and> int (length ?t) \<le> c - 1" using True assms less.prems by auto
    moreover have "fold_rest c sep line pos = Some (concat (map (\<lambda>t. '' '' @ t @ sep) (?t # ts)))"
      using True ts(1) by (subst fold_rest.simps) simp
    ultimately show ?thesis using ts(3) by (intro exI[of _ "?t # ts"]) simp
  next
    case False
    then show ?thesis using less.prems by (intro exI[of _ "[]"]) (simp add: fold_rest.simps)
  qed
qed

text \<open>A first piece and those that follow it, which are the line again.\<close>

lemma fold_line_pieces:
  assumes "2 \<le> c"
  obtains h ts where "fold_line c sep line = Some (h @ sep @ concat (map (\<lambda>t. '' '' @ t @ sep) ts))"
    "h @ concat ts = line" "int (length h) \<le> c" "h = [] \<longrightarrow> line = []" "\<forall>t \<in> set ts. t \<noteq> [] \<and> int (length t) \<le> c - 1"
proof (cases "int (length line) \<le> c")
  case True
  then show ?thesis by (intro that[of line "[]"]) (simp_all add: fold_line_def)
next
  case False
  obtain ts where ts: "fold_rest c sep line c = Some (concat (map (\<lambda>t. '' '' @ t @ sep) ts))"
    "concat ts = drop (nat c) line" "\<forall>t \<in> set ts. t \<noteq> [] \<and> int (length t) \<le> c - 1"
    using fold_rest_pieces[OF assms, of c sep line] assms by auto
  show ?thesis
    using False ts assms by (intro that[of "take (nat c) line" ts]) (auto simp: fold_line_def)
qed

text \<open>With fewer columns than two a line that has to be folded is never done.\<close>

lemma fold_rest_stuck:
  assumes "fold_rest c sep line pos = Some r" "c < 2" "pos < int (length line)"
  shows False
proof -
  have "c < 2 \<longrightarrow> \<not> pos < int (length line)" if "fold_rest c sep line pos = Some z" for c sep line pos z
    using that
  proof (rule fold_rest.raw_induct[rotated], goal_cases)
    case (1 g c' sep' line' pos' y)
    show ?case
    proof (intro impI notI)
      assume c: "c' < 2" "pos' < int (length line')"
      then obtain r where "g c' sep' line' (pos' + c' - 1) = Some r"
        using 1(2) by (auto simp: Option.bind_eq_Some_conv)
      from 1(1)[OF this] c show False by simp
    qed
  qed
  then show ?thesis using assms by blast
qed

lemma fold_line_ends: "fold_line c sep line \<noteq> None \<longleftrightarrow> 2 \<le> c \<or> int (length line) \<le> c"
proof
  assume "fold_line c sep line \<noteq> None"
  then show "2 \<le> c \<or> int (length line) \<le> c"
    using fold_rest_stuck[of c sep line c] by (fastforce simp: fold_line_def Option.bind_eq_Some_conv split: if_splits)
next
  assume "2 \<le> c \<or> int (length line) \<le> c"
  then show "fold_line c sep line \<noteq> None"
  proof
    assume "2 \<le> c"
    then show ?thesis by (rule fold_line_pieces[of c sep line]) simp
  qed (simp add: fold_line_def)
qed

section \<open>Lines of a file\<close>

text \<open>A logical line as it stands in a file: the first piece, and the others.\<close>

type_synonym pieces = "string \<times> string list"

definition logical :: "pieces \<Rightarrow> string" where "logical P = fst P @ concat (snd P)"

definition physical :: "pieces \<Rightarrow> string list" where "physical P = fst P # map (\<lambda>t. CHR '' '' # t) (snd P)"

definition file_text :: "pieces list \<Rightarrow> string" where
  "file_text Ps = concat (map (\<lambda>l. l @ [CHR 0x0A]) (concat (map physical Ps)))"

definition plain_pieces :: "pieces \<Rightarrow> bool" where
  "plain_pieces P \<longleftrightarrow> CHR 0x0A \<notin> set (logical P) \<and> CHR 0x0D \<notin> set (logical P) \<and>
     (fst P = [] \<longrightarrow> logical P = [] \<and> snd P = []) \<and> (fst P \<noteq> [] \<longrightarrow> hd (fst P) \<noteq> CHR '' '')"

text \<open>What is left to be read: the line read last, and the lines of the file as \<open>readline\<close> gives them.\<close>

definition file_at :: "pyldif \<Rightarrow> string list \<Rightarrow> bool" where
  "file_at p ls \<longleftrightarrow>
     (case ls of
        [] \<Rightarrow> last_line p = None \<and> input_lines p = []
      | l # rest \<Rightarrow> last_line p = Some l \<and>
          list_all2 (\<lambda>x t. to_unicode x = Inr (t @ [CHR 0x0A]) \<and> CHR 0x0D \<notin> set t) (input_lines p) rest)"

definition same_but_lines :: "pyldif \<Rightarrow> pyldif \<Rightarrow> bool" where
  "same_but_lines p q \<longleftrightarrow> 
     q\<lparr>last_line := None, input_lines := [], line_counter := 0, byte_counter := 0\<rparr> =
     p\<lparr>last_line := None, input_lines := [], line_counter := 0, byte_counter := 0\<rparr>"

lemma same_refl [simp]: "same_but_lines p p"
  by (simp add: same_but_lines_def)

lemma same_trans: "same_but_lines p q \<Longrightarrow> same_but_lines q r \<Longrightarrow> same_but_lines p r"
  by (auto simp: same_but_lines_def)

lemma strip_newline_line: "CHR 0x0D \<notin> set t \<Longrightarrow> strip_newline (t @ [CHR 0x0A]) = t"
  by (cases t rule: rev_cases) (auto simp: strip_newline_def butlast_append)

lemma readline_line:
  assumes "input_lines p = x # xs" "to_unicode x = Inr (t @ [CHR 0x0A])" "CHR 0x0D \<notin> set t"
  shows "\<exists>q. ldif_readline p = (Inr (Some t), q) \<and> input_lines q = xs \<and> last_line q = last_line p \<and> same_but_lines p q"
  using assms unfolding ldif_readline_def same_but_lines_def
  by (auto simp: strip_newline_line)

lemma readline_end:
  assumes "input_lines p = []"
  shows "\<exists>q. ldif_readline p = (Inr None, q) \<and> input_lines q = [] \<and> last_line q = last_line p \<and> same_but_lines p q"
  using assms unfolding ldif_readline_def same_but_lines_def
  by auto

lemma more_lines_pieces:
  assumes "list_all2 (\<lambda>x t. to_unicode x = Inr (t @ [CHR 0x0A]) \<and> CHR 0x0D \<notin> set t) (input_lines p)
      (map (\<lambda>t. CHR '' '' # t) ts @ rest)"
    and "rest = [] \<or> hd rest = [] \<or> hd (hd rest) \<noteq> CHR '' ''"
  shows "\<exists>q. more_lines acc p = (Inr (acc @ ts, case rest of [] \<Rightarrow> None | l # ls \<Rightarrow> Some l), q) \<and>
    list_all2 (\<lambda>x t. to_unicode x = Inr (t @ [CHR 0x0A]) \<and> CHR 0x0D \<notin> set t) (input_lines q) (tl rest) \<and>
    (rest = [] \<longrightarrow> input_lines q = []) \<and> same_but_lines p q"
  using assms(1)
proof (induction ts arbitrary: p acc)
  case Nil
  show ?case
  proof (cases rest)
    case Nil
    then have "input_lines p = []" using Nil.prems by simp
    from readline_end[OF this] obtain q where "ldif_readline p = (Inr None, q)" "input_lines q = []" "same_but_lines p q" by blast
    then show ?thesis using Nil by (simp add: more_lines.simps[of acc p])
  next
    case (Cons l ls)
    then obtain x xs where x: "input_lines p = x # xs" "to_unicode x = Inr (l @ [CHR 0x0A])" "CHR 0x0D \<notin> set l"
      "list_all2 (\<lambda>x t. to_unicode x = Inr (t @ [CHR 0x0A]) \<and> CHR 0x0D \<notin> set t) xs ls"
      using Nil.prems by (auto simp: list_all2_Cons2)
    from readline_line[OF x(1-3)] obtain q where "ldif_readline p = (Inr (Some l), q)" "input_lines q = xs" "same_but_lines p q" by blast
    then show ?thesis using Cons x(4) assms(2) by (cases l) (simp_all add: more_lines.simps[of acc p])
  qed
next
  case (Cons t ts)
  then obtain x xs where x: "input_lines p = x # xs" "to_unicode x = Inr ((CHR '' '' # t) @ [CHR 0x0A])" "CHR 0x0D \<notin> set (CHR '' '' # t)"
    "list_all2 (\<lambda>x t. to_unicode x = Inr (t @ [CHR 0x0A]) \<and> CHR 0x0D \<notin> set t) xs (map (\<lambda>t. CHR '' '' # t) ts @ rest)"
    by (auto simp: list_all2_Cons2)
  from readline_line[OF x(1-3)] obtain q where q: "ldif_readline p = (Inr (Some (CHR '' '' # t)), q)" "input_lines q = xs" "same_but_lines p q" by blast
  then have "more_lines acc p = more_lines (acc @ [t]) q" by (simp add: more_lines.simps[of acc p])
  moreover from Cons.IH[of q "acc @ [t]"] x(4) q(2) obtain r where
    "more_lines (acc @ [t]) q = (Inr ((acc @ [t]) @ ts, case rest of [] \<Rightarrow> None | l # ls \<Rightarrow> Some l), r)"
    "list_all2 (\<lambda>x t. to_unicode x = Inr (t @ [CHR 0x0A]) \<and> CHR 0x0D \<notin> set t) (input_lines r) (tl rest)"
    "rest = [] \<longrightarrow> input_lines r = []" "same_but_lines q r" by auto
  ultimately show ?case using same_trans[OF q(3)] by auto
qed

text \<open>The next logical line.\<close>

definition lines_at :: "pyldif \<Rightarrow> pieces list \<Rightarrow> bool" where
  "lines_at p Ps \<longleftrightarrow> file_at p (concat (map physical Ps)) \<and> (\<forall>P \<in> set Ps. plain_pieces P)"

lemma physical_head: "concat (map physical (P # Ps)) = fst P # map (\<lambda>t. CHR '' '' # t) (snd P) @ concat (map physical Ps)"
  by (simp add: physical_def)

lemma unfold_next:
  assumes "lines_at p (P # Ps)"
  shows "\<exists>q. ldif_unfold_lines p = (Inr (logical P), q) \<and> lines_at q Ps \<and> same_but_lines p q"
proof -
  let ?rest = "concat (map physical Ps)"
  have f: "last_line p = Some (fst P)"
    "list_all2 (\<lambda>x t. to_unicode x = Inr (t @ [CHR 0x0A]) \<and> CHR 0x0D \<notin> set t) (input_lines p) (map (\<lambda>t. CHR '' '' # t) (snd P) @ ?rest)"
    using assms unfolding lines_at_def physical_head file_at_def by simp_all
  have r: "?rest = [] \<or> hd ?rest = [] \<or> hd (hd ?rest) \<noteq> CHR '' ''"
    using assms by (cases Ps) (auto simp: lines_at_def physical_def plain_pieces_def)
  from more_lines_pieces[OF f(2) r, of "[fst P]"] obtain q where
    q: "more_lines [fst P] p = (Inr ([fst P] @ snd P, case ?rest of [] \<Rightarrow> None | l # ls \<Rightarrow> Some l), q)"
    "list_all2 (\<lambda>x t. to_unicode x = Inr (t @ [CHR 0x0A]) \<and> CHR 0x0D \<notin> set t) (input_lines q) (tl ?rest)"
    "?rest = [] \<longrightarrow> input_lines q = []" "same_but_lines p q" by blast
  let ?q = "q\<lparr>last_line := case ?rest of [] \<Rightarrow> None | l # ls \<Rightarrow> Some l\<rparr>"
  have "ldif_unfold_lines p = (Inr (logical P), ?q)"
    using f(1) q(1) by (simp add: ldif_unfold_lines_def logical_def)
  moreover have "file_at (q\<lparr>last_line := case rest of [] \<Rightarrow> None | l # ls \<Rightarrow> Some l\<rparr>) rest"
    if "list_all2 (\<lambda>x t. to_unicode x = Inr (t @ [CHR 0x0A]) \<and> CHR 0x0D \<notin> set t) (input_lines q) (tl rest)"
      "rest = [] \<longrightarrow> input_lines q = []" for rest
    using that by (cases rest) (simp_all add: file_at_def)
  note rest = this[OF q(2,3)]
  moreover have "same_but_lines p ?q" using q(4) by (auto simp: same_but_lines_def)
  ultimately show ?thesis using assms rest by (auto simp: lines_at_def)
qed

lemma next_line:
  assumes "lines_at p (P # Ps)" "logical P = [] \<or> hd (logical P) \<noteq> CHR ''#''"
  shows "\<exists>q. next_key_and_value io p = (line_parts io (process_url_schemes p) (logical P), q) \<and> lines_at q Ps \<and> same_but_lines p q"
proof -
  obtain q where q: "ldif_unfold_lines p = (Inr (logical P), q)" "lines_at q Ps" "same_but_lines p q"
    using unfold_next[OF assms(1)] by blast
  have "skip_comments (logical P) q = (Inr (logical P), q)" using assms(2) by (subst skip_comments.simps) auto
  moreover have "process_url_schemes q = process_url_schemes p" using q(3) by (auto simp: same_but_lines_def dest: arg_cong[of _ _ process_url_schemes])
  ultimately show ?thesis using q by (simp add: next_key_and_value_def bindP_def getP_def liftP_def)
qed

lemma next_end: "lines_at p [] \<Longrightarrow> next_key_and_value io p = (Inl EOFError, p)"
  by (simp add: lines_at_def file_at_def next_key_and_value_def ldif_unfold_lines_def bindP_def)

section \<open>Lines of attributes\<close>

definition plain_type :: "string \<Rightarrow> bool" where
  "plain_type t \<longleftrightarrow> t \<noteq> [] \<and> hd t \<noteq> CHR '' '' \<and> hd t \<noteq> CHR ''#'' \<and>
     CHR '':'' \<notin> set t \<and> CHR 0x0A \<notin> set t \<and> CHR 0x0D \<notin> set t"

definition in_base64 :: "string list \<Rightarrow> string \<Rightarrow> bytes \<Rightarrow> bool" where
  "in_base64 b64 t v \<longleftrightarrow> lower t \<in> set b64 \<or> unsafe_value v"

definition attribute_line :: "string list \<Rightarrow> string \<Rightarrow> bytes \<Rightarrow> string" where
  "attribute_line b64 t v =
     (if in_base64 b64 t v then t @ '':: '' @ ascii_text (b64_encode v) else t @ '': '' @ ascii_text v)"

text \<open>A value that is written as it is must not begin with white space, which the reader strips.\<close>

definition readable :: "string list \<Rightarrow> string \<times> bytes \<Rightarrow> bool" where
  "readable b64 = (\<lambda>(t, v). plain_type t \<and> (in_base64 b64 t v \<or> v = [] \<or> \<not> py_space (char_of (unat (hd v)))))"

lemma utf8_ascii: "x < (128 :: byte) \<Longrightarrow> utf8_char (char_of (unat x)) = [x]"
  by (simp add: utf8_char_def Let_def)

lemma utf8_ascii_text: "\<forall>x \<in> set v. x < 128 \<Longrightarrow> utf8_encode (ascii_text v) = v"
  by (induction v) (auto simp: ascii_text_def utf8_ascii)

lemma encode_ascii_text: "\<forall>x \<in> set v. x < 128 \<Longrightarrow> encode_ascii (ascii_text v) = Inr v"
proof -
  assume v: "\<forall>x \<in> set v. x < 128"
  then have "list_all (\<lambda>c. (of_char c :: nat) < 128) (ascii_text v)"
    using unat_byte by (auto simp: list_all_iff ascii_text_def word_less_nat_alt)
  then show ?thesis using utf8_ascii_text[OF v] by (simp add: encode_ascii_def)
qed

lemma b64_small: "x \<in> set (b64_encode v) \<Longrightarrow> x < 128 \<and> x \<noteq> 10 \<and> x \<noteq> 13"
proof -
  assume "x \<in> set (b64_encode v)"
  then have "x \<in> set (lit b64_alphabet) \<union> {b64_pad}" using set_b64_encode by blast
  moreover have "list_all (\<lambda>c. c < 128 \<and> c \<noteq> 10 \<and> c \<noteq> 13) (b64_pad # lit b64_alphabet)" by code_simp
  ultimately show ?thesis by (auto simp: list_all_iff)
qed

lemma safe_small: "\<not> unsafe_value v \<Longrightarrow> \<forall>x \<in> set v. x < 128 \<and> x \<noteq> 10 \<and> x \<noteq> 13"
  by (auto simp: unsafe_value_def list_ex_iff not_le)

lemma decode_b64: "decodebytes (32 # b64_encode v) = Inr v"
  using a2b_encode_append[of v "[]"] by (simp add: decodebytes_def b64_value_def)

lemma line_split:
  assumes "CHR '':'' \<notin> set t"
  shows "takeWhile (\<lambda>c. c \<noteq> CHR '':'') (t @ CHR '':'' # r) = t" "dropWhile (\<lambda>c. c \<noteq> CHR '':'') (t @ CHR '':'' # r) = CHR '':'' # r"
  using assms by (induction t) auto

lemma ascii_chars: "\<forall>x \<in> set v. x \<noteq> 10 \<and> x \<noteq> 13 \<Longrightarrow> CHR 0x0A \<notin> set (ascii_text v) \<and> CHR 0x0D \<notin> set (ascii_text v)"
proof -
  have "x = of_char c" if "char_of (unat x) = c" for x :: byte and c :: char
    using of_char_char_of_byte[of x] that by simp
  from this[of _ "CHR 0x0A"] this[of _ "CHR 0x0D"] show "\<forall>x \<in> set v. x \<noteq> 10 \<and> x \<noteq> 13 \<Longrightarrow> ?thesis"
    by (auto simp: ascii_text_def)
qed

lemma attribute_line_parts:
  assumes "readable b64 (t, v)"
  shows "line_parts io schemes (attribute_line b64 t v) = Inr (Some t, Some v)"
proof -
  have t: "t \<noteq> []" "CHR '':'' \<notin> set t" using assms by (auto simp: readable_def plain_type_def)
  have parts: "line_parts io schemes (t @ CHR '':'' # r) =
      bindE (line_value io schemes (CHR '':'' # r)) (\<lambda>v. Inr (Some t, v))" for r
    using t line_split[OF t(2), of r] by (cases t) (auto simp: line_parts_def)
  show ?thesis
  proof (cases "in_base64 b64 t v")
    case True
    have "\<forall>x \<in> set (32 # b64_encode v). x < 128" using b64_small by auto
    from encode_ascii_text[OF this] have e: "encode_ascii (CHR '' '' # ascii_text (b64_encode v)) = Inr (32 # b64_encode v)"
      by (simp add: ascii_text_def)
    have "attribute_line b64 t v = t @ CHR '':'' # CHR '':'' # CHR '' '' # ascii_text (b64_encode v)"
      using True by (simp add: attribute_line_def)
    then show ?thesis by (simp add: parts line_value_def e decode_b64)
  next
    case False
    then have safe: "\<forall>x \<in> set v. x < 128" using safe_small by (auto simp: in_base64_def)
    have "v = [] \<or> \<not> py_space (hd (ascii_text v))"
      using assms False by (cases v) (auto simp: readable_def ascii_text_def)
    then have "dropWhile py_space (ascii_text v) = ascii_text v" by (cases v) (auto simp: ascii_text_def)
    moreover have "attribute_line b64 t v = t @ CHR '':'' # CHR '' '' # ascii_text v"
      using False by (simp add: attribute_line_def)
    ultimately show ?thesis by (simp add: parts line_value_def utf8_ascii_text[OF safe])
  qed
qed

definition plain_line_text :: "string \<Rightarrow> bool" where
  "plain_line_text l \<longleftrightarrow> CHR 0x0A \<notin> set l \<and> CHR 0x0D \<notin> set l \<and> (l = [] \<or> hd l \<noteq> CHR '' '' \<and> hd l \<noteq> CHR ''#'')"

lemma attribute_line_plain:
  assumes "plain_type t"
  shows "plain_line_text (attribute_line b64 t v)" "attribute_line b64 t v \<noteq> []"
proof -
  have "CHR 0x0A \<notin> set (ascii_text (b64_encode v)) \<and> CHR 0x0D \<notin> set (ascii_text (b64_encode v))"
    using b64_small by (intro ascii_chars) blast
  moreover have "\<not> unsafe_value v \<Longrightarrow> CHR 0x0A \<notin> set (ascii_text v) \<and> CHR 0x0D \<notin> set (ascii_text v)"
    using safe_small by (intro ascii_chars) blast
  ultimately show "plain_line_text (attribute_line b64 t v)" "attribute_line b64 t v \<noteq> []"
    using assms by (cases t; auto simp: attribute_line_def plain_line_text_def plain_type_def in_base64_def)+
qed

section \<open>What the writer writes\<close>

text \<open>A program of the writer that writes these logical lines, whatever was written before.\<close>

definition same_config :: "ldif_writer \<Rightarrow> ldif_writer \<Rightarrow> bool" where
  "same_config w w' \<longleftrightarrow> base64_attrs w' = base64_attrs w \<and> cols w' = cols w \<and> line_sep w' = line_sep w"

definition fits_columns :: "int \<Rightarrow> pieces \<Rightarrow> bool" where
  "fits_columns c P \<longleftrightarrow> (\<forall>l \<in> set (physical P). int (length l) \<le> c)"

definition produces :: "string list \<Rightarrow> int \<Rightarrow> unit wprog \<Rightarrow> string list \<Rightarrow> bool" where
  "produces b64 c m ls \<longleftrightarrow>
     (\<forall>w. base64_attrs w = b64 \<longrightarrow> cols w = c \<longrightarrow> line_sep w = [CHR 0x0A] \<longrightarrow>
       (\<exists>w' Ps. m w = Some (Inr (), w') \<and> same_config w w' \<and> output_file w' = output_file w @ file_text Ps \<and>
         map logical Ps = ls \<and> (\<forall>P \<in> set Ps. plain_pieces P \<and> fits_columns c P)))"

lemma file_text_append: "file_text (Ps @ Qs) = file_text Ps @ file_text Qs"
  by (simp add: file_text_def)

lemma produces_bind:
  assumes "produces b64 c m ls" "produces b64 c (f ()) ks"
  shows "produces b64 c (bindW m f) (ls @ ks)"
  unfolding produces_def
proof (intro allI impI)
  fix w :: ldif_writer
  assume w: "base64_attrs w = b64" "cols w = c" "line_sep w = [CHR 0x0A]"
  from assms(1) w obtain w1 Ps where 1: "m w = Some (Inr (), w1)" "same_config w w1" "output_file w1 = output_file w @ file_text Ps"
    "map logical Ps = ls" "\<forall>P \<in> set Ps. plain_pieces P \<and> fits_columns c P" unfolding produces_def by blast
  from assms(2) w 1(2) obtain w2 Qs where 2: "f () w1 = Some (Inr (), w2)" "same_config w1 w2" "output_file w2 = output_file w1 @ file_text Qs"
    "map logical Qs = ks" "\<forall>P \<in> set Qs. plain_pieces P \<and> fits_columns c P" unfolding produces_def same_config_def by metis
  show "\<exists>w' Ps. bindW m f w = Some (Inr (), w') \<and> same_config w w' \<and> output_file w' = output_file w @ file_text Ps \<and>
      map logical Ps = ls @ ks \<and> (\<forall>P \<in> set Ps. plain_pieces P \<and> fits_columns c P)"
    using 1 2 by (intro exI[of _ w2] exI[of _ "Ps @ Qs"]) (auto simp: bindW_def file_text_append same_config_def)
qed

lemma produces_each:
  "(\<And>x. x \<in> set xs \<Longrightarrow> produces b64 c (f x) (g x)) \<Longrightarrow> produces b64 c (each_W f xs) (concat (map g xs))"
proof (induction xs)
  case Nil
  have "each_W f [] w = Some (Inr (), w)" for w by simp
  then show ?case by (auto simp: produces_def same_config_def file_text_def intro!: exI[of _ "[]"])
next
  case (Cons x xs)
  have "each_W f (x # xs) = bindW (f x) (\<lambda>_. each_W f xs)" by (simp add: fun_eq_iff)
  then show ?case using produces_bind[of b64 c "f x" "g x" "\<lambda>_. each_W f xs"] Cons by simp
qed

lemma produces_line:
  assumes "2 \<le> c" "plain_line_text l" "l \<noteq> []"
  shows "produces b64 c (writer_unfold_lines l) [l]"
  unfolding produces_def
proof (intro allI impI)
  fix w :: ldif_writer
  assume w: "base64_attrs w = b64" "cols w = c" "line_sep w = [CHR 0x0A]"
  obtain h ts where P: "fold_line c [CHR 0x0A] l = Some (h @ [CHR 0x0A] @ concat (map (\<lambda>t. '' '' @ t @ [CHR 0x0A]) ts))"
    "h @ concat ts = l" "int (length h) \<le> c" "h = [] \<longrightarrow> l = []" "\<forall>t \<in> set ts. t \<noteq> [] \<and> int (length t) \<le> c - 1"
    by (rule fold_line_pieces[OF assms(1)])
  have written: "file_text [(h, ts)] = h @ [CHR 0x0A] @ concat (map (\<lambda>t. '' '' @ t @ [CHR 0x0A]) ts)"
    by (simp add: file_text_def physical_def comp_def)
  have "plain_pieces (h, ts)"
    using P(2,4) assms(2,3) by (cases h) (auto simp: plain_pieces_def logical_def plain_line_text_def)
  moreover have "fits_columns c (h, ts)" using P(3,5) by (auto simp: fits_columns_def physical_def)
  ultimately show "\<exists>w' Ps. writer_unfold_lines l w = Some (Inr (), w') \<and> same_config w w' \<and>
      output_file w' = output_file w @ file_text Ps \<and> map logical Ps = [l] \<and> (\<forall>P \<in> set Ps. plain_pieces P \<and> fits_columns c P)"
    using P(1,2) w written
    by (intro exI[of _ "w\<lparr>output_file := output_file w @ file_text [(h, ts)]\<rparr>"] exI[of _ "[(h, ts)]"])
      (simp add: writer_unfold_lines_def writeW_def same_config_def logical_def)
qed

lemma produces_attribute:
  assumes "2 \<le> c" "plain_type t"
  shows "produces b64 c (unparseAttrTypeandValue t v) [attribute_line b64 t v]"
proof -
  have "unparseAttrTypeandValue t v w = writer_unfold_lines (attribute_line b64 t v) w" if "base64_attrs w = b64" for w
    using that by (simp add: unparseAttrTypeandValue_def attribute_line_def needs_base64_encoding_def in_base64_def)
  then show ?thesis
    using produces_line[OF assms(1) attribute_line_plain[OF assms(2)], of b64 b64 v] unfolding produces_def by metis
qed

lemma produces_write:
  assumes "plain_line_text l" "int (length l) \<le> c"
  shows "produces b64 c (\<lambda>w. writeW (l @ line_sep w) w) [l]"
  using assms unfolding produces_def
  by (auto simp: writeW_def same_config_def file_text_def physical_def logical_def plain_pieces_def plain_line_text_def
      fits_columns_def intro!: exI[of _ "[(l, [])]"])

lemma produces_count: "produces b64 c (\<lambda>w. Some (Inr (), w\<lparr>records_written := f w\<rparr>)) []"
  by (simp add: produces_def same_config_def file_text_def)

end
