(* ===== verification/LdapLdifRoundtrip.thy ===== *)
theory LdapLdifRoundtrip
  imports LdapLdifLines
begin

text \<open>
  The two parsers of \<open>ldap/ldif.py\<close> on what its writer writes: entries and modifications come back as
  they were, from text and from binary files, whatever the columns at which lines are folded.
\<close>

section \<open>What the parser reads\<close>

definition logical_at :: "pyldif \<Rightarrow> string list \<Rightarrow> bool" where
  "logical_at p ls \<longleftrightarrow> (\<exists>Ps. lines_at p Ps \<and> map logical Ps = ls)"

lemma next_logical:
  assumes "logical_at p (l # ls)" "l = [] \<or> hd l \<noteq> CHR ''#''"
  shows "\<exists>q. next_key_and_value io p = (line_parts io (process_url_schemes p) l, q) \<and> logical_at q ls \<and> same_but_lines p q"
proof -
  obtain P Ps where P: "lines_at p (P # Ps)" "logical P = l" "map logical Ps = ls"
    using assms(1) by (auto simp: logical_at_def map_eq_Cons_conv)
  from next_line[OF P(1), of io] assms(2) P(2,3) show ?thesis by (auto simp: logical_at_def)
qed

lemma next_attribute:
  assumes "logical_at p (attribute_line b64 t v # ls)" "readable b64 (t, v)"
  shows "\<exists>q. next_key_and_value io p = (Inr (Some t, Some v), q) \<and> logical_at q ls \<and> same_but_lines p q"
proof -
  have "plain_type t" using assms(2) by (simp add: readable_def)
  then have "hd (attribute_line b64 t v) \<noteq> CHR ''#''"
    using attribute_line_plain by (auto simp: plain_line_text_def)
  from next_logical[OF assms(1) disjI2[OF this], of io] attribute_line_parts[OF assms(2)] show ?thesis by auto
qed

lemma next_blank:
  "logical_at p ([] # ls) \<Longrightarrow> \<exists>q. next_key_and_value io p = (Inr (None, None), q) \<and> logical_at q ls \<and> same_but_lines p q"
  using next_logical[of p "[]" ls io] by (auto simp: line_parts_def)

lemma next_dash:
  "logical_at p (''-'' # ls) \<Longrightarrow> \<exists>q. next_key_and_value io p = (Inr (Some ''-'', None), q) \<and> logical_at q ls \<and> same_but_lines p q"
  using next_logical[of p "''-''" ls io] by (auto simp: line_parts_def)

lemma next_eof: "logical_at p [] \<Longrightarrow> next_key_and_value io p = (Inl EOFError, p)"
  by (auto simp: logical_at_def intro: next_end)

lemma next_or_end_Inr: "next_key_and_value io p = (Inr kv, q) \<Longrightarrow> next_or_end io p = (Inr kv, q)"
  by (simp add: next_or_end_def catchP_def)

lemma consume_eof: "logical_at p [] \<Longrightarrow> consume_empty_lines io p = (Inr (None, None), p)"
  by (subst consume_empty_lines.simps) (simp add: next_eof)

lemma consume_attribute:
  assumes "logical_at p (attribute_line b64 t v # ls)" "readable b64 (t, v)"
  shows "\<exists>q. consume_empty_lines io p = (Inr (Some t, Some v), q) \<and> logical_at q ls \<and> same_but_lines p q"
proof -
  obtain q where "next_key_and_value io p = (Inr (Some t, Some v), q)" "logical_at q ls" "same_but_lines p q"
    using next_attribute[OF assms] by blast
  then show ?thesis by (subst consume_empty_lines.simps) simp
qed

text \<open>The attributes of an entry, up to the empty line.\<close>

definition attribute_lines :: "string list \<Rightarrow> (string \<times> bytes) list \<Rightarrow> string list" where
  "attribute_lines b64 avs = map (\<lambda>(t, v). attribute_line b64 t v) avs"

lemma same_ignored: "same_but_lines p q \<Longrightarrow> ignored_attr_types q = ignored_attr_types p"
  by (auto simp: same_but_lines_def dest: arg_cong[of _ _ ignored_attr_types])

lemma attributes_read:
  assumes "logical_at p (attribute_lines b64 avs @ [] # ls)" "\<forall>a \<in> set avs. readable b64 a" "ignored_attr_types p = []"
  shows "\<exists>q. read_attributes io (Some t) (Some v) e p =
      (Inr (foldl (\<lambda>e (t, v). append_value t (Some v) e) (append_value t (Some v) e) avs), q) \<and>
    logical_at q ls \<and> same_but_lines p q"
  using assms
proof (induction avs arbitrary: p t v e)
  case Nil
  then obtain q where "next_key_and_value io p = (Inr (None, None), q)" "logical_at q ls" "same_but_lines p q"
    using next_blank[of p ls io] by (auto simp: attribute_lines_def)
  then show ?case
    using Nil.prems(3) next_or_end_Inr[of io p] by (subst read_attributes.simps) (simp add: Let_def)
next
  case (Cons a avs)
  obtain t' v' where a: "a = (t', v')" by fastforce
  have "logical_at p (attribute_line b64 t' v' # (attribute_lines b64 avs @ [] # ls))"
    using Cons.prems(1) by (simp add: attribute_lines_def a)
  then obtain q where q: "next_key_and_value io p = (Inr (Some t', Some v'), q)"
    "logical_at q (attribute_lines b64 avs @ [] # ls)" "same_but_lines p q"
    using next_attribute[of p b64 t' v' _ io] Cons.prems(2) by (auto simp: a)
  obtain r where "read_attributes io (Some t') (Some v') (append_value t (Some v) e) q =
      (Inr (foldl (\<lambda>e (t, v). append_value t (Some v) e) (append_value t' (Some v') (append_value t (Some v) e)) avs), r)"
    "logical_at r ls" "same_but_lines q r"
    using Cons.IH[OF q(2), of t' v' "append_value t (Some v) e"] Cons.prems(2,3) same_ignored[OF q(3)] by auto
  then show ?case
    using Cons.prems(3) next_or_end_Inr[OF q(1)] same_trans[OF q(3)]
    by (subst read_attributes.simps) (simp add: Let_def a)
qed

lemma attributes_read_all:
  assumes "logical_at p (attribute_lines b64 avs @ [] # ls)" "\<forall>a \<in> set avs. readable b64 a" "ignored_attr_types p = []"
  shows "\<exists>q. bindP (next_key_and_value io) (\<lambda>(k, v). read_attributes io k v []) p =
      (Inr (foldl (\<lambda>e (t, v). append_value t (Some v) e) [] avs), q) \<and> logical_at q ls \<and> same_but_lines p q"
proof (cases avs)
  case Nil
  then obtain q where "next_key_and_value io p = (Inr (None, None), q)" "logical_at q ls" "same_but_lines p q"
    using next_blank[of p ls io] assms(1) by (auto simp: attribute_lines_def)
  then show ?thesis by (simp add: Nil bindP_def read_attributes.simps[of io None])
next
  case (Cons a avs')
  obtain t v where a: "a = (t, v)" by fastforce
  have "logical_at p (attribute_line b64 t v # (attribute_lines b64 avs' @ [] # ls))"
    using assms(1) by (simp add: attribute_lines_def a Cons)
  then obtain q where q: "next_key_and_value io p = (Inr (Some t, Some v), q)"
    "logical_at q (attribute_lines b64 avs' @ [] # ls)" "same_but_lines p q"
    using next_attribute[of p b64 t v _ io] assms(2) by (auto simp: a Cons)
  from attributes_read[OF q(2), of io t v "[]"] assms(2,3) same_ignored[OF q(3)] same_trans[OF q(3)]
  show ?thesis by (auto simp: Cons a bindP_def q(1))
qed

text \<open>The dictionary that the values make.\<close>

definition value_pairs :: "(string \<times> bytes list) list \<Rightarrow> (string \<times> bytes) list" where
  "value_pairs e = concat (map (\<lambda>(t, vs). map (\<lambda>v. (t, v)) vs) e)"

definition as_parsed :: "(string \<times> bytes list) list \<Rightarrow> parsed_entry" where
  "as_parsed e = map (\<lambda>(t, vs). (t, map Some vs)) (filter (\<lambda>(t, vs). vs \<noteq> []) e)"

lemma append_value_last: "t \<notin> fst ` set e \<Longrightarrow> append_value t v (e @ [(t, vs)]) = e @ [(t, vs @ [v])]"
  by (induction e) auto

lemma append_value_new: "t \<notin> fst ` set e \<Longrightarrow> append_value t v e = e @ [(t, [v])]"
  by (induction e) auto

lemma append_values_last:
  "t \<notin> fst ` set e \<Longrightarrow> foldl (\<lambda>e (t, v). append_value t (Some v) e) (e @ [(t, us)]) (map (\<lambda>v. (t, v)) vs) =
     e @ [(t, us @ map Some vs)]"
  by (induction vs arbitrary: us) (simp_all add: append_value_last)

lemma append_values:
  "t \<notin> fst ` set e \<Longrightarrow> foldl (\<lambda>e (t, v). append_value t (Some v) e) e (map (\<lambda>v. (t, v)) vs) =
     (if vs = [] then e else e @ [(t, map Some vs)])"
  using append_values_last[of t e] by (cases vs) (auto simp: append_value_new)

lemma collected:
  "distinct (map fst (d @ e)) \<Longrightarrow>
   foldl (\<lambda>e (t, v). append_value t (Some v) e) (as_parsed d) (value_pairs e) = as_parsed (d @ e)"
proof (induction e arbitrary: d)
  case (Cons x e)
  obtain t vs where x: "x = (t, vs)" by fastforce
  have "fst ` set (as_parsed d) \<subseteq> fst ` set d" by (force simp: as_parsed_def)
  then have "t \<notin> fst ` set (as_parsed d)" using Cons.prems by (auto simp: x)
  from append_values[OF this, of vs] have "foldl (\<lambda>e (t, v). append_value t (Some v) e) (as_parsed d) (map (\<lambda>v. (t, v)) vs) =
      as_parsed (d @ [x])" by (simp add: as_parsed_def x)
  then show ?case using Cons.IH[of "d @ [x]"] Cons.prems by (simp add: value_pairs_def x)
qed (simp add: value_pairs_def)

section \<open>Entries\<close>

definition entry_lines :: "string list \<Rightarrow> (string \<times> bytes list) list \<Rightarrow> string list" where
  "entry_lines b64 e = attribute_lines b64 (value_pairs (sort_key fst e)) @ [[]]"

definition record_lines :: "string list \<Rightarrow> string \<times> (string \<times> bytes list) list \<Rightarrow> string list" where
  "record_lines b64 r = attribute_line b64 ''dn'' (utf8_encode (fst r)) # entry_lines b64 (snd r)"

definition record_ok :: "string list \<Rightarrow> string \<times> (string \<times> bytes list) list \<Rightarrow> bool" where
  "record_ok b64 r \<longleftrightarrow> ldif_is_dn (fst r) \<and> readable b64 (''dn'', utf8_encode (fst r)) \<and> distinct (map fst (snd r)) \<and>
     (\<forall>(t, vs) \<in> set (snd r). plain_type t \<and> (\<forall>v \<in> set vs. readable b64 (t, v)))"

definition parsed_record :: "string \<times> (string \<times> bytes list) list \<Rightarrow> string \<times> parsed_entry" where
  "parsed_record r = (fst r, as_parsed (sort_key fst (snd r)))"

text \<open>The empty line at the end of a record, and the count.\<close>

definition end_record :: "unit wprog" where
  "end_record =
     bindW (\<lambda>w. writeW (line_sep w) w) (\<lambda>_ w. Some (Inr (), w\<lparr>records_written := records_written w + 1\<rparr>))"

lemma produces_finish: "2 \<le> c \<Longrightarrow> produces b64 c end_record [[]]"
proof -
  assume "2 \<le> c"
  then have blank: "produces b64 c (\<lambda>w. writeW (line_sep w) w) [[]]"
    using produces_write[of "[]" c b64] by (simp add: plain_line_text_def)
  show ?thesis
    unfolding end_record_def
    using produces_bind[where f = "\<lambda>_ w. Some (Inr (), w\<lparr>records_written := records_written w + 1\<rparr>)", OF blank produces_count]
    by simp
qed

lemma produces_record:
  assumes "2 \<le> c" "record_ok b64 r"
  shows "produces b64 c (unparse (fst r) (Entry_record (snd r))) (record_lines b64 r)"
proof -
  have t: "plain_type t" if "(t, vs) \<in> set (sort_key fst (snd r))" for t vs
    using that assms(2) by (auto simp: record_ok_def)
  have each: "produces b64 c (case x of (t, vs) \<Rightarrow> each_W (unparseAttrTypeandValue t) vs) (case x of (t, vs) \<Rightarrow> map (attribute_line b64 t) vs)"
    if x: "x \<in> set (sort_key fst (snd r))" for x
  proof (cases x)
    case (Pair t vs)
    then have "plain_type t" using t x by blast
    from produces_each[of vs b64 c "unparseAttrTypeandValue t" "\<lambda>v. [attribute_line b64 t v]", OF produces_attribute[OF assms(1) this]]
    show ?thesis by (simp add: Pair)
  qed
  have "unparse_record (Entry_record (snd r)) =
      each_W (\<lambda>(t, vs). each_W (unparseAttrTypeandValue t) vs) (sort_key fst (snd r))"
    by (simp add: fun_eq_iff unparseEntryRecord_def)
  moreover have "attribute_lines b64 (value_pairs xs) = concat (map (\<lambda>(t, vs). map (attribute_line b64 t) vs) xs)" for xs
    by (induction xs) (auto simp: attribute_lines_def value_pairs_def)
  ultimately have e: "produces b64 c (unparse_record (Entry_record (snd r))) (attribute_lines b64 (value_pairs (sort_key fst (snd r))))"
    using produces_each[of "sort_key fst (snd r)" b64 c, OF each] by simp
  have "plain_type ''dn''" by (simp add: plain_type_def)
  from produces_attribute[OF assms(1) this] have dn:
    "produces b64 c (unparseAttrTypeandValue ''dn'' (utf8_encode (fst r))) [attribute_line b64 ''dn'' (utf8_encode (fst r))]" .
  note finish = produces_finish[OF assms(1), of b64]
  show ?thesis
    unfolding unparse_def record_lines_def entry_lines_def
    using produces_bind[where f = "\<lambda>_. bindW (unparse_record (Entry_record (snd r))) (\<lambda>_. end_record)", OF dn
        produces_bind[where f = "\<lambda>_. end_record", OF e finish]] by (simp add: end_record_def)
qed

lemma one_entry_read:
  assumes "logical_at p (entry_lines b64 (snd r) @ ls)" "record_ok b64 r" "ignored_attr_types p = []"
  shows "\<exists>q. one_entry io (Some ''dn'', Some (utf8_encode (fst r))) p =
      consume_empty_lines io (q\<lparr>all_records := all_records p @ [parsed_record r], records_read := records_read p + 1\<rparr>) \<and>
    logical_at q ls \<and> same_but_lines p q"
proof -
  have "\<forall>a \<in> set (value_pairs (sort_key fst (snd r))). readable b64 a"
    using assms(2) by (auto simp: record_ok_def value_pairs_def)
  moreover have "logical_at p (attribute_lines b64 (value_pairs (sort_key fst (snd r))) @ [] # ls)"
    using assms(1) by (simp add: entry_lines_def)
  ultimately obtain q where q: "bindP (next_key_and_value io) (\<lambda>(k, v). read_attributes io k v []) p =
      (Inr (foldl (\<lambda>e (t, v). append_value t (Some v) e) [] (value_pairs (sort_key fst (snd r)))), q)"
    "logical_at q ls" "same_but_lines p q"
    using attributes_read_all[of p b64 _ ls io] assms(3) by blast
  have "distinct (map fst (sort_key fst (snd r)))" using assms(2) by (simp add: record_ok_def distinct_map)
  then have e: "foldl (\<lambda>e (t, v). append_value t (Some v) e) [] (value_pairs (sort_key fst (snd r))) = as_parsed (sort_key fst (snd r))"
    using collected[of "[]"] by (simp add: as_parsed_def)
  have "all_records q = all_records p" "records_read q = records_read p"
    using q(3) by (auto simp: same_but_lines_def dest: arg_cong[of _ _ all_records] arg_cong[of _ _ records_read])
  then have "one_entry io (Some ''dn'', Some (utf8_encode (fst r))) p =
      consume_empty_lines io (q\<lparr>all_records := all_records p @ [parsed_record r], records_read := records_read p + 1\<rparr>)"
    using q(1) assms(2)
    by (auto simp: one_entry_def record_dn_def record_ok_def bindP_def liftP_def handle_entry_def updateP_def parsed_record_def e
        split: prod.splits sum.splits)
  then show ?thesis using q(2,3) by blast
qed

lemma list_all2_and: "list_all2 P xs ys \<Longrightarrow> \<forall>y \<in> set ys. Q y \<Longrightarrow> list_all2 (\<lambda>x y. P x y \<and> Q y) xs ys"
  by (induction rule: list_all2_induct) auto

lemma logical_at_fields [simp]:
  "logical_at (p\<lparr>all_records := x\<rparr>) ls = logical_at p ls" "logical_at (p\<lparr>records_read := n\<rparr>) ls = logical_at p ls"
  "logical_at (p\<lparr>all_modify_changes := y\<rparr>) ls = logical_at p ls" "logical_at (p\<lparr>changetype_counter := m\<rparr>) ls = logical_at p ls"
  by (simp_all add: logical_at_def lines_at_def file_at_def cong: list.case_cong)

definition after_records :: "pyldif \<Rightarrow> (string \<times> parsed_entry) list \<Rightarrow> pyldif \<Rightarrow> bool" where
  "after_records p rs q \<longleftrightarrow>
     all_records q = all_records p @ rs \<and> records_read q = records_read p + int (length rs) \<and> logical_at q [] \<and>
     all_modify_changes q = all_modify_changes p"

lemma entry_records_read:
  assumes "logical_at p (tl (concat (map (record_lines b64) (r # rs))))" "\<forall>x \<in> set (r # rs). record_ok b64 x"
    and "ignored_attr_types p = []" "max_entries p = 0"
  shows "\<exists>q. entry_records io (Some ''dn'', Some (utf8_encode (fst r))) p = (Inr (), q) \<and>
    after_records p (map parsed_record (r # rs)) q"
  using assms
proof (induction rs arbitrary: r p)
  case Nil
  have "logical_at p (entry_lines b64 (snd r) @ [])" using Nil.prems(1) by (simp add: record_lines_def)
  from one_entry_read[OF this, of io] Nil.prems obtain q where
    q: "one_entry io (Some ''dn'', Some (utf8_encode (fst r))) p =
      consume_empty_lines io (q\<lparr>all_records := all_records p @ [parsed_record r], records_read := records_read p + 1\<rparr>)"
    "logical_at q []" "same_but_lines p q" by auto
  let ?q = "q\<lparr>all_records := all_records p @ [parsed_record r], records_read := records_read p + 1\<rparr>"
  have "one_entry io (Some ''dn'', Some (utf8_encode (fst r))) p = (Inr (None, None), ?q)"
    unfolding q(1) by (rule consume_eof) (simp add: q(2))
  moreover have "entry_records io (None, None) ?q = (Inr (), ?q)" by (subst entry_records.simps) simp
  ultimately have "entry_records io (Some ''dn'', Some (utf8_encode (fst r))) p = (Inr (), ?q)"
    using Nil.prems(4) by (subst entry_records.simps) (simp add: wants_more_def)
  moreover have "all_modify_changes q = all_modify_changes p"
    using q(3) by (auto simp: same_but_lines_def dest: arg_cong[of _ _ all_modify_changes])
  ultimately show ?case using q(2) by (auto simp: after_records_def)
next
  case (Cons r' rs)
  let ?more = "tl (concat (map (record_lines b64) (r' # rs)))"
  have "logical_at p (entry_lines b64 (snd r) @ attribute_line b64 ''dn'' (utf8_encode (fst r')) # ?more)"
    using Cons.prems(1) by (simp add: record_lines_def[of b64 r] record_lines_def[of b64 r'])
  from one_entry_read[OF this, of io] Cons.prems obtain q where
    q: "one_entry io (Some ''dn'', Some (utf8_encode (fst r))) p =
      consume_empty_lines io (q\<lparr>all_records := all_records p @ [parsed_record r], records_read := records_read p + 1\<rparr>)"
    "logical_at q (attribute_line b64 ''dn'' (utf8_encode (fst r')) # ?more)" "same_but_lines p q" by auto
  let ?q = "q\<lparr>all_records := all_records p @ [parsed_record r], records_read := records_read p + 1\<rparr>"
  have rd: "readable b64 (''dn'', utf8_encode (fst r'))" using Cons.prems(2) by (simp add: record_ok_def)
  have "logical_at ?q (attribute_line b64 ''dn'' (utf8_encode (fst r')) # ?more)" using q(2) by simp
  from consume_attribute[OF this rd, of io] obtain p' where
    p': "consume_empty_lines io ?q = (Inr (Some ''dn'', Some (utf8_encode (fst r'))), p')" "logical_at p' ?more" "same_but_lines ?q p'"
    by blast
  have f: "ignored_attr_types p' = []" "max_entries p' = 0" "all_records p' = all_records p @ [parsed_record r]"
    "records_read p' = records_read p + 1" "all_modify_changes p' = all_modify_changes p"
    using q(3) p'(3) Cons.prems(3,4)
    by (auto simp: same_but_lines_def dest!: arg_cong[of _ _ "\<lambda>p. (ignored_attr_types p, max_entries p, all_records p, records_read p, all_modify_changes p)"])
  from Cons.IH[OF p'(2) _ f(1,2)] Cons.prems(2) obtain z where
    z: "entry_records io (Some ''dn'', Some (utf8_encode (fst r'))) p' = (Inr (), z)" "after_records p' (map parsed_record (r' # rs)) z"
    by auto
  have "entry_records io (Some ''dn'', Some (utf8_encode (fst r))) p = (Inr (), z)"
    using Cons.prems(4) q(1) p'(1) z(1) by (subst entry_records.simps) (simp add: wants_more_def)
  then show ?case using z(2) f by (auto simp: after_records_def)
qed

text \<open>A file of such lines, opened.\<close>

fun file_lines :: "string \<Rightarrow> string list" where
  "file_lines [] = []"
| "file_lines (c # s) =
     (if c = CHR 0x0A then [c] # file_lines s
      else (case file_lines s of [] \<Rightarrow> [[c]] | l # ls \<Rightarrow> (c # l) # ls))"

lemma file_lines_line: "CHR 0x0A \<notin> set l \<Longrightarrow> file_lines (l @ CHR 0x0A # s) = (l @ [CHR 0x0A]) # file_lines s"
  by (induction l) auto

lemma file_lines_text:
  "\<forall>l \<in> set ls. CHR 0x0A \<notin> set l \<Longrightarrow> file_lines (concat (map (\<lambda>l. l @ [CHR 0x0A]) ls)) = map (\<lambda>l. l @ [CHR 0x0A]) ls"
  by (induction ls) (auto simp: file_lines_line)

lemma physical_chars: "plain_pieces P \<Longrightarrow> l \<in> set (physical P) \<Longrightarrow> CHR 0x0A \<notin> set l \<and> CHR 0x0D \<notin> set l"
  by (auto simp: plain_pieces_def physical_def logical_def)

lemma init_at:
  assumes "list_all2 (\<lambda>x l. to_unicode x = Inr l) input (file_lines (file_text Ps))" "\<forall>P \<in> set Ps. plain_pieces P"
  shows "\<exists>p. pyldif_init [] 0 [] input = (Inr (), p) \<and> logical_at p (map logical Ps) \<and>
    same_but_lines (pyldif_start [] 0 [] input) p"
proof -
  let ?ls = "concat (map physical Ps)" and ?p = "pyldif_start [] 0 [] input"
  have plain: "\<forall>l \<in> set ?ls. CHR 0x0A \<notin> set l \<and> CHR 0x0D \<notin> set l" using assms(2) physical_chars by fastforce
  have "file_lines (file_text Ps) = map (\<lambda>l. l @ [CHR 0x0A]) ?ls"
    unfolding file_text_def using plain by (intro file_lines_text) blast
  then have "list_all2 (\<lambda>x t. to_unicode x = Inr (t @ [CHR 0x0A])) input ?ls" using assms(1) by (simp add: list_all2_map2)
  then have all: "list_all2 (\<lambda>x t. to_unicode x = Inr (t @ [CHR 0x0A]) \<and> CHR 0x0D \<notin> set t) input ls"
    if "ls = ?ls" for ls
    unfolding that by (rule list_all2_and) (use plain in blast)
  show ?thesis
  proof (cases ?ls)
    case Nil
    then have "Ps = []" by (cases Ps) (auto simp: physical_def)
    have "input_lines ?p = []" using all[OF Nil[symmetric]] by (simp add: pyldif_start_def)
    from readline_end[OF this] obtain q where "ldif_readline ?p = (Inr None, q)" "input_lines q = []" "same_but_lines ?p q" by blast
    then show ?thesis
      using \<open>Ps = []\<close> by (auto simp: pyldif_init_def bindP_def updateP_def logical_at_def lines_at_def file_at_def same_but_lines_def)
  next
    case (Cons l rest)
    then obtain x xs where x: "input = x # xs" "to_unicode x = Inr (l @ [CHR 0x0A])" "CHR 0x0D \<notin> set l"
      "list_all2 (\<lambda>x t. to_unicode x = Inr (t @ [CHR 0x0A]) \<and> CHR 0x0D \<notin> set t) xs rest"
      using all[OF Cons[symmetric]] by (auto simp: list_all2_Cons2)
    then have "input_lines ?p = x # xs" by (simp add: pyldif_start_def)
    from readline_line[OF this x(2,3)] obtain q where q: "ldif_readline ?p = (Inr (Some l), q)" "input_lines q = xs" "same_but_lines ?p q" by blast
    let ?q = "q\<lparr>last_line := Some l\<rparr>"
    have "lines_at ?q Ps" using x(4) q(2) Cons assms(2) by (simp add: lines_at_def file_at_def)
    then show ?thesis
      using q(1,3) by (auto simp: pyldif_init_def bindP_def updateP_def logical_at_def same_but_lines_def)
  qed
qed

lemma parse_entries_read:
  assumes "logical_at p (concat (map (record_lines b64) rs))" "\<forall>x \<in> set rs. record_ok b64 x"
    and "ignored_attr_types p = []" "max_entries p = 0"
  shows "\<exists>q. parse_entry_records io p = (Inr (), q) \<and> after_records p (map parsed_record rs) q"
proof (cases rs)
  case Nil
  then have "consume_empty_lines io p = (Inr (None, None), p)" using assms(1) by (simp add: consume_eof)
  moreover have "entry_records io (None, None) p = (Inr (), p)" by (subst entry_records.simps) simp
  ultimately show ?thesis
    using assms(1) Nil by (auto simp: parse_entry_records_def first_key_and_value_def prog_defs after_records_def)
next
  case (Cons r rs')
  let ?more = "tl (concat (map (record_lines b64) (r # rs')))"
  have "logical_at p (attribute_line b64 ''dn'' (utf8_encode (fst r)) # ?more)"
    using assms(1) by (simp add: Cons record_lines_def)
  moreover have "readable b64 (''dn'', utf8_encode (fst r))" using assms(2) by (simp add: record_ok_def Cons)
  ultimately obtain q where q: "consume_empty_lines io p = (Inr (Some ''dn'', Some (utf8_encode (fst r))), q)"
    "logical_at q ?more" "same_but_lines p q" using consume_attribute by blast
  have f: "ignored_attr_types q = []" "max_entries q = 0" "all_records q = all_records p"
    "records_read q = records_read p" "all_modify_changes q = all_modify_changes p"
    using q(3) assms(3,4)
    by (auto simp: same_but_lines_def dest!: arg_cong[of _ _ "\<lambda>p. (ignored_attr_types p, max_entries p, all_records p, records_read p, all_modify_changes p)"])
  from entry_records_read[OF q(2) _ f(1,2), of io] assms(2) obtain z where
    "entry_records io (Some ''dn'', Some (utf8_encode (fst r))) q = (Inr (), z)" "after_records q (map parsed_record (r # rs')) z"
    by (auto simp: Cons)
  then show ?thesis
    using q(1) f by (auto simp: parse_entry_records_def first_key_and_value_def prog_defs after_records_def Cons)
qed

text \<open>Many records written, and read again.\<close>

lemma records_roundtrip:
  assumes "2 \<le> c" "\<forall>r \<in> set rs. record_ok (map lower attrs) r"
  obtains w where "each_W (\<lambda>r. unparse (fst r) (Entry_record (snd r))) rs (ldif_writer_init attrs c [CHR 0x0A]) = Some (Inr (), w)"
    "\<forall>l \<in> set (file_lines (output_file w)). int (length l) \<le> c + 1"
    "\<And>input io. list_all2 (\<lambda>x l. to_unicode x = Inr l) input (file_lines (output_file w)) \<Longrightarrow>
      \<exists>p q. pyldif_init [] 0 [] input = (Inr (), p) \<and> parse_entry_records io p = (Inr (), q) \<and>
        all_records q = map parsed_record rs \<and> records_read q = int (length rs)"
proof -
  let ?b = "map lower attrs"
  have "produces ?b c (each_W (\<lambda>r. unparse (fst r) (Entry_record (snd r))) rs) (concat (map (record_lines ?b) rs))"
    by (rule produces_each) (use assms produces_record in blast)
  then obtain w Ps where w: "each_W (\<lambda>r. unparse (fst r) (Entry_record (snd r))) rs (ldif_writer_init attrs c [CHR 0x0A]) = Some (Inr (), w)"
    "output_file w = file_text Ps" "map logical Ps = concat (map (record_lines ?b) rs)" "\<forall>P \<in> set Ps. plain_pieces P \<and> fits_columns c P"
    unfolding produces_def by (auto simp: ldif_writer_init_def dest!: spec[of _ "ldif_writer_init attrs c [CHR 0x0A]"])
  have read: "\<exists>p q. pyldif_init [] 0 [] input = (Inr (), p) \<and> parse_entry_records io p = (Inr (), q) \<and>
        all_records q = map parsed_record rs \<and> records_read q = int (length rs)"
    if "list_all2 (\<lambda>x l. to_unicode x = Inr l) input (file_lines (output_file w))" for input io
  proof -
    note given = that
    obtain p where p: "pyldif_init [] 0 [] input = (Inr (), p)" "logical_at p (map logical Ps)" "same_but_lines (pyldif_start [] 0 [] input) p"
      using init_at[of input Ps] given w(2,4) by auto
    have f: "ignored_attr_types p = []" "max_entries p = 0" "all_records p = []" "records_read p = 0"
      using p(3) by (auto simp: same_but_lines_def pyldif_start_def
        dest!: arg_cong[of _ _ "\<lambda>p. (ignored_attr_types p, max_entries p, all_records p, records_read p)"])
    from parse_entries_read[OF p(2)[unfolded w(3)] assms(2) f(1,2), of io] show ?thesis
      using p(1) f by (auto simp: after_records_def)
  qed
  have "\<forall>l \<in> set (concat (map physical Ps)). CHR 0x0A \<notin> set l" using w(4) physical_chars by fastforce
  then have "file_lines (output_file w) = map (\<lambda>l. l @ [CHR 0x0A]) (concat (map physical Ps))"
    unfolding w(2) file_text_def by (rule file_lines_text)
  then have "\<forall>l \<in> set (file_lines (output_file w)). int (length l) \<le> c + 1" using w(4) by (auto simp: fits_columns_def)
  then show ?thesis using that w(1) read by blast
qed

section \<open>Changes\<close>

type_synonym modification3 = "int \<times> string \<times> bytes list option"

definition given_values :: "bytes list option \<Rightarrow> bytes list" where
  "given_values vs = (case vs of None \<Rightarrow> [] | Some l \<Rightarrow> l)"

definition op_text :: "int \<Rightarrow> string" where
  "op_text i = (case MOD_OP_STR i of None \<Rightarrow> [] | Some s \<Rightarrow> s)"

definition mod_body :: "string list \<Rightarrow> modification3 \<Rightarrow> string list" where
  "mod_body b64 = (\<lambda>(i, t, vs). map (attribute_line b64 t) (given_values vs) @ [''-''])"

definition mod_lines3 :: "string list \<Rightarrow> modification3 \<Rightarrow> string list" where
  "mod_lines3 b64 m = attribute_line b64 (op_text (fst m)) (utf8_encode (fst (snd m))) # mod_body b64 m"

definition mod_ok3 :: "string list \<Rightarrow> modification3 \<Rightarrow> bool" where
  "mod_ok3 b64 = (\<lambda>(i, t, vs). i \<in> {0, 1, 2, 3} \<and> list_all (\<lambda>c. (of_char c :: nat) < 128) t \<and> t \<noteq> ''-'' \<and> plain_type t \<and>
     readable b64 (op_text i, utf8_encode t) \<and> (\<forall>v \<in> set (given_values vs). readable b64 (t, v)))"

definition parsed_mod :: "modification3 \<Rightarrow> modop" where
  "parsed_mod = (\<lambda>(i, t, vs). (i, t, if given_values vs = [] then None else Some (given_values vs)))"

lemma op_texts: "i \<in> {0, 1, 2, 3} \<Longrightarrow> MOD_OP_INTEGER (op_text i) = Some i \<and> MOD_OP_STR i = Some (op_text i) \<and>
    plain_type (op_text i) \<and> op_text i \<noteq> ''-''"
  by (auto simp: op_text_def MOD_OP_STR_def MOD_OP_INTEGER_def plain_type_def)

lemma values_loop_read:
  assumes "logical_at p (map (attribute_line b64 t) vs @ ''-'' # ls)" "\<forall>v \<in> set vs. readable b64 (t, v)" "t \<noteq> ''-''"
  shows "\<exists>q. mod_values_loop io t (Some t, Some v) acc p = (Inr (acc @ v # vs), q) \<and> logical_at q ls \<and> same_but_lines p q"
  using assms
proof (induction vs arbitrary: p v acc)
  case Nil
  then obtain q where q: "next_key_and_value io p = (Inr (Some ''-'', None), q)" "logical_at q ls" "same_but_lines p q"
    using next_dash[of p ls io] by auto
  have "mod_values_loop io t (Some ''-'', None) (acc @ [v]) q = (Inr (acc @ [v]), q)"
    using Nil.prems(3) by (subst mod_values_loop.simps) auto
  then show ?case
    using q next_or_end_Inr[OF q(1)] by (subst mod_values_loop.simps) simp
next
  case (Cons u vs)
  then obtain q where q: "next_key_and_value io p = (Inr (Some t, Some u), q)" "logical_at q (map (attribute_line b64 t) vs @ ''-'' # ls)"
    "same_but_lines p q" using next_attribute[of p b64 t u "map (attribute_line b64 t) vs @ ''-'' # ls" io] by auto
  from Cons.IH[OF q(2), of u "acc @ [v]"] Cons.prems obtain r where
    "mod_values_loop io t (Some t, Some u) (acc @ [v]) q = (Inr ((acc @ [v]) @ u # vs), r)" "logical_at r ls" "same_but_lines q r" by auto
  then show ?case
    using next_or_end_Inr[OF q(1)] same_trans[OF q(3)] by (subst mod_values_loop.simps) simp
qed

lemma values_read:
  assumes "logical_at p (map (attribute_line b64 t) vs @ ''-'' # ls)" "\<forall>v \<in> set vs. readable b64 (t, v)" "t \<noteq> ''-''"
  shows "\<exists>q. bindP (next_or_end io) (\<lambda>kv. mod_values_loop io t kv []) p = (Inr vs, q) \<and> logical_at q ls \<and> same_but_lines p q"
proof (cases vs)
  case Nil
  then obtain q where q: "next_key_and_value io p = (Inr (Some ''-'', None), q)" "logical_at q ls" "same_but_lines p q"
    using next_dash[of p ls io] assms(1) by auto
  have "mod_values_loop io t (Some ''-'', None) [] q = (Inr [], q)" using assms(3) by (subst mod_values_loop.simps) auto
  then show ?thesis using q next_or_end_Inr[OF q(1)] Nil by (simp add: bindP_def)
next
  case (Cons u us)
  then obtain q where q: "next_key_and_value io p = (Inr (Some t, Some u), q)" "logical_at q (map (attribute_line b64 t) us @ ''-'' # ls)"
    "same_but_lines p q" using next_attribute[of p b64 t u "map (attribute_line b64 t) us @ ''-'' # ls" io] assms(1,2) by auto
  from values_loop_read[OF q(2), of io u "[]"] assms(2,3) Cons obtain r where
    "mod_values_loop io t (Some t, Some u) [] q = (Inr vs, r)" "logical_at r ls" "same_but_lines q r" by auto
  then show ?thesis using next_or_end_Inr[OF q(1)] same_trans[OF q(3)] by (auto simp: bindP_def)
qed

lemma modification_read:
  assumes "logical_at p (mod_body b64 m @ ls)" "mod_ok3 b64 m"
  shows "\<exists>q. one_modification io (op_text (fst m)) (Some (utf8_encode (fst (snd m)))) p = (Inr (parsed_mod m), q) \<and>
    logical_at q ls \<and> same_but_lines p q"
proof -
  obtain i t vs where m: "m = (i, t, vs)" by (cases m)
  from values_read[of p b64 t "given_values vs" ls io] assms obtain q where
    q: "bindP (next_or_end io) (\<lambda>kv. mod_values_loop io t kv []) p = (Inr (given_values vs), q)" "logical_at q ls" "same_but_lines p q"
    by (auto simp: mod_body_def m mod_ok3_def)
  have "MOD_OP_INTEGER (op_text i) = Some i" using assms(2) op_texts by (simp add: mod_ok3_def m)
  then show ?thesis
    using q by (auto simp: one_modification_def m bindP_def liftP_def decoded_def returnP_def parsed_mod_def split: prod.splits sum.splits)
qed

lemma modifications_read:
  assumes "logical_at p (tl (concat (map (mod_lines3 b64) (m # ms))) @ [] # ls)" "\<forall>x \<in> set (m # ms). mod_ok3 b64 x"
  shows "\<exists>q. mod_ops_loop io (Some (op_text (fst m)), Some (utf8_encode (fst (snd m)))) acc p =
      (Inr (acc @ map parsed_mod (m # ms)), q) \<and> logical_at q ls \<and> same_but_lines p q"
  using assms
proof (induction ms arbitrary: m p acc)
  case Nil
  have "logical_at p (mod_body b64 m @ [] # ls)" using Nil.prems(1) by (simp add: mod_lines3_def)
  from modification_read[OF this, of io] Nil.prems(2) obtain q where
    q: "one_modification io (op_text (fst m)) (Some (utf8_encode (fst (snd m)))) p = (Inr (parsed_mod m), q)"
    "logical_at q ([] # ls)" "same_but_lines p q" by auto
  from next_blank[OF q(2), of io] obtain r where
    r: "next_key_and_value io q = (Inr (None, None), r)" "logical_at r ls" "same_but_lines q r" by blast
  then have "after_modification io q = (Inr (None, None), r)"
    using next_or_end_Inr[OF r(1)] by (simp add: after_modification_def bindP_def returnP_def)
  then show ?case
    using q(1) r same_trans[OF q(3) r(3)] by (subst mod_ops_loop.simps) (simp add: bindP_def returnP_def)
next
  case (Cons m' ms)
  let ?more = "tl (concat (map (mod_lines3 b64) (m' # ms))) @ [] # ls"
  let ?next = "attribute_line b64 (op_text (fst m')) (utf8_encode (fst (snd m')))"
  have "logical_at p (mod_body b64 m @ ?next # ?more)"
    using Cons.prems(1) by (simp add: mod_lines3_def[of b64 m] mod_lines3_def[of b64 m'])
  from modification_read[OF this, of io] Cons.prems(2) obtain q where
    q: "one_modification io (op_text (fst m)) (Some (utf8_encode (fst (snd m)))) p = (Inr (parsed_mod m), q)"
    "logical_at q (?next # ?more)" "same_but_lines p q" by auto
  have rd: "readable b64 (op_text (fst m'), utf8_encode (fst (snd m')))" "op_text (fst m') \<noteq> ''-''"
    using Cons.prems(2) op_texts[of "fst m'"] by (auto simp: mod_ok3_def case_prod_beta)
  from next_attribute[OF q(2) rd(1), of io] obtain r where
    r: "next_key_and_value io q = (Inr (Some (op_text (fst m')), Some (utf8_encode (fst (snd m')))), r)" "logical_at r ?more" "same_but_lines q r"
    by blast
  then have "after_modification io q = (Inr (Some (op_text (fst m')), Some (utf8_encode (fst (snd m')))), r)"
    using next_or_end_Inr[OF r(1)] rd(2) by (simp add: after_modification_def bindP_def returnP_def)
  then have step: "mod_ops_loop io (Some (op_text (fst m)), Some (utf8_encode (fst (snd m)))) acc p =
      mod_ops_loop io (Some (op_text (fst m')), Some (utf8_encode (fst (snd m')))) (acc @ [parsed_mod m]) r"
    using q(1) by (subst mod_ops_loop.simps) (simp add: bindP_def returnP_def)
  from Cons.IH[OF r(2), of "acc @ [parsed_mod m]"] Cons.prems(2) obtain z where
    "mod_ops_loop io (Some (op_text (fst m')), Some (utf8_encode (fst (snd m')))) (acc @ [parsed_mod m]) r =
      (Inr ((acc @ [parsed_mod m]) @ map parsed_mod (m' # ms)), z)" "logical_at z ls" "same_but_lines r z" by auto
  then show ?case using step same_trans[OF same_trans[OF q(3) r(3)]] by auto
qed

definition change_text_lines :: "string list \<Rightarrow> string \<times> modification3 list \<Rightarrow> string list" where
  "change_text_lines b64 r =
     attribute_line b64 ''dn'' (utf8_encode (fst r)) # attribute_line b64 ''changetype'' (lit ''modify'') #
     concat (map (mod_lines3 b64) (snd r)) @ [[]]"

definition change_ok3 :: "string list \<Rightarrow> string \<times> modification3 list \<Rightarrow> bool" where
  "change_ok3 b64 r \<longleftrightarrow> ldif_is_dn (fst r) \<and> readable b64 (''dn'', utf8_encode (fst r)) \<and> snd r \<noteq> [] \<and>
     (\<forall>m \<in> set (snd r). mod_ok3 b64 m)"

definition parsed_change :: "string \<times> modification3 list \<Rightarrow> string \<times> modop list" where
  "parsed_change r = (fst r, map parsed_mod (snd r))"

definition as_items :: "modification3 list \<Rightarrow> modlist_item list" where
  "as_items ms = map (\<lambda>(i, t, vs). Triple_item i t vs) ms"

lemma readable_changetype: "readable b64 (''changetype'', lit ''modify'')"
  by (simp add: readable_def plain_type_def py_space_def)

lemma produces_mod:
  assumes "2 \<le> c" "mod_ok3 b64 (i, t, vs)"
  shows "produces b64 c (unparse_item True (Triple_item i t vs)) (mod_lines3 b64 (i, t, vs))"
proof -
  have op: "MOD_OP_STR i = Some (op_text i)" "plain_type (op_text i)" "plain_type t" "encode_ascii t = Inr (utf8_encode t)"
    using assms(2) op_texts[of i] by (auto simp: mod_ok3_def encode_ascii_def)
  have vals: "produces b64 c (values_of_item t vs) (map (attribute_line b64 t) (given_values vs))"
    using produces_each[of "given_values vs" b64 c "unparseAttrTypeandValue t" "\<lambda>v. [attribute_line b64 t v]", OF produces_attribute[OF assms(1) op(3)]]
    by (simp add: values_of_item_def given_values_def)
  have dash: "produces b64 c (\<lambda>w. writeW (''-'' @ line_sep w) w) [''-'']"
    using produces_write[of "''-''" c b64] assms(1) by (simp add: plain_line_text_def)
  have "unparse_item True (Triple_item i t vs) =
      bindW (unparseAttrTypeandValue (op_text i) (utf8_encode t)) (\<lambda>_. bindW (values_of_item t vs) (\<lambda>_ w. writeW (''-'' @ line_sep w) w))"
    using op(1,4) by (simp add: fun_eq_iff bindW_def liftW_def)
  then show ?thesis
    using produces_bind[where f = "\<lambda>_. bindW (values_of_item t vs) (\<lambda>_ w. writeW (''-'' @ line_sep w) w)",
        OF produces_attribute[OF assms(1) op(2), of b64 "utf8_encode t"]
        produces_bind[where f = "\<lambda>_ w. writeW (''-'' @ line_sep w) w", OF vals dash]]
    by (simp add: mod_lines3_def mod_body_def)
qed

lemma produces_change:
  assumes "2 \<le> c" "change_ok3 b64 r"
  shows "produces b64 c (unparse (fst r) (Change_record (as_items (snd r)))) (change_text_lines b64 r)"
proof -
  obtain m ms where ms: "snd r = m # ms" using assms(2) by (cases "snd r") (auto simp: change_ok3_def)
  have items: "produces b64 c (each_W (unparse_item True) (as_items (snd r))) (concat (map (mod_lines3 b64) (snd r)))"
  proof -
    have "produces b64 c (case x of (i, t, vs) \<Rightarrow> unparse_item True (Triple_item i t vs)) (mod_lines3 b64 x)" if "x \<in> set (snd r)" for x
      using produces_mod[OF assms(1), of b64] assms(2) that by (cases x) (auto simp: change_ok3_def simp del: unparse_item.simps)
    from produces_each[of "snd r" b64 c, OF this] have
      "produces b64 c (each_W (\<lambda>(i, t, vs). unparse_item True (Triple_item i t vs)) (snd r)) (concat (map (mod_lines3 b64) (snd r)))" .
    moreover have "each_W (\<lambda>(i, t, vs). unparse_item True (Triple_item i t vs)) xs w = each_W (unparse_item True) (as_items xs) w" for xs w
      by (induction xs arbitrary: w)
        (auto simp: as_items_def bindW_def simp del: unparse_item.simps split: option.split sum.split)
    then have "each_W (\<lambda>(i, t, vs). unparse_item True (Triple_item i t vs)) (snd r) = each_W (unparse_item True) (as_items (snd r))"
      by blast
    ultimately show ?thesis by simp
  qed
  have ty: "plain_type ''dn''" "plain_type ''changetype''" by (simp_all add: plain_type_def)
  have "unparse_record (Change_record (as_items (snd r))) =
      bindW (unparseAttrTypeandValue ''changetype'' (lit ''modify'')) (\<lambda>_. each_W (unparse_item True) (as_items (snd r)))"
    by (simp add: fun_eq_iff unparseChangeRecord_def as_items_def ms case_prod_beta)
  then have body: "produces b64 c (unparse_record (Change_record (as_items (snd r))))
      (attribute_line b64 ''changetype'' (lit ''modify'') # concat (map (mod_lines3 b64) (snd r)))"
    using produces_bind[where f = "\<lambda>_. each_W (unparse_item True) (as_items (snd r))",
        OF produces_attribute[OF assms(1) ty(2), of b64 "lit ''modify''"] items] by simp
  show ?thesis
    unfolding unparse_def change_text_lines_def
    using produces_bind[where f = "\<lambda>_. bindW (unparse_record (Change_record (as_items (snd r)))) (\<lambda>_. end_record)",
        OF produces_attribute[OF assms(1) ty(1), of b64 "utf8_encode (fst r)"]
        produces_bind[where f = "\<lambda>_. end_record", OF body produces_finish[OF assms(1)]]]
    by (simp add: end_record_def)
qed

lemma one_change_read:
  assumes "logical_at p (tl (change_text_lines b64 r) @ ls)" "change_ok3 b64 r"
  shows "\<exists>q. one_change io (Some ''dn'', Some (utf8_encode (fst r))) p =
      bindP (consume_empty_lines io) (\<lambda>kv'. bindP (count_record (Some ''modify'')) (\<lambda>_. returnP kv'))
        (q\<lparr>all_modify_changes := all_modify_changes p @ [parsed_change r]\<rparr>) \<and>
    logical_at q ls \<and> same_but_lines p q"
proof -
  obtain m ms where ms: "snd r = m # ms" using assms(2) by (cases "snd r") (auto simp: change_ok3_def)
  let ?ct = "attribute_line b64 ''changetype'' (lit ''modify'')" and ?op = "attribute_line b64 (op_text (fst m)) (utf8_encode (fst (snd m)))"
    and ?more = "tl (concat (map (mod_lines3 b64) (m # ms))) @ [] # ls"
  have ok: "\<forall>x \<in> set (m # ms). mod_ok3 b64 x" "ldif_is_dn (fst r)" using assms(2) ms by (auto simp: change_ok3_def)
  have "logical_at p (?ct # ?op # ?more)" using assms(1) by (simp add: change_text_lines_def ms mod_lines3_def)
  from next_attribute[OF this readable_changetype, of io] obtain q where
    q: "next_key_and_value io p = (Inr (Some ''changetype'', Some (lit ''modify'')), q)" "logical_at q (?op # ?more)" "same_but_lines p q" by blast
  have rd: "readable b64 (op_text (fst m), utf8_encode (fst (snd m)))" using ok(1) by (auto simp: mod_ok3_def case_prod_beta)
  from next_attribute[OF q(2) rd, of io] obtain s where
    s: "next_key_and_value io q = (Inr (Some (op_text (fst m)), Some (utf8_encode (fst (snd m)))), s)" "logical_at s ?more" "same_but_lines q s" by blast
  from modifications_read[OF s(2) ok(1), of io "[]"] obtain z where
    z: "mod_ops_loop io (Some (op_text (fst m)), Some (utf8_encode (fst (snd m)))) [] s = (Inr (map parsed_mod (m # ms)), z)"
    "logical_at z ls" "same_but_lines s z" by auto
  have c: "read_controls io (Some ''changetype'', Some (lit ''modify'')) q = (Inr (Some ''changetype'', Some (lit ''modify'')), q)"
    by (subst read_controls.simps) simp
  have "utf8_decode (lit ''modify'') = Inr ''modify''" by code_simp
  then have t: "read_changetype io (Some ''changetype'', Some (lit ''modify'')) q =
      (Inr (Some ''modify'', (Some (op_text (fst m)), Some (utf8_encode (fst (snd m))))), s)"
    using s(1) by (simp add: read_changetype_def prog_defs decoded_def valid_changetype_def del: lit_Cons)
  have same: "same_but_lines p z" using same_trans[OF same_trans[OF q(3) s(3)] z(3)] .
  then have "all_modify_changes z = all_modify_changes p"
    by (auto simp: same_but_lines_def dest: arg_cong[of _ _ all_modify_changes])
  then have "one_change io (Some ''dn'', Some (utf8_encode (fst r))) p =
      bindP (consume_empty_lines io) (\<lambda>kv'. bindP (count_record (Some ''modify'')) (\<lambda>_. returnP kv'))
        (z\<lparr>all_modify_changes := all_modify_changes p @ [parsed_change r]\<rparr>)"
    using q(1) c t z(1) ok(2)
    by (simp add: one_change_def record_dn_def bindP_def liftP_def handle_modify_def updateP_def parsed_change_def ms del: lit_Cons)
  then show ?thesis using z(2) same by blast
qed

definition after_changes :: "pyldif \<Rightarrow> (string \<times> modop list) list \<Rightarrow> pyldif \<Rightarrow> bool" where
  "after_changes p rs q \<longleftrightarrow>
     all_modify_changes q = all_modify_changes p @ rs \<and> records_read q = records_read p + int (length rs) \<and> logical_at q [] \<and>
     all_records q = all_records p"

lemma changes_read_lines:
  assumes "logical_at p (tl (concat (map (change_text_lines b64) (r # rs))))" "\<forall>x \<in> set (r # rs). change_ok3 b64 x" "max_entries p = 0"
  shows "\<exists>q. change_records io (Some ''dn'', Some (utf8_encode (fst r))) p = (Inr (), q) \<and>
    after_changes p (map parsed_change (r # rs)) q"
  using assms
proof (induction rs arbitrary: r p)
  case Nil
  have "logical_at p (tl (change_text_lines b64 r) @ [])" using Nil.prems(1) by (simp add: change_text_lines_def)
  from one_change_read[OF this, of io] Nil.prems obtain q where
    q: "one_change io (Some ''dn'', Some (utf8_encode (fst r))) p =
      bindP (consume_empty_lines io) (\<lambda>kv'. bindP (count_record (Some ''modify'')) (\<lambda>_. returnP kv'))
        (q\<lparr>all_modify_changes := all_modify_changes p @ [parsed_change r]\<rparr>)"
    "logical_at q []" "same_but_lines p q" by auto
  let ?q = "q\<lparr>all_modify_changes := all_modify_changes p @ [parsed_change r]\<rparr>"
  have e: "consume_empty_lines io ?q = (Inr (None, None), ?q)" by (rule consume_eof) (simp add: q(2))
  obtain z where z: "one_change io (Some ''dn'', Some (utf8_encode (fst r))) p = (Inr (None, None), z)"
    "all_modify_changes z = all_modify_changes p @ [parsed_change r]" "records_read z = records_read q + 1" "logical_at z []"
    "all_records z = all_records q"
    unfolding q(1) using e q(2) by (auto simp: bindP_def count_record_def updateP_def returnP_def)
  have "change_records io (None, None) z = (Inr (), z)" by (subst change_records.simps) simp
  then have "change_records io (Some ''dn'', Some (utf8_encode (fst r))) p = (Inr (), z)"
    using Nil.prems(3) z(1) by (subst change_records.simps) (simp add: wants_more_def)
  moreover have "records_read q = records_read p \<and> all_records q = all_records p"
    using q(3) by (auto simp: same_but_lines_def dest!: arg_cong[of _ _ "\<lambda>p. (records_read p, all_records p)"])
  ultimately show ?case using z by (auto simp: after_changes_def)
next
  case (Cons r' rs)
  let ?more = "tl (concat (map (change_text_lines b64) (r' # rs)))" and ?dn = "attribute_line b64 ''dn'' (utf8_encode (fst r'))"
  have "logical_at p (tl (change_text_lines b64 r) @ ?dn # ?more)"
    using Cons.prems(1) by (simp add: change_text_lines_def[of b64 r] change_text_lines_def[of b64 r'])
  from one_change_read[OF this, of io] Cons.prems obtain q where
    q: "one_change io (Some ''dn'', Some (utf8_encode (fst r))) p =
      bindP (consume_empty_lines io) (\<lambda>kv'. bindP (count_record (Some ''modify'')) (\<lambda>_. returnP kv'))
        (q\<lparr>all_modify_changes := all_modify_changes p @ [parsed_change r]\<rparr>)"
    "logical_at q (?dn # ?more)" "same_but_lines p q" by auto
  let ?q = "q\<lparr>all_modify_changes := all_modify_changes p @ [parsed_change r]\<rparr>"
  have rd: "readable b64 (''dn'', utf8_encode (fst r'))" using Cons.prems(2) by (simp add: change_ok3_def)
  have "logical_at ?q (?dn # ?more)" using q(2) by simp
  from consume_attribute[OF this rd, of io] obtain z0 where
    z0: "consume_empty_lines io ?q = (Inr (Some ''dn'', Some (utf8_encode (fst r'))), z0)" "logical_at z0 ?more" "same_but_lines ?q z0" by blast
  obtain z where z: "one_change io (Some ''dn'', Some (utf8_encode (fst r))) p = (Inr (Some ''dn'', Some (utf8_encode (fst r'))), z)"
    "all_modify_changes z = all_modify_changes z0" "records_read z = records_read z0 + 1" "logical_at z ?more"
    "max_entries z = max_entries z0" "all_records z = all_records z0"
    unfolding q(1) using z0(1,2) by (auto simp: bindP_def count_record_def updateP_def returnP_def)
  have f: "max_entries z = 0" "all_modify_changes z = all_modify_changes p @ [parsed_change r]" "records_read z = records_read p + 1"
    "all_records z = all_records p"
    using q(3) z0(3) z Cons.prems(3)
    by (auto simp: same_but_lines_def dest!: arg_cong[of _ _ "\<lambda>p. (max_entries p, records_read p, all_modify_changes p, all_records p)"])
  from Cons.IH[OF z(4) _ f(1)] Cons.prems(2) obtain y where
    y: "change_records io (Some ''dn'', Some (utf8_encode (fst r'))) z = (Inr (), y)" "after_changes z (map parsed_change (r' # rs)) y" by auto
  have "change_records io (Some ''dn'', Some (utf8_encode (fst r))) p = (Inr (), y)"
    using Cons.prems(3) z(1) y(1) by (subst change_records.simps) (simp add: wants_more_def)
  then show ?case using y(2) f by (auto simp: after_changes_def)
qed

lemma parse_changes_read:
  assumes "logical_at p (concat (map (change_text_lines b64) rs))" "\<forall>x \<in> set rs. change_ok3 b64 x" "max_entries p = 0"
  shows "\<exists>q. parse_change_records io p = (Inr (), q) \<and> after_changes p (map parsed_change rs) q"
proof (cases rs)
  case Nil
  then have "consume_empty_lines io p = (Inr (None, None), p)" using assms(1) by (simp add: consume_eof)
  moreover have "change_records io (None, None) p = (Inr (), p)" by (subst change_records.simps) simp
  ultimately show ?thesis
    using assms(1) Nil by (auto simp: parse_change_records_def first_key_and_value_def prog_defs after_changes_def)
next
  case (Cons r rs')
  let ?more = "tl (concat (map (change_text_lines b64) (r # rs')))"
  have "logical_at p (attribute_line b64 ''dn'' (utf8_encode (fst r)) # ?more)"
    using assms(1) by (simp add: Cons change_text_lines_def[of b64 r])
  moreover have "readable b64 (''dn'', utf8_encode (fst r))" using assms(2) by (simp add: change_ok3_def Cons)
  ultimately obtain q where q: "consume_empty_lines io p = (Inr (Some ''dn'', Some (utf8_encode (fst r))), q)"
    "logical_at q ?more" "same_but_lines p q" using consume_attribute by blast
  have f: "max_entries q = 0" "all_records q = all_records p" "records_read q = records_read p" "all_modify_changes q = all_modify_changes p"
    using q(3) assms(3)
    by (auto simp: same_but_lines_def dest!: arg_cong[of _ _ "\<lambda>p. (max_entries p, all_records p, records_read p, all_modify_changes p)"])
  from changes_read_lines[OF q(2) _ f(1), of io] assms(2) obtain z where
    "change_records io (Some ''dn'', Some (utf8_encode (fst r))) q = (Inr (), z)" "after_changes q (map parsed_change (r # rs')) z"
    by (auto simp: Cons)
  then show ?thesis
    using q(1) f by (auto simp: parse_change_records_def first_key_and_value_def prog_defs after_changes_def Cons)
qed

lemma changes_written_and_read:
  assumes "2 \<le> c" "\<forall>r \<in> set rs. change_ok3 (map lower attrs) r"
  obtains w where "each_W (\<lambda>r. unparse (fst r) (Change_record (as_items (snd r)))) rs (ldif_writer_init attrs c [CHR 0x0A]) = Some (Inr (), w)"
    "\<And>input io. list_all2 (\<lambda>x l. to_unicode x = Inr l) input (file_lines (output_file w)) \<Longrightarrow>
      \<exists>p q. pyldif_init [] 0 [] input = (Inr (), p) \<and> parse_change_records io p = (Inr (), q) \<and>
        all_modify_changes q = map parsed_change rs \<and> records_read q = int (length rs)"
proof -
  let ?b = "map lower attrs"
  have "produces ?b c (each_W (\<lambda>r. unparse (fst r) (Change_record (as_items (snd r)))) rs) (concat (map (change_text_lines ?b) rs))"
    by (rule produces_each) (use assms produces_change in blast)
  then obtain w Ps where w: "each_W (\<lambda>r. unparse (fst r) (Change_record (as_items (snd r)))) rs (ldif_writer_init attrs c [CHR 0x0A]) = Some (Inr (), w)"
    "output_file w = file_text Ps" "map logical Ps = concat (map (change_text_lines ?b) rs)" "\<forall>P \<in> set Ps. plain_pieces P \<and> fits_columns c P"
    unfolding produces_def by (auto simp: ldif_writer_init_def dest!: spec[of _ "ldif_writer_init attrs c [CHR 0x0A]"])
  have "\<exists>p q. pyldif_init [] 0 [] input = (Inr (), p) \<and> parse_change_records io p = (Inr (), q) \<and>
        all_modify_changes q = map parsed_change rs \<and> records_read q = int (length rs)"
    if given: "list_all2 (\<lambda>x l. to_unicode x = Inr l) input (file_lines (output_file w))" for input io
  proof -
    obtain p where p: "pyldif_init [] 0 [] input = (Inr (), p)" "logical_at p (map logical Ps)" "same_but_lines (pyldif_start [] 0 [] input) p"
      using init_at[of input Ps] given w(2,4) by auto
    have f: "max_entries p = 0" "all_modify_changes p = []" "records_read p = 0"
      using p(3) by (auto simp: same_but_lines_def pyldif_start_def
        dest!: arg_cong[of _ _ "\<lambda>p. (max_entries p, all_modify_changes p, records_read p)"])
    from parse_changes_read[OF p(2)[unfolded w(3)] assms(2) f(1), of io] show ?thesis
      using p(1) f by (auto simp: after_changes_def)
  qed
  then show ?thesis using that w(1) by blast
qed

text \<open>A value that begins with a tab is written as it is, and loses the tab when it is read.\<close>

lemma tab_is_lost:
  "\<not> in_base64 [] ''cn'' [9, 97]"
  "line_parts io schemes (attribute_line [] ''cn'' [9, 97]) = Inr (Some ''cn'', Some [97])"
proof -
  show b: "\<not> in_base64 [] ''cn'' [9, 97]" by (simp add: in_base64_def unsafe_value_def)
  have "ascii_text [9, 97] = [CHR 0x09, CHR ''a'']" by code_simp
  with b have "attribute_line [] ''cn'' [9, 97] = ''cn: '' @ [CHR 0x09, CHR ''a'']"
    by (simp add: attribute_line_def)
  then show "line_parts io schemes (attribute_line [] ''cn'' [9, 97]) = Inr (Some ''cn'', Some [97])"
    by (simp add: line_parts_def line_value_def py_space_def utf8_char_def)
qed

end
