(* ===== verification/Spec2Isabelle.thy ===== *)
theory Spec2Isabelle
  imports LdapSize LdifDelta Session NumberAlloc Modlist RemoteSearch FilterEscape
    LdapLdifRoundtrip
begin

text \<open>
  A verification development for anyldap, an LDAP server and client library in Python.

  \<^bold>\<open>The program.\<close> Bytes from a connection reach a receive loop, which cuts them into messages with the
  BER decoder (\<open>protocols/pureber.py\<close>) under the decoder contexts of LDAP (\<open>protocols/pureldap.py\<close>).
  The server hands each request to a handler (\<open>protocols/ldap/ldapserver.py\<close>), which looks names up
  (\<open>distinguishedname.py\<close>) in a tree of entries (\<open>inmemory.py\<close>, \<open>entry.py\<close>, \<open>attributeset.py\<close>),
  matches filters (\<open>entryhelpers.py\<close>), applies modifications (\<open>delta.py\<close>) and answers with encoded
  messages and the result codes of \<open>ldaperrors.py\<close>. Entries and changes have a text form, LDIF
  (\<open>ldif.py\<close>, \<open>ldifprotocol.py\<close>, \<open>ldifdelta.py\<close>), from which a tree can be loaded. On the other side the
  client (\<open>protocols/ldap/ldapclient.py\<close>) numbers its requests and gives each response to the operation
  it belongs to; the entries it hands out (\<open>protocols/ldap/ldapsyntax.py\<close>) note their edits in a journal
  until these are committed. \<open>numberalloc.py\<close> and \<open>ldap/modlist.py\<close> are helpers of programs. The layer \<open>ldap/\<close>
  imitates python-ldap and has texts of its own: names (\<open>ldap/dn.py\<close>), values in filters (\<open>ldap/filter.py\<close>)
  and LDIF (\<open>ldap/ldif.py\<close>).

  \<^bold>\<open>The theories.\<close> Each follows the order of the code it models.
  \<^item> \<open>Prelude\<close>: the exceptions as values of a sum type, loops over lists, byte strings.
    \<open>PyText\<close>: text and bytes, and the conversions of \<open>_encoder.py\<close>; UTF-8 for the characters of
    Isabelle's \<open>char\<close>, that is for the code points below 256.
  \<^item> \<open>Ber\<close>, \<open>BerObj\<close>, \<open>LdapWire\<close>, \<open>LdapDecode\<close>: integers and lengths, headers, the objects of every
    class as one datatype with the classes as enumerations, \<open>toWire\<close>, \<open>fromBER\<close> and the decoder with
    its contexts. The decoder recurses over ever shorter contents, so that it is a total function.
    \<open>LdapRoundtrip\<close> and \<open>LdapSize\<close>: decoding after encoding, and bounds of the size.
  \<^item> \<open>Framing\<close>: the receive loops of server and client as interpretations of one locale of framed
    streams, whose laws are the decoder's: progress, stability under what follows, waiting for parts.
  \<^item> \<open>DistinguishedName\<close>: escaping, parsing, printing, equality and containment.
  \<^item> \<open>Collections\<close>, \<open>AttributeSet\<close>, \<open>Entry\<close>, \<open>Delta\<close>, with \<open>Base64\<close> and \<open>Ldif\<close>: mappings without
    regard to case (a locale, interpreted for both classes), value sets as lists without duplicates,
    entries, their difference, passwords, modifications and their forms.
  \<^item> \<open>LdifProtocol\<close>, \<open>LdifDelta\<close>: the line machine and the states of the two parsers; a locale of line
    machines carries the invariants, with both parsers as interpretations.
  \<^item> \<open>LdapErrors\<close>, \<open>Matching\<close>, \<open>Programs\<close>, \<open>InMemory\<close>, \<open>LdapServer\<close>: result codes; matching and its
    meaning; programs over a state; the tree and its operations; the handlers and their dispatch.
  \<^item> \<open>LdapClient\<close>, \<open>Session\<close>: the client with its table of operations on the wire, its states and
    invariant; a request and its response from one end to the other.
  \<^item> \<open>RemoteEntry\<close>, \<open>RemoteCommit\<close>, \<open>RemoteSearch\<close>: entries held by a client, with the client as a
    parameter; the journal and its invariant, and a locale for what a commit relies on, interpreted
    with the handlers of the server; searches through both receive loops, and defects.
  \<^item> \<open>NumberAlloc\<close>, \<open>Modlist\<close>: the search for a free number, and lists of changes.
  \<^item> \<open>LdapDn\<close>, \<open>FilterEscape\<close>, \<open>LdapLdif\<close>: the texts of the layer \<open>ldap/\<close>, with regular expressions as
    a datatype whose matching tries alternatives in the order of Python's. \<open>LdapLdifLines\<close> and
    \<open>LdapLdifRoundtrip\<close>: folding, and reading what was written.

  \<^bold>\<open>How state corresponds.\<close> A parser object is a record of its attributes. The tree is a datatype whose
  nodes carry an identity; the parent of an object is where it stands, so an object in use is the path
  of keys that leads to it, and objects that leave the tree are kept in \<open>detached\<close>, because the client
  may still be bound as one of them. A handler is a program: a function of the state of the connection
  that gives a result or the exception that escaped, and the state as it is then. Operations that
  can fail half way give the changed state beside the exception. The event loop runs one handler of
  a connection at a time, so that a sequence of messages is a sequence of calls.

  \<^bold>\<open>What is shown.\<close> C1 to C5: the codec, its round trips, bounds and stability. C6: delivery by the
  receive loops for every cutting of the stream. C7 and C8: names. C9 to C12: the LDIF texts and parsers of the
  server. C13 to C15: differences, modifications and passwords. C16 to C20: the tree as a map from names to
  entries, searches and filters. C21 to C23: the answers and effects of requests. C24 to C27: the client. C28: a
  client and a server together. C29 and C30: the helpers. C31 to C35: entries held by a client, their journal,
  commits and searches. C36 to C40: the texts of the layer \<open>ldap/\<close>. Statements that record defects of the
  code are told by their text; more of them stand beside the numbered ones.

  \<^bold>\<open>Parameters.\<close> SHA-1 is a function to twenty bytes; the salt, the parser of filter texts (pyparsing),
  the Samba hashes, the fetching of values by URL and the texts of exceptions that are not LDAP's own are given. No collision property of SHA-1 is assumed.

  \<^bold>\<open>Bounds.\<close> There is no fuel: every loop of the model terminates by a measure, except three that
  are partial functions: the search for a number, which is shown to end (C29), the change of a
  Samba password, which need not (C34), and the folding of lines, which ends exactly when C40 says. Lengths are those of
  \<open>int2berlen\<close>, below \<open>256 ^ 127\<close>; the bound of C2 is computed from the object.

  \<^bold>\<open>Not modelled.\<close> Sockets, TLS and task groups (the runtime); \<open>diffTree\<close> and the tree on disk
  (\<open>ldiftree.py\<close>, file input and output); making connections (\<open>ldapconnector.py\<close>), the proxies, the
  objects and connections of the layer \<open>ldap/\<close> that imitates python-ldap, with its controls, URLs and
  schemas, the schema parser, and the filter parser, which is a grammar for a third-party library. Text is
  limited to code points below 256, and the objects of the runtime that only format or log
  (\<open>__repr__\<close>, \<open>__hash__\<close>) are left out.
\<close>

section \<open>The wire format\<close>

text \<open>
  C1. What the encoder writes for a message with any well-formed operation and any controls, the
  decoder of the server and the client reads back: the same message, its texts as the bytes they
  were sent as, and exactly the bytes of the message used, whatever follows them.
\<close>

theorem message_roundtrip:
  assumes "wf_op v" and "toWire (OMessage t i v controls) = Inr w"
  shows "berDecodeObject berdecoder (w @ rest) =
    Inr (Some (canon_message (OMessage t i v controls)), int (length w))"
  using decodesE_message[OF assms(1)] assms(2)
  by (auto simp: decodesE_def intro: berDecodeObject_decodes)

lemma message_roundtrip_witness:
  "berDecodeObject berdecoder [0x30, 5, 2, 1, 7, 0x42, 0, 1, 2] =
   Inr (Some (OMessage 0x10 7 (ONull LDAPUnbindRequest 0x42) None), 7)"
  using message_roundtrip[of "ONull LDAPUnbindRequest 0x42" "0x10" 7 None "[0x30, 5, 2, 1, 7, 0x42, 0]" "[1, 2]"]
  by (simp add: canon_message_def BERSequence_toWire_def BERInteger_toWire_def BERNull_toWire_def tlv_def
      int2ber_def int2ber_loop.simps int2berlen_small STRUCTURED_def Let_def)

lemmas unbind_wire = BERSequence_toWire_def BERInteger_toWire_def BERNull_toWire_def tlv_def
  int2ber_def int2ber_loop.simps int2berlen_small STRUCTURED_def Let_def

text \<open>
  C2. Every message with a well-formed operation encodes, as long as its size stays below
  \<open>256 ^ 127\<close> bytes; no assertion of an encoder can fail on it.
\<close>

theorem message_encodes:
  assumes "wf_op v" and "wire_size (OMessage t i v controls) < limit"
  shows "\<exists>w. toWire (OMessage t i v controls) = Inr w \<and>
    length w \<le> wire_size (OMessage t i v controls)"
  using fits_message[OF assms] unfolding fits_def .

lemma message_encodes_witness:
  "\<exists>w. toWire (OMessage 0x10 7 (OOctetString LDAPDelRequest 0x4A (Str ''cn=a'')) None) = Inr w \<and>
    length w \<le> 392"
  using message_encodes[of "OOctetString LDAPDelRequest 0x4A (Str ''cn=a'')" "0x10" 7 None]
  by (simp add: limit_def seq_size_def int_size_def text_size_def hdr_def int2ber_def
      int2ber_loop.simps utf8_char_def Let_def del: toWire.simps)

text \<open>
  C3. Search filters of any depth (and, or, not, the comparisons, substrings, presence and
  extensible matches) survive the wire, in every context that knows filters.
\<close>

theorem filter_roundtrip:
  assumes "wf_filter f" and "filter_ctx ctx" and "toWire f = Inr w"
  shows "berDecodeObject ctx (w @ rest) = Inr (Some (canon_filter f), int (length w))"
  using decodesE_filter[OF assms(1,2)] assms(3)
  by (auto simp: decodesE_def intro: berDecodeObject_decodes)

lemma filter_roundtrip_witness:
  "berDecodeObject (Ctx LDAPBERDecoderContext_Filter (Some protocol_ctx) (Some protocol_ctx))
     [0xA2, 3, 0x87, 1, 97] =
   Inr (Some (OFilter_not 0x82 (OOctetString LDAPFilter_present 0x87 (Byt [97]))), 5)"
  using filter_roundtrip[of "OFilter_not 0x82 (OOctetString LDAPFilter_present 0x87 (Str ''a''))"
      "Ctx LDAPBERDecoderContext_Filter (Some protocol_ctx) (Some protocol_ctx)" "[0xA2, 3, 0x87, 1, 97]" "[]"]
  by (simp add: class_simps filter_ctxI BEROctetString_toWire_def tlv_def int2berlen_small
      utf8_char_def)

text \<open>
  Decoding loses nothing a peer could see: the message that was read encodes to the very
  bytes the message that was sent encodes to.
\<close>

theorem decoded_message_reencodes:
  assumes "wf_op v"
  shows "toWire (canon_message (OMessage t i v controls)) = toWire (OMessage t i v controls)"
  by (rule toWire_canon_message[OF assms])

lemma decoded_message_reencodes_witness:
  "toWire (canon_message (OMessage 0x10 7 (OOctetString LDAPDelRequest 0x4A (Str ''cn=a'')) None)) =
   toWire (OMessage 0x10 7 (OOctetString LDAPDelRequest 0x4A (Str ''cn=a'')) None)"
  by (rule decoded_message_reencodes) (simp add: class_simps)

text \<open>
  C4. The two's complement encoding of an integer decodes to it, and no other encoding of the
  same integer is shorter.
\<close>

theorem integer_roundtrip_shortest:
  "ber2int (int2ber i True) True = Inr i \<and>
   \<not> (\<exists>bs. ber2int bs True = Inr i \<and> length bs < length (int2ber i True))"
  using ber2int_int2ber_signed int2ber_shortest_aux by (metis leD)

text \<open>A length field is read back as the length it was written for, wherever it stands.\<close>

theorem length_roundtrip:
  assumes "int2berlen n = Inr ws"
  shows "berDecodeLength (pre @ ws @ rest) (int (length pre)) = Inr (n, int (length ws))"
  by (rule berDecodeLength_int2berlen[OF assms])

lemma length_roundtrip_witness:
  "berDecodeLength [0x30, 0x82, 0x01, 0x00] 1 = Inr (256, 3)"
proof -
  have "drop_bit 8 (256::int) = 1" by (simp add: drop_bit_int_def)
  then have "int2berlen 256 = Inr [0x82, 0x01, 0x00]"
    by (simp add: int2berlen_def int2ber_def int2ber_loop.simps Let_def)
  from length_roundtrip[OF this, of "[0x30]" "[]"] show ?thesis by simp
qed

text \<open>
  C5. The decoder takes at least the two bytes of a header and never more than there are, and an
  answer other than "more data" stands whatever arrives behind it.
\<close>

theorem decoder_progress_stable:
  assumes "berDecodeObject ctx m = r" and "m \<noteq> []"
    and "\<And>d. r \<noteq> Inl (BERExceptionInsufficientData d)"
  shows "berDecodeObject ctx (m @ rest) = r \<and>
    (case r of Inl e \<Rightarrow> True | Inr (x, used) \<Rightarrow> 2 \<le> used \<and> used \<le> int (length m))"
proof (cases r)
  case (Inl e)
  then show ?thesis using assms berDecodeObject_error_append by simp
next
  case (Inr p)
  then show ?thesis using assms berDecodeObject_append berDecodeObject_bounds by (cases p) fastforce
qed

lemma decoder_progress_stable_witness:
  "berDecodeObject ber_ctx [5, 0, 9] = Inr (Some (ONull BERNull 5), 2)"
proof -
  have "berDecodeObject ber_ctx [5, 0] = Inr (Some (ONull BERNull 5), 2)"
    by (simp add: berDecodeObject_def ber_header_def need_ok slice_def ber2int_unsigned ber2int_signed
        berDecodeLength_def decode_body.simps decode_simps ber_ctx_def CLASS_MASK_def TAG_MASK_def)
  from decoder_progress_stable[OF this, of "[9]"] show ?thesis by simp
qed

section \<open>The receive loops\<close>

text \<open>
  C6. However the network cuts a stream of messages into chunks, the server's handler is given
  exactly those messages, in order, each once, until one of its calls raises; if none does, what
  is left in the buffer is the part of a message whose rest has not arrived.
\<close>

theorem server_delivers_any_chunking:
  assumes "list_all2 encodes ms ws" and "concat chunks = concat ws @ part" and "message_part part"
    and "for_each handle (map canon_message ms) s = (e, s')"
  shows "\<exists>b. read_from_stream handle chunks [] s = (e, b, s') \<and> (e = None \<longrightarrow> b = part)"
  using server.reader_frames[OF encodes_frames[OF assms(1)] server_partial[OF assms(3)] server.partial_Nil,
      of chunks handle s] assms(2,4)
  by (cases e) (auto simp: deliver_checked)

lemma unbind_encodes:
  "encodes (OMessage 0x10 7 (ONull LDAPUnbindRequest 0x42) None) [0x30, 5, 2, 1, 7, 0x42, 0]"
  by (simp add: encodes_def unbind_wire)

lemma server_delivers_any_chunking_witness:
  "\<exists>b. read_from_stream (\<lambda>m s. (None, s @ [msg_id m])) [[0x30, 5, 2], [1, 7, 0x42, 0, 0x30], [5]] [] [] =
     (None, b, [7]) \<and> b = [0x30, 5]"
proof -
  have "message_part [0x30, 5]"
    unfolding message_part_def using unbind_encodes
    by (intro disjI2 exI[of _ "OMessage 0x10 7 (ONull LDAPUnbindRequest 0x42) None"]
        exI[of _ "[2, 1, 7, 0x42, 0]"]) simp
  with server_delivers_any_chunking[of "[OMessage 0x10 7 (ONull LDAPUnbindRequest 0x42) None]"
      "[[0x30, 5, 2, 1, 7, 0x42, 0]]" "[[0x30, 5, 2], [1, 7, 0x42, 0, 0x30], [5]]" "[0x30, 5]"
      "\<lambda>m s. (None, s @ [msg_id m])" "[]" None "[7]"] unbind_encodes
  show ?thesis by (simp add: canon_message_def)
qed

text \<open>
  The client's loop makes the same promise to its handler.
\<close>

theorem client_delivers_any_chunking:
  assumes "list_all2 encodes ms ws" and "concat chunks = concat ws @ part" and "message_part part"
    and "for_each handle (map canon_message ms) s = (e, s')"
  shows "\<exists>b. client_read_from_stream handle chunks [] s = (e, b, s') \<and> (e = None \<longrightarrow> b = part)"
  using client.reader_frames[OF encodes_frames[OF assms(1)] client_partial[OF assms(3)] client.partial_Nil,
      of chunks handle s] assms(2,4)
  by (cases e) (auto simp: deliver_checked)

lemma client_delivers_any_chunking_witness:
  "\<exists>b. client_read_from_stream (\<lambda>m s. (Some KeyError, s @ [msg_id m])) [[0x30, 5, 2, 1, 7], [0x42, 0]] [] [] =
     (Some KeyError, b, [7])"
  using client_delivers_any_chunking[of "[OMessage 0x10 7 (ONull LDAPUnbindRequest 0x42) None]"
      "[[0x30, 5, 2, 1, 7, 0x42, 0]]" "[[0x30, 5, 2, 1, 7], [0x42, 0]]" "[]"
      "\<lambda>m s. (Some KeyError, s @ [msg_id m])" "[]" "Some KeyError" "[7]"] unbind_encodes
  by (simp add: canon_message_def message_part_def)

text \<open>
  A message of which a part is missing is never mistaken for anything else: the decoder asks
  for more data.
\<close>

theorem partial_message_waits:
  assumes "encodes m (p @ q)" and "p \<noteq> []" and "q \<noteq> []"
  shows "\<exists>d. berDecodeObject berdecoder p = Inl (BERExceptionInsufficientData d)"
  using ber.partial_frame[OF encodes_frame[OF assms(1)] assms(2,3)] .

lemma partial_message_waits_witness:
  "\<exists>d. berDecodeObject berdecoder [0x30, 5, 2] = Inl (BERExceptionInsufficientData d)"
  using partial_message_waits[of _ "[0x30, 5, 2]" "[1, 7, 0x42, 0]"] unbind_encodes by simp

text \<open>
  What the loops do about a complete object whose inside is cut short (an integer that says
  it has five bytes in a message of two, say): the exception that means "more data" escapes from
  the inside, so that the connection waits for ever. Nothing that arrives later is handled, and
  the buffer grows with it.
\<close>

theorem malformed_message_stalls_server:
  assumes "malformed_inside b"
  shows "read_from_stream handle chunks b s = (None, b @ concat chunks, s)"
  by (rule reader_malformed[OF assms])

lemma malformed_message_stalls_server_witness:
  "read_from_stream (\<lambda>m n. (None, Suc n)) [[0x30, 5, 2, 1, 7, 0x42, 0]] [0x30, 2, 2, 5] 0 =
   (None, [0x30, 2, 2, 5] @ [0x30, 5, 2, 1, 7, 0x42, 0], 0)"
proof -
  have "ber_header [0x30, 2, 2, 5] = Inr (0x10, [2, 5], 4)"
    using ber_header_wire[of "[2, 5]" "[2]" "0x30" "[]"] by (simp add: int2berlen_small)
  moreover have "ber_header [2, 5] = Inl (BERExceptionInsufficientData 5)"
    by (simp add: ber_header_def need_def slice_def ber2int_unsigned ber2int_signed
        berDecodeLength_def CLASS_MASK_def TAG_MASK_def)
  then have "decode_body berdecoder 0x10 [2, 5] = Inl (BERExceptionInsufficientData 5)"
    by (simp add: decode_body.simps fromBER_members berDecodeMultiple.simps[of "[2, 5]"])
  ultimately have "malformed_inside [0x30, 2, 2, 5]" unfolding malformed_inside_def by blast
  from malformed_message_stalls_server[OF this, of _ "[[0x30, 5, 2, 1, 7, 0x42, 0]]"]
  show ?thesis by (simp del: read_from_stream.simps)
qed

text \<open>
  A complete object of a tag the decoder does not know is skipped, but the loop then stops:
  whatever was received behind it stays in the buffer, undelivered until the next chunk comes.
\<close>

theorem unknown_tag_delays_rest:
  assumes "ber_header u = Inr (i, content, int (length u))" and "lookup_id berdecoder i = None"
  shows "data_received_async handle [] (u @ rest) s = (None, rest, s)"
proof -
  have "berDecodeObject berdecoder (u @ rest) = Inr (None, int (length u))"
    using ber_header_append[OF assms(1), of rest] assms(2) ber_header_bounds[OF assms(1)]
    by (auto simp: berDecodeObject_def decode_body.simps)
  then show ?thesis
    by (simp add: data_received_async_def server_loop.simps[of handle "u @ rest"])
qed

lemma unknown_tag_delays_rest_witness:
  "data_received_async (\<lambda>m n. (None, Suc n)) [] [4, 0, 0x30, 5, 2, 1, 7, 0x42, 0] 0 =
   (None, [0x30, 5, 2, 1, 7, 0x42, 0], 0)"
proof -
  have "ber_header [4, 0] = Inr (4, [], int (length [4, 0 :: byte]))"
    using ber_header_wire[of "[]" "[0]" 4 "[]"] by (simp add: int2berlen_small)
  moreover have "lookup_id berdecoder 4 = None" by (simp add: berdecoder_def class_simps)
  ultimately show ?thesis
    using unknown_tag_delays_rest[of "[4, 0]" 4 "[]"] by simp
qed

section \<open>Distinguished names\<close>

text \<open>
  C7. A distinguished name prints to a text that parses back to it, whatever characters its
  values hold (separators, backslashes, control characters, leading and trailing spaces); only an
  attribute type with "=" in it and a single nameless level are excepted.
\<close>

theorem dn_roundtrip:
  assumes "dn_ok d"
  shows "dn_of (Str (dn_text d)) = Inr d"
  using dn_of_text_show[OF assms] by (simp add: dn_of_def)

lemma dn_roundtrip_witness:
  "dn_of (Str (dn_text [[AVA ''cn'' '' a,b+'', AVA ''sn'' ''=''], [], [AVA ''o'' ''x ''] ])) =
     Inr [[AVA ''cn'' '' a,b+'', AVA ''sn'' ''=''], [], [AVA ''o'' ''x ''] ]"
  by (rule dn_roundtrip) (simp add: dn_ok_def ava_ok_def)

text \<open>Unescaping undoes escaping on every text, and what follows is read as it stands.\<close>

theorem unescape_inverts_escape:
  "unescape (escape s @ t) = bindE (unescape t) (\<lambda>r. Inr (s @ r))"
  by (rule unescape_escape_append)

text \<open>
  C8. The containment test says exactly that the other name ends with this one, compared without
  regard to case; so containment is an order of the names up to that equality.
\<close>

theorem contains_is_tree_order:
  "(contains base d \<longleftrightarrow> (\<exists>pre rest. d = pre @ rest \<and> dn_eq base rest)) \<and>
   contains d d \<and>
   (contains a b \<and> contains b a \<longleftrightarrow> dn_eq a b) \<and>
   \<not> (contains a b \<and> contains b c \<and> \<not> contains a c)"
proof (intro conjI)
  show "contains base d \<longleftrightarrow> (\<exists>pre rest. d = pre @ rest \<and> dn_eq base rest)"
    by (simp add: contains_iff dn_under_def)
  show "contains d d" by (simp add: contains_iff)
  show "contains a b \<and> contains b a \<longleftrightarrow> dn_eq a b"
    by (metis contains_def contains_iff dn_eq_sym dn_under_antisym)
  show "\<not> (contains a b \<and> contains b c \<and> \<not> contains a c)"
    by (auto simp: contains_iff intro: dn_under_trans)
qed

text \<open>
  The domain name of a distinguished name is made of the values of its innermost run of
  single "dc" names towards the root, in their order, and is None when there is none.
\<close>

theorem getDomainName_suffix:
  "getDomainName d =
     (let dcs = rev (takeWhile is_dc (rev d)) in
      if dcs = [] then None else Some (join ''.'' (map (\<lambda>r. avalue (hd r)) dcs)))"
  by (simp add: getDomainName_def domain_loop_eq Let_def rev_map)

text \<open>
  An escape with a capital hexadecimal digit first, which is how every code point from A0 on
  is written in RFC 4514 notation by most software, is not decoded: the digit stays as it is.
\<close>

theorem unescape_capital_hex_kept:
  assumes "h \<in> set ''ABCDEF''"
  shows "unescape (backslash # h # t) = bindE (unescape t) (\<lambda>r. Inr (h # r))"
  using assms by (intro unescape_backslash) auto

lemma unescape_capital_hex_kept_witness: "unescape (backslash # ''C4'') = Inr ''C4''"
  using unescape_capital_hex_kept[of "CHR ''C''" "''4''"] by simp

text \<open>
  The order of distinguished names is no order: equality ignores case and "less" does not,
  so that "less" is not transitive, and equal names have different texts (and so hashes).
\<close>

theorem dn_order_broken:
  "(\<exists>a b c. dn_lt a b \<and> dn_lt b c \<and> \<not> dn_lt a c) \<and> (\<exists>a b. dn_eq a b \<and> dn_text a \<noteq> dn_text b)"
proof (intro conjI)
  let ?d = "\<lambda>v. [[AVA ''cn'' v]]"
  have "dn_lt (?d ''A'') (?d ''B'')" "dn_lt (?d ''B'') (?d ''a'')" "\<not> dn_lt (?d ''A'') (?d ''a'')"
    by (simp_all add: dn_lt_def rdn_lt_def rdn_eq_def ava_lt_def ava_eq_def lower_def lower_char_def
        less_char_def char_of_def bit_0)
  then show "\<exists>a b c. dn_lt a b \<and> dn_lt b c \<and> \<not> dn_lt a c" by blast
  have "dn_eq (?d ''A'') (?d ''a'')" "dn_text (?d ''A'') \<noteq> dn_text (?d ''a'')"
    by (simp_all add: dn_eq_def rdn_eq_def ava_eq_def lower_def lower_char_def char_of_def bit_0 dn_text_def rdn_text_def
        ava_text_def escape_def escape_char_def escapedChars_leading_def escapedChars_trailing_def
        escapedChars_def)
  then show "\<exists>a b. dn_eq a b \<and> dn_text a \<noteq> dn_text b" by blast
qed

section \<open>LDIF\<close>

text \<open>
  C9. A file of entries is read as it was printed. What \<open>manyAsLDIF\<close> prints for any names and
  attributes, cut into any pieces, makes the parser hand over exactly those entries, each value
  and each attribute type as the bytes that were printed, and end without complaint. Attribute
  types must be fit to stand before a colon; values may hold any bytes.
\<close>

theorem ldif_entries_roundtrip:
  assumes "\<forall>(d, attrs) \<in> set objs. dn_ok d \<and> printable_attrs attrs"
    and "concat pieces = manyAsLDIF (map (\<lambda>(d, attrs). (Str (dn_text d), attrs)) objs)"
  shows "\<exists>s. foldE LDIF_dataReceived pieces (LDIF_init, []) = Inr (s, []) \<and>
    got s = map (\<lambda>(d, attrs). entry_init d (map (\<lambda>(k, vs). (canon k, map canon vs)) attrs)) objs \<and>
    LDIF_connectionLost s = Inr ()"
proof -
  obtain c cs where p: "pieces = c # cs"
    using assms(2) by (cases pieces) (auto simp: manyAsLDIF_def ldif_header_def)
  have ok: "\<forall>(d, attrs) \<in> set objs. dn_ok d \<and> keys_ok attrs"
    using assms(1) by (auto simp: printable_attrs_def)
  let ?s = "LDIF_init\<lparr>lmode := WAIT_FOR_DN, lversion := Some 1,
    got := map (\<lambda>(d, attrs). entry_init d (data_attributes (read_attrs attrs))) objs\<rparr>"
  have "foldE LDIF_dataReceived pieces (LDIF_init, []) = Inr (?s, [])"
    using dataReceived_chunks[of "lineReceived LDIF_logicalLineReceived" c cs LDIF_init] assms(2) many_read[OF ok]
    unfolding p LDIF_dataReceived_def[abs_def] by simp
  moreover have "got ?s = map (\<lambda>(d, attrs). entry_init d (map (\<lambda>(k, vs). (canon k, map canon vs)) attrs)) objs"
    using assms(1) read_attrs_printable by auto
  moreover have "LDIF_connectionLost ?s = Inr ()" by (simp add: LDIF_connectionLost_def)
  ultimately show ?thesis by blast
qed

lemma ldif_entries_roundtrip_witness:
  "\<exists>s. foldE LDIF_dataReceived
      [manyAsLDIF (map (\<lambda>(d, attrs). (Str (dn_text d), attrs)) [([], [(Str ''cn'', [Byt [0, 10], Str '' a'']) ])])]
      (LDIF_init, []) = Inr (s, []) \<and>
    got s = map (\<lambda>(d, attrs). entry_init d (map (\<lambda>(k, vs). (canon k, map canon vs)) attrs))
      [([], [(Str ''cn'', [Byt [0, 10], Str '' a'']) ])] \<and>
    LDIF_connectionLost s = Inr ()"
proof (rule ldif_entries_roundtrip)
  have "key_ok (to_bytes (Str ''cn''))" by code_simp
  then show "\<forall>(d, attrs) \<in> set [([], [(Str ''cn'', [Byt [0, 10], Str '' a'']) ])]. dn_ok d \<and> printable_attrs attrs"
    by (simp add: dn_ok_def printable_attrs_def keys_ok_def)
qed simp

text \<open>
  C10. Whatever bytes arrive, in whatever pieces, the parser of entries is in one of its three
  states, with a name and attributes exactly while it is inside an entry, and it never fails by one
  of its own assertions, by an attribute it has not set or by a missing key: what it raises says
  something about the input.
\<close>

theorem ldif_parser_invariant:
  "case foldE LDIF_dataReceived pieces (LDIF_init, []) of
     Inr (s, buffer) \<Rightarrow> LDIF_inv s
   | Inl e \<Rightarrow> e \<noteq> AssertionError \<and> e \<noteq> AttributeError \<and> e \<noteq> KeyError"
proof (cases pieces)
  case Nil
  then show ?thesis by (simp add: LDIF_init_inv)
next
  case (Cons c cs)
  then show ?thesis
    using entries.receive_inv[OF LDIF_init_inv, of "c @ concat cs"]
      dataReceived_chunks[of "lineReceived LDIF_logicalLineReceived" c cs LDIF_init]
    unfolding LDIF_dataReceived_def[abs_def] by (auto simp: internal_def split: sum.splits)
qed

text \<open>
  C11. A file of changes is read as it was written: the text of any non-empty list of
  modifications, additions and deletions, cut into any non-empty pieces, is read by
  \<open>fromLDIFFile\<close> as those changes in that order, with names equal, attribute types and values as
  bytes and the values of a modification sorted.
\<close>

theorem changes_roundtrip:
  assumes "\<forall>op \<in> set ops. change_ok op" and "ops \<noteq> []" and "mapE change_asLDIF ops = Inr texts"
    and "concat pieces = concat texts" and "[] \<notin> set pieces"
  shows "delta_fromLDIFFile (pieces @ [[]]) = Inr (map change_read ops)"
proof -
  obtain op ops' t ts where "ops = op # ops'" "texts = t # ts" "change_asLDIF op = Inr t"
    using assms(2,3) by (cases ops) auto
  moreover from this assms(1) have "t \<noteq> []" using change_asLDIF_lines[of op] by auto
  ultimately obtain c cs where p: "pieces = c # cs" using assms(4) by (cases pieces) auto
  let ?s = "LDIFDelta_init\<lparr>lmode := WAIT_FOR_DN, collected := map change_read ops\<rparr>"
  have read: "takeWhile (\<lambda>data. data \<noteq> []) (pieces @ [[]]) = pieces"
    using assms(5) by (induction pieces) auto
  have "foldE LDIFDelta_dataReceived pieces (LDIFDelta_init, []) = Inr (?s, [])"
    using dataReceived_chunks[of "lineReceived LDIFDelta_logicalLineReceived" c cs LDIFDelta_init]
      changes_text_read[OF assms(1-3)] assms(4)
    unfolding p LDIFDelta_dataReceived_def[abs_def] by simp
  then show ?thesis unfolding delta_fromLDIFFile_def read by (simp only:) (simp add: LDIF_connectionLost_def)
qed

lemma changes_roundtrip_witness:
  "delta_fromLDIFFile ([lit ''dn: cn=a'' @ [10] @ lit ''changetype: delete'' @ [10, 10]] @ [[]]) =
   Inr (map change_read [DeleteOp [[AVA ''cn'' ''a'']]])"
proof (rule changes_roundtrip)
  show "mapE change_asLDIF [DeleteOp [[AVA ''cn'' ''a'']]] =
      Inr [lit ''dn: cn=a'' @ [10] @ lit ''changetype: delete'' @ [10, 10]]" by code_simp
qed (simp_all add: dn_ok_def ava_ok_def)

text \<open>
  C12. The parser of changes likewise keeps its invariant on all input: in every state what that
  state reads is set, the modification being collected is one of the three kinds, and no assertion,
  missing attribute or missing key of its own is ever what it raises.
\<close>

theorem changes_parser_invariant:
  "case foldE LDIFDelta_dataReceived pieces (LDIFDelta_init, []) of
     Inr (s, buffer) \<Rightarrow> LDIFDelta_inv s
   | Inl e \<Rightarrow> e \<noteq> AssertionError \<and> e \<noteq> AttributeError \<and> e \<noteq> KeyError"
proof (cases pieces)
  case Nil
  then show ?thesis by (simp add: LDIFDelta_init_inv)
next
  case (Cons c cs)
  then show ?thesis
    using changes.receive_inv[OF LDIFDelta_init_inv, of "c @ concat cs"]
      dataReceived_chunks[of "lineReceived LDIFDelta_logicalLineReceived" c cs LDIFDelta_init]
    unfolding LDIFDelta_dataReceived_def[abs_def] by (auto simp: internal_def split: sum.splits)
qed

section \<open>Entries and their modifications\<close>



text \<open>
  C14. A modification sent as a request arrives as it was: the message decodes to the request
  whose operation \<open>ModifyOp.fromLDAP\<close> reads as the same name and the same modifications, with
  attribute types and values as the bytes that were sent.
\<close>

theorem modify_over_the_wire:
  assumes "dn_ok (mop_dn op)" and "toWire (OMessage t i (modify_asLDAP op) None) = Inr w"
  shows "\<exists>v. berDecodeObject berdecoder (w @ rest) = Inr (Some (OMessage 0x10 i v None), int (length w)) \<and>
    modify_fromLDAP v = Inr \<lparr>mop_dn = mop_dn op, modifications = map canon_mod (modifications op)\<rparr>"
proof -
  have "berDecodeObject berdecoder (w @ rest) =
      Inr (Some (canon_message (OMessage t i (modify_asLDAP op) None)), int (length w))"
    using decodesE_message[OF wf_op_modify, of t i op None] assms(2)
    by (auto simp: decodesE_def intro: berDecodeObject_decodes)
  then show ?thesis using modify_fromLDAP_canon[OF assms(1)] by (simp add: canon_message_def)
qed

lemma modify_over_the_wire_witness:
  "\<exists>v. berDecodeObject berdecoder ([48, 12, 2, 1, 5, 102, 7, 4, 3, 111, 61, 98, 48, 0] @ [9]) =
      Inr (Some (OMessage 0x10 5 v None), int (length ([48, 12, 2, 1, 5, 102, 7, 4, 3, 111, 61, 98, 48, 0] :: bytes))) \<and>
    modify_fromLDAP v = Inr \<lparr>mop_dn = mop_dn \<lparr>mop_dn = [[AVA ''o'' ''b'']], modifications = []\<rparr>,
      modifications = map canon_mod (modifications \<lparr>mop_dn = [[AVA ''o'' ''b'']], modifications = []\<rparr>)\<rparr>"
proof (rule modify_over_the_wire)
  show "dn_ok (mop_dn \<lparr>mop_dn = [[AVA ''o'' ''b'']], modifications = []\<rparr>)" by (simp add: dn_ok_def ava_ok_def)
  show "toWire (OMessage 0x10 5 (modify_asLDAP \<lparr>mop_dn = [[AVA ''o'' ''b'']], modifications = []\<rparr>) None) =
      Inr [48, 12, 2, 1, 5, 102, 7, 4, 3, 111, 61, 98, 48, 0]"
    by code_simp
qed

text \<open>
  C15. After a password is set, a bind succeeds with exactly the passwords that SHA-1 does not tell
  apart from it under that salt, and is refused with \<open>invalidCredentials\<close> for all others.
\<close>

theorem bind_after_setPassword:
  assumes "\<And>x. length (sha1 x) = 20" and "setPassword sha1 e pw salt = Inr e'"
  shows "entry_bind sha1 e' secret =
    (if sha1 (to_bytes secret @ salt) = sha1 (pw @ salt) then Inr e'
     else Inl (LDAPException LDAP_invalidCredentials None))"
  by (rule bind_setPassword[OF assms])

lemma bind_after_setPassword_witness:
  "entry_bind (\<lambda>x. take 20 (x @ replicate 20 0))
     \<lparr>edn = [], eattrs = [(normalize_key up_byt, up_byt, \<lparr>akey = up_byt,
        avals = [Byt (sshaDigest (\<lambda>x. take 20 (x @ replicate 20 0)) [112] [1])]\<rparr>)]\<rparr> (Byt [113]) =
   Inl (LDAPException LDAP_invalidCredentials None)"
proof -
  let ?sha = "\<lambda>x :: bytes. take 20 (x @ replicate 20 0)" and ?e = "\<lparr>edn = [], eattrs = []\<rparr> :: entry"
  let ?e' = "\<lparr>edn = [], eattrs = [(normalize_key up_byt, up_byt, \<lparr>akey = up_byt, avals = [Byt (sshaDigest ?sha [112] [1])]\<rparr>)]\<rparr>"
  have set: "setPassword ?sha ?e [112] [1] = Inr ?e'"
    unfolding setPassword_def up_byt_def[symmetric]
    by (simp add: up_facts entry_lookup entry_setitem_def id_setitem_def mkAttributeSet_def)
  show ?thesis using bind_after_setPassword[of ?sha ?e "[112]" "[1]" ?e' "Byt [113]"] set by simp
qed

text \<open>
  Both mappings that ignore the case of their keys find a value under every spelling of its
  key, but they differ in the spelling they show: the dictionary of attribute types keeps the first
  one, as both say they do, and the mapping of an entry's attributes takes the last one.
\<close>

theorem spelling_of_keys:
  "(ci_has_key c k \<longrightarrow> ci_iter (ci_setitem c k v) = ci_iter c) \<and>
   (normalize_key a = normalize_key b \<longrightarrow>
      id_getitem (id_setitem m a w) b = Inr w \<and>
      id_keys (id_setitem (id_setitem m a w) b u) = id_keys (id_setitem m b u))"
proof -
  have twice: "dict_set f x (dict_set f y d) = dict_set f x d" for f :: pytext and x y :: "pytext \<times> 'b" and d
    by (induction d) auto
  show ?thesis
    using insensitive.getitem_fold[of a b m w]
    by (auto simp: ci_setitem_spelling id_setitem_def twice)
qed

text \<open>
  Applying a difference may not be enough: where an attribute is gone from the other entry,
  its values are deleted one by one and the attribute stays, empty, so that the result is not
  equal to the other entry and has a difference to it once more.
\<close>

theorem diff_leaves_empty_attribute:
  "\<exists>self other op e' op'. entry_diff self other = Inr (Some op) \<and> modify_patch op self = (None, e') \<and>
     entry_eq e' other = Inr False \<and> entry_diff e' other = Inr (Some op')"
proof -
  let ?self = "entry_init [] [(Str ''cn'', [Str ''x'']), (Str ''sn'', [Str ''a''])]"
  let ?other = "entry_init [] [(Str ''cn'', [Str ''x''])]"
  let ?op = "\<lparr>mop_dn = [], modifications = [Delete (mkAttributeSet (Str ''sn'') [Str ''a''])]\<rparr>"
  let ?e = "entry_setitem ?self (Str ''sn'') []"
  let ?op' = "\<lparr>mop_dn = [], modifications = [Delete (mkAttributeSet (Str ''sn'') [])]\<rparr>"
  have "entry_diff ?self ?other = Inr (Some ?op)" by code_simp
  moreover have "modify_patch ?op ?self = (None, ?e)" by code_simp
  moreover have "entry_eq ?e ?other = Inr False" by code_simp
  moreover have "entry_diff ?e ?other = Inr (Some ?op')" by code_simp
  ultimately show ?thesis by blast
qed

section \<open>The tree of entries\<close>

text \<open>A tree of three entries, on which the properties are tried.\<close>

definition example_tree :: node where
  "example_tree =
     Node 0 (entry_init [[AVA ''o'' ''x'']] [(Str ''objectClass'', [Str ''organization''])])
       [(''ou=p'', Node 1 (entry_init [[AVA ''ou'' ''p''], [AVA ''o'' ''x'']] [(Str ''ou'', [Str ''p''])])
          [(''cn=a'', Node 2 (entry_init [[AVA ''cn'' ''a''], [AVA ''ou'' ''p''], [AVA ''o'' ''x'']]
              [(Str ''cn'', [Str ''a'']), (Str ''userPassword'', [Byt (lit ''pw'')])]) [])])]"

lemma example_tree_ok: "tree_ok example_tree"
proof -
  have "rdn_text [AVA ''ou'' ''p''] = ''ou=p''" "rdn_text [AVA ''cn'' ''a''] = ''cn=a''" by code_simp+
  then show ?thesis by (simp add: example_tree_def entry_init_def)
qed

text \<open>
  C16. Looking up a name finds the entry that bears it, up to case, wherever it stands in a
  well-formed tree; it raises \<open>noSuchObject\<close>, with the name, exactly when there is no such entry.
\<close>

theorem lookup_finds_the_entry:
  assumes "tree_ok root"
  shows "(lookup d root = Inr p \<longleftrightarrow> (\<exists>n. at_path p root = Some n \<and> dn_eq d (edn (nentry n)))) \<and>
    (lookup d root = Inl e \<longleftrightarrow> e = raiseE LDAPNoSuchObject (Some (Str (dn_text d))) \<and>
       \<not> (\<exists>q n. at_path q root = Some n \<and> dn_eq d (edn (nentry n))))"
proof (cases "lookup d root")
  case (Inl exc)
  then show ?thesis using lookup_exact[OF assms, of d] lookup_error[OF Inl] by auto
next
  case (Inr q)
  then show ?thesis using lookup_exact[OF assms, of d] by auto
qed

lemma lookup_finds_the_entry_witness:
  "lookup [[AVA ''CN'' ''A''], [AVA ''ou'' ''P''], [AVA ''o'' ''x'']] example_tree = Inr [''ou=p'', ''cn=a''] \<and>
   lookup [[AVA ''cn'' ''b''], [AVA ''ou'' ''p''], [AVA ''o'' ''x'']] example_tree =
     Inl (raiseE LDAPNoSuchObject (Some (Str ''cn=b,ou=p,o=x'')))"
proof -
  have "lookup [[AVA ''cn'' ''b''], [AVA ''ou'' ''p''], [AVA ''o'' ''x'']] example_tree =
      Inl (raiseE LDAPNoSuchObject (Some (Str ''cn=b,ou=p,o=x'')))" by code_simp
  moreover have "\<exists>n. at_path [''ou=p'', ''cn=a''] example_tree = Some n \<and>
      dn_eq [[AVA ''CN'' ''A''], [AVA ''ou'' ''P''], [AVA ''o'' ''x'']] (edn (nentry n))"
    by (intro exI[of _ "the (at_path [''ou=p'', ''cn=a''] example_tree)"]) code_simp
  ultimately show ?thesis
    using lookup_finds_the_entry[OF example_tree_ok, of _ "[''ou=p'', ''cn=a'']"] by blast
qed




text \<open>
  C18. Deleting takes away the entry found under the name, which has none below it, and nothing
  else; it is not found any more.
\<close>

theorem deleted_entry_is_gone:
  assumes "tree_ok root" and "delete_patch d root = Inr root'"
  shows "\<exists>p n. lookup d root = Inr p \<and> at_path p root = Some n \<and> p \<noteq> [] \<and> nchildren n = [] \<and>
    view root' = (view root)(p := None) \<and> tree_ok root' \<and>
    lookup d root' = Inl (raiseE LDAPNoSuchObject (Some (Str (dn_text d))))"
proof -
  obtain p c where p: "lookup d root = Inr p" "delete_entry p root = Inr (c, root')"
    using assms(2) by (auto simp: delete_patch_def)
  note del = delete_entry_view[OF assms(1) p(2)]
  have "lookup d root' \<noteq> Inr q" for q
    using lookup_view[OF assms(1), of d q] lookup_view[OF del(5), of d q] p(1) del(4) by (auto split: if_splits)
  then have "lookup d root' = Inl (raiseE LDAPNoSuchObject (Some (Str (dn_text d))))"
    using lookup_error by (metis sum.exhaust)
  then show ?thesis using p(1) del by blast
qed

lemma deleted_entry_is_gone_witness:
  "\<exists>root' p. delete_patch [[AVA ''CN'' ''a''], [AVA ''ou'' ''p''], [AVA ''o'' ''x'']] example_tree = Inr root' \<and>
    view root' = (view example_tree)(p := None)"
proof -
  let ?d = "[[AVA ''CN'' ''a''], [AVA ''ou'' ''p''], [AVA ''o'' ''x'']]"
  have "\<exists>root'. delete_patch ?d example_tree = Inr root'"
    by (cases "delete_patch ?d example_tree") (auto, code_simp)
  then obtain root' where "delete_patch ?d example_tree = Inr root'" by blast
  with deleted_entry_is_gone[OF example_tree_ok this] show ?thesis by blast
qed



section \<open>Filters\<close>



text \<open>
  With parts between, a value that is made of the parts in their order always matches; but so
  do values that are not, because the search for a part begins at the part found before and not
  behind it: \<open>cn=*a*a*\<close> matches the value "a".
\<close>

theorem substrings_match_too_much:
  "(text_ok ty \<and> list_all (is_part LDAPFilter_substrings_any) (fst (snd (split_parts subs))) \<and> no_empty_final subs \<and>
      list_ex (\<lambda>x. made_of (split_parts subs) (folded_value x)) (attr_list e ty) \<longrightarrow>
    match e (OFilter_substrings t ty subs) = Inr True) \<and>
   (\<exists>e' ty' subs' x. attr_list e' ty' = [x] \<and> match e' (OFilter_substrings t ty' subs') = Inr True \<and>
      \<not> made_of (split_parts subs') (folded_value x))"
proof
  show "text_ok ty \<and> list_all (is_part LDAPFilter_substrings_any) (fst (snd (split_parts subs))) \<and> no_empty_final subs \<and>
      list_ex (\<lambda>x. made_of (split_parts subs) (folded_value x)) (attr_list e ty) \<longrightarrow>
    match e (OFilter_substrings t ty subs) = Inr True"
  proof
    assume a: "text_ok ty \<and> list_all (is_part LDAPFilter_substrings_any) (fst (snd (split_parts subs))) \<and>
      no_empty_final subs \<and> list_ex (\<lambda>x. made_of (split_parts subs) (folded_value x)) (attr_list e ty)"
    then have "\<exists>x \<in> set (attr_list e ty). passes (split_parts subs) (folded_value x)"
      using made_of_passes unfolding list_ex_iff by blast
    moreover have "match e (OFilter_substrings t ty subs) =
        Inr (\<exists>x \<in> set (attr_list e ty). passes (split_parts subs) (folded_value x))"
      using a unfolding list_all_iff by (intro match_substrings_filter) blast+
    ultimately show "match e (OFilter_substrings t ty subs) = Inr True" by (simp only: simp_thms)
  qed
  let ?e = "\<lparr>edn = [], eattrs = [(Byt [99], Byt [99], \<lparr>akey = Byt [99], avals = [Byt [97]]\<rparr>)]\<rparr>"
    and ?a = "OOctetString LDAPFilter_substrings_any 0x81 (Byt [97])"
  have low: "blower [99] = [99]" "folded_value (Byt [97]) = [97]" by code_simp+
  have l: "attr_list ?e (Byt [99]) = [Byt [97]]" by code_simp
  moreover have "match ?e (OFilter_substrings t (Byt [99]) [?a, ?a]) = Inr True"
    by (subst match_substrings_filter)
      (simp_all add: l low text_ok_def split_parts_def no_empty_final_def is_part_def passes_def starts_with_def)
  moreover have "\<not> made_of (split_parts [?a, ?a]) (folded_value (Byt [97]))"
  proof
    assume "made_of (split_parts [?a, ?a]) (folded_value (Byt [97]))"
    then show False
      by (auto simp: low made_of_def split_parts_def is_part_def append_eq_Cons_conv)
  qed
  ultimately show "\<exists>e' ty' subs' x. attr_list e' ty' = [x] \<and> match e' (OFilter_substrings t ty' subs') = Inr True \<and>
      \<not> made_of (split_parts subs') (folded_value x)" by blast
qed


lemma substrings_match_too_much_witness:
  "match \<lparr>edn = [], eattrs = [(Byt [99], Byt [99], \<lparr>akey = Byt [99], avals = [Byt [97]]\<rparr>)]\<rparr>
     (OFilter_substrings 0 (Byt [99]) [OOctetString LDAPFilter_substrings_initial 0x80 (Byt [97])]) = Inr True"
proof -
  let ?e = "\<lparr>edn = [], eattrs = [(Byt [99], Byt [99], \<lparr>akey = Byt [99], avals = [Byt [97]]\<rparr>)]\<rparr>"
  have "attr_list ?e (Byt [99]) = [Byt [97]]" "folded_value (Byt [97]) = [97]" by code_simp+
  then show ?thesis
    using substrings_match_too_much[of "Byt [99]" "[OOctetString LDAPFilter_substrings_initial 0x80 (Byt [97])]" ?e 0]
    by (simp add: text_ok_def split_parts_def no_empty_final_def is_part_def made_of_def)
qed

section \<open>The server\<close>

text \<open>Surroundings and a state to try the properties on.\<close>

definition example_world :: world where
  "example_world = \<lparr>wsha1 = (\<lambda>x. take 20 (x @ replicate 20 0)), wsalt = [1],
     wparse = (\<lambda>t. Inl OutsideModel), wtext = (\<lambda>e. ''error'')\<rparr>"

definition example_server :: server where
  "example_server = \<lparr>stree = example_tree, detached = [], fresh = 3, boundUser = Some 2, sent = [], closing = False\<rparr>"

text \<open>
  C21. Every request other than unbind is answered under its own identifier: after the entries
  that a search finds comes exactly one response, of the class that belongs to the request. Only a
  response that does not encode is not sent, and then the exception of the encoder escapes.
\<close>

theorem every_request_is_answered:
  assumes "is_request v" and "i \<noteq> 0" and "\<And>k t'. v \<noteq> ONull k t'"
  shows "\<exists>es r. answers v r \<and> list_all is_entry es \<and>
    (case handle_async w (OMessage t i v controls) s of
       (None, s') \<Rightarrow> sent s' = sent s @ map (in_message i) (es @ [r])
     | (Some e, s') \<Rightarrow> sent s' = sent s @ map (in_message i) es \<and> toWire (in_message i r) = Inl e)"
proof (rule handle_message_answers[OF assms(1,2), where w = w and t = t and controls = controls and s = s])
  show "\<forall>k t'. v \<noteq> ONull k t'" using assms(3) by simp
  fix es r
  assume r: "answers v r" "\<forall>e \<in> set es. is_entry e"
    "case handle_async w (OMessage t i v controls) s of
       (None, s') \<Rightarrow> sent s' = sent s @ map (in_message i) (es @ [r])
     | (Some e, s') \<Rightarrow> sent s' = sent s @ map (in_message i) es \<and> toWire (in_message i r) = Inl e"
  have "list_all is_entry es" using r(2) by (simp add: list_all_iff)
  with r(1,3) show ?thesis by (intro exI conjI)
qed

lemma every_request_is_answered_witness:
  "\<exists>es r. answers (OOctetString LDAPDelRequest 0x4A (Byt (lit ''cn=a,ou=p,o=x''))) r \<and> list_all is_entry es \<and>
    (case handle_async example_world (OMessage 0x10 5 (OOctetString LDAPDelRequest 0x4A (Byt (lit ''cn=a,ou=p,o=x''))) None) example_server of
       (None, s') \<Rightarrow> sent s' = sent example_server @ map (in_message 5) (es @ [r])
     | (Some e, s') \<Rightarrow> sent s' = sent example_server @ map (in_message 5) es \<and> toWire (in_message 5 r) = Inl e)"
  by (rule every_request_is_answered) simp_all

text \<open>
  C22. A password is changed only for a client that has bound, and only that of the object it bound
  as: every identity the request names is that object's name. Afterwards that object accepts the new
  password of the request and, as far as SHA-1 tells them apart, no other one, its name is as before,
  every other object is untouched and the client stays bound.
\<close>

theorem password_change_is_confined:
  assumes "\<And>x. length (sha1 x) = 20"
    and "extendedRequest_LDAPPasswordModifyRequest sha1 salt data s = (Inr r, s')"
  shows "\<exists>items i e e' new. seq_data data = Some items \<and> boundUser s = Some i \<and> boundUser s' = Some i \<and>
    object_entry i s = Some e \<and> object_entry i s' = Some e' \<and>
    list_all (\<lambda>x. \<not> is_part LDAPPasswordModifyRequest_userIdentity x \<or> dn_eq_text (edn e) (svalue x)) items \<and>
    list_ex (\<lambda>x. is_part LDAPPasswordModifyRequest_newPasswd x \<and> svalue x = new) items \<and>
    edn e' = edn e \<and>
    (\<forall>secret. entry_bind sha1 e' secret =
       (if sha1 (to_bytes secret @ salt) = sha1 (to_bytes new @ salt) then Inr e'
        else Inl (LDAPException LDAP_invalidCredentials None))) \<and>
    (\<forall>j. object_entry j s' = (if j = i then Some e' else object_entry j s))"
proof -
  obtain items pm i e new e' where c: "seq_data data = Some items"
    "foldE password_item items \<lparr>userIdentity = None, oldPasswd = None, newPasswd = None\<rparr> = Inr pm"
    "boundUser s = Some i" "object_entry i s = Some e"
    "\<forall>u. userIdentity pm = Some u \<longrightarrow> dn_eq_text (edn e) u"
    "newPasswd pm = Some new" "setPassword sha1 e (to_bytes new) salt = Inr e'"
    "s' = s\<lparr>stree := update_object i (\<lambda>_. e') (stree s), detached := map (update_object i (\<lambda>_. e')) (detached s)\<rparr>"
    using password_change[OF assms(2)] by metis
  note u = object_entry_update[OF c(8)]
  have "list_all (\<lambda>x. \<not> is_part LDAPPasswordModifyRequest_userIdentity x \<or> dn_eq_text (edn e) (svalue x)) items"
    using password_items(3)[OF c(2)] c(5) by (auto simp: list_all_iff)
  moreover have "list_ex (\<lambda>x. is_part LDAPPasswordModifyRequest_newPasswd x \<and> svalue x = new) items"
    using password_items(1)[OF c(2,6)] by simp
  moreover have "object_entry j s' = (if j = i then Some e' else object_entry j s)" for j
    using u[of j] c(4) by (cases "object_entry j s") auto
  moreover have "boundUser s' = Some i" using c(3,8) by simp
  ultimately show ?thesis
    using c(1,3,4) setPassword_name[OF c(7)] bind_setPassword[OF assms(1) c(7)] by (auto intro!: exI)
qed


lemma password_change_is_confined_witness:
  "\<exists>r s' e'. extendedRequest_LDAPPasswordModifyRequest (wsha1 example_world) [1]
      (OSequence BERSequence 0x10 [OOctetString LDAPPasswordModifyRequest_newPasswd 0x82 (Byt [113])])
      (example_server\<lparr>stree := Node 2 \<lparr>edn = [], eattrs = []\<rparr> []\<rparr>) = (Inr r, s') \<and>
    object_entry 2 s' = Some e' \<and> entry_bind (wsha1 example_world) e' (Byt [113]) = Inr e'"
proof -
  let ?s = "example_server\<lparr>stree := Node 2 \<lparr>edn = [], eattrs = []\<rparr> []\<rparr>"
    and ?d = "OSequence BERSequence 0x10 [OOctetString LDAPPasswordModifyRequest_newPasswd 0x82 (Byt [113])]"
  have o: "object_entry 2 ?s = Some \<lparr>edn = [], eattrs = []\<rparr>"
    by (simp add: object_entry_def example_server_def)
  have b: "boundUser ?s = Some 2" by (simp add: example_server_def)
  have "\<exists>e'. setPassword (wsha1 example_world) \<lparr>edn = [], eattrs = []\<rparr> [113] [1] = Inr e'"
    unfolding setPassword_def up_byt_def[symmetric]
    by (simp add: up_facts entry_lookup entry_setitem_def id_setitem_def mkAttributeSet_def)
  then obtain e' where e': "setPassword (wsha1 example_world) \<lparr>edn = [], eattrs = []\<rparr> [113] [1] = Inr e'" by blast
  have "\<exists>r s'. extendedRequest_LDAPPasswordModifyRequest (wsha1 example_world) [1] ?d ?s = (Inr r, s')"
    by (simp add: extendedRequest_LDAPPasswordModifyRequest_def prog_defs password_item_def is_part_def o b e')
  then obtain r s' where r: "extendedRequest_LDAPPasswordModifyRequest (wsha1 example_world) [1] ?d ?s = (Inr r, s')"
    by blast
  have "length (wsha1 example_world x) = 20" for x by (simp add: example_world_def)
  from password_change_is_confined[OF this r] r b show ?thesis by (auto simp: is_part_def)
qed

text \<open>
  C23. A bind, an addition or a deletion that fails changes nothing: the client is told, and the
  tree, the objects and the identity of the client (also after a failed bind) are as they were.
\<close>

theorem failed_request_changes_nothing:
  assumes "all_or_nothing v" and "is_request v" and "i \<noteq> 0"
    and "handler w v controls (respond i) s = (Inl e, s1)"
  shows "\<exists>r. answers v r \<and>
    (case handle_async w (OMessage t i v controls) s of
       (None, s') \<Rightarrow> s' = s\<lparr>sent := sent s @ [in_message i r]\<rparr>
     | (Some e', s') \<Rightarrow> s' = s)"
proof (intro exI conjI)
  let ?r = "error_response w v e"
  show "answers v ?r" by (rule answers_error)
  show "case handle_async w (OMessage t i v controls) s of
       (None, s') \<Rightarrow> s' = s\<lparr>sent := sent s @ [in_message i ?r]\<rparr>
     | (Some e', s') \<Rightarrow> s' = s"
    using failed_all_or_nothing[OF assms, of t]
    by (cases "toWire (in_message i ?r)")
      (simp_all add: handle_async_def respond_def Let_def bindP_def liftP_def updateP_def in_message_def)
qed

lemma failed_request_changes_nothing_witness:
  "\<exists>r. answers (OBindRequest 0x60 2 (Byt []) (Simple (Byt [])) False) r \<and>
    (case handle_async example_world (OMessage 0x10 1 (OBindRequest 0x60 2 (Byt []) (Simple (Byt [])) False) None) example_server of
       (None, s') \<Rightarrow> s' = example_server\<lparr>sent := sent example_server @ [in_message 1 r]\<rparr>
     | (Some e', s') \<Rightarrow> s' = example_server)"
proof -
  have "\<exists>e. handler example_world (OBindRequest 0x60 2 (Byt []) (Simple (Byt [])) False) None (respond 1) example_server =
      (Inl e, example_server)"
    by (simp add: some_response_def handle_LDAPBindRequest_def prog_defs)
  then obtain e where "handler example_world (OBindRequest 0x60 2 (Byt []) (Simple (Byt [])) False) None (respond 1) example_server =
      (Inl e, example_server)" by blast
  from failed_request_changes_nothing[OF _ _ _ this] show ?thesis by simp
qed

text \<open>
  Searching and comparing only read: whatever they are asked, and whatever fails, the state
  afterwards differs in nothing but the messages sent.
\<close>

theorem reading_changes_nothing:
  assumes "reading v"
  shows "snd (handle_async w (OMessage t i v controls) s) =
    s\<lparr>sent := sent (snd (handle_async w (OMessage t i v controls) s))\<rparr>"
proof -
  have "only_sent s (snd (handle_message w (OMessage t i v controls) s))"
    using handle_message_reading[OF assms] unfolding keeps_def by blast
  then show ?thesis
    unfolding only_sent_def handle_async_def by (auto split: prod.split sum.split)
qed

lemma reading_changes_nothing_witness:
  "snd (handle_async example_world (OMessage 0x10 2 (OSearchRequest 0x63 (Byt []) 2 0 0 0 0 LDAPFilterMatchAll []) None) example_server) =
   example_server\<lparr>sent := sent (snd (handle_async example_world
     (OMessage 0x10 2 (OSearchRequest 0x63 (Byt []) 2 0 0 0 0 LDAPFilterMatchAll []) None) example_server))\<rparr>"
  by (rule reading_changes_nothing) simp

text \<open>
  Moving an entry to a name below its own loses it, with everything under it: no error is
  needed for that, and nothing leads to these entries any more.
\<close>

theorem move_below_itself_loses:
  assumes "tree_ok root" and "p \<noteq> []" and "at_path p root = Some n"
    and "lookup (dn_up newDN) root = Inr (p @ r)"
  shows "view (fst (snd (move p newDN root))) = (\<lambda>q. if is_prefix p q then None else view root q)"
  by (rule move_below[OF assms])

lemma move_below_itself_loses_witness:
  "view (fst (snd (move [''ou=p''] [[AVA ''ou'' ''r''], [AVA ''ou'' ''p''], [AVA ''o'' ''x'']] example_tree))) =
     (\<lambda>q. if is_prefix [''ou=p''] q then None else view example_tree q) \<and>
   fst (move [''ou=p''] [[AVA ''ou'' ''r''], [AVA ''ou'' ''p''], [AVA ''o'' ''x'']] example_tree) = None"
proof
  have "at_path [''ou=p''] example_tree = Some (snd (hd (nchildren example_tree)))" by code_simp
  moreover have "lookup (dn_up [[AVA ''ou'' ''r''], [AVA ''ou'' ''p''], [AVA ''o'' ''x'']]) example_tree = Inr ([''ou=p''] @ [])"
    by code_simp
  ultimately show "view (fst (snd (move [''ou=p''] [[AVA ''ou'' ''r''], [AVA ''ou'' ''p''], [AVA ''o'' ''x'']] example_tree))) =
     (\<lambda>q. if is_prefix [''ou=p''] q then None else view example_tree q)"
    using move_below_itself_loses[OF example_tree_ok] by blast
  show "fst (move [''ou=p''] [[AVA ''ou'' ''r''], [AVA ''ou'' ''p''], [AVA ''o'' ''x'']] example_tree) = None" by code_simp
qed

text \<open>
  A new name for an entry that has entries below it is given to that entry alone: those below
  keep their old names, and are found neither under these nor under the ones they should have.
\<close>

theorem rename_strands_entries_below:
  "\<exists>root newDN root' child. tree_ok root \<and> move [''ou=p''] newDN root = (None, root', []) \<and>
     view root' [''ou=q'', ''cn=a''] = Some child \<and> edn child = [AVA ''cn'' ''a''] # [AVA ''ou'' ''p''] # dn_up newDN \<and>
     lookup (edn child) root' = Inl (raiseE LDAPNoSuchObject (Some (Str ''cn=a,ou=p,o=x''))) \<and>
     lookup ([AVA ''cn'' ''a''] # newDN) root' = Inl (raiseE LDAPNoSuchObject (Some (Str ''cn=a,ou=q,o=x'')))"
proof -
  let ?d = "[[AVA ''ou'' ''q''], [AVA ''o'' ''x'']]"
  let ?t = "fst (snd (move [''ou=p''] ?d example_tree))"
  let ?c = "the (view ?t [''ou=q'', ''cn=a''])"
  have "fst (move [''ou=p''] ?d example_tree) = None" "snd (snd (move [''ou=p''] ?d example_tree)) = []" by code_simp+
  then have "move [''ou=p''] ?d example_tree = (None, ?t, [])" by (simp add: prod_eq_iff)
  moreover have "view ?t [''ou=q'', ''cn=a''] = Some ?c" by code_simp
  moreover have "edn ?c = [AVA ''cn'' ''a''] # [AVA ''ou'' ''p''] # dn_up ?d" by code_simp
  moreover have "lookup (edn ?c) ?t = Inl (raiseE LDAPNoSuchObject (Some (Str ''cn=a,ou=p,o=x'')))" by code_simp
  moreover have "lookup ([AVA ''cn'' ''a''] # ?d) ?t = Inl (raiseE LDAPNoSuchObject (Some (Str ''cn=a,ou=q,o=x'')))" by code_simp
  ultimately show ?thesis using example_tree_ok by blast
qed

text \<open>
  An addition under a name that differs from an existing one in case only is accepted, because
  the children are kept under the texts of their names: the new entry is then never found.
\<close>

theorem case_variant_is_added_and_hidden:
  "\<exists>root e root'. tree_ok root \<and> lookup (edn e) root = Inr [''ou=p''] \<and> add_patch e 9 root = Inr root' \<and>
     view root' [''OU=P''] = Some e \<and> lookup (edn e) root' = Inr [''ou=p'']"
proof -
  let ?e = "entry_init [[AVA ''OU'' ''P''], [AVA ''o'' ''x'']] []"
  let ?t = "projr (add_patch ?e 9 example_tree)"
  have "isl (add_patch ?e 9 example_tree) = False" by code_simp
  then have "add_patch ?e 9 example_tree = Inr ?t" by (cases "add_patch ?e 9 example_tree") simp_all
  moreover have "view ?t [''OU=P''] = Some ?e" by code_simp
  moreover have "lookup (edn ?e) example_tree = Inr [''ou=p'']" "lookup (edn ?e) ?t = Inr [''ou=p'']" by code_simp+
  ultimately show ?thesis using example_tree_ok by blast
qed

text \<open>
  A modify request is not done as a whole: when one of its modifications fails, the client is
  told so and those before it have been made.
\<close>

theorem failed_modify_is_half_done:
  "\<exists>root op exc root'. tree_ok root \<and> modify_tree op root = (Some exc, root') \<and>
     view root' [''ou=p''] \<noteq> view root [''ou=p''] \<and>
     handle_LDAPModifyRequest (modify_asLDAP op) None (example_server\<lparr>stree := root\<rparr>) =
       (Inl exc, example_server\<lparr>stree := root'\<rparr>)"
proof -
  let ?op = "\<lparr>mop_dn = [[AVA ''ou'' ''p''], [AVA ''o'' ''x'']],
    modifications = [Add (mkAttributeSet (Byt [99]) [Byt [97]]), Delete (mkAttributeSet (Byt [99]) [Byt [98]])]\<rparr>"
  obtain exc t where r: "modify_tree ?op example_tree = (exc, t)" by (cases "modify_tree ?op example_tree")
  have "fst (modify_tree ?op example_tree) \<noteq> None" by code_simp
  then obtain x where x: "exc = Some x" using r by auto
  have "view (snd (modify_tree ?op example_tree)) [''ou=p''] \<noteq> view example_tree [''ou=p'']" by code_simp
  then have ch: "view t [''ou=p''] \<noteq> view example_tree [''ou=p'']" unfolding r by simp
  have op: "modify_fromLDAP (modify_asLDAP ?op) = Inr ?op" by code_simp
  have "handle_LDAPModifyRequest (modify_asLDAP ?op) None (example_server\<lparr>stree := example_tree\<rparr>) =
       (Inl x, example_server\<lparr>stree := t\<rparr>)"
    by (simp add: handle_LDAPModifyRequest_def op prog_defs r x)
  then show ?thesis using example_tree_ok r ch unfolding x by blast
qed

section \<open>The client\<close>

text \<open>A client that has sent one request, and a response.\<close>

definition example_client :: "unit client" where
  "example_client = (put 1 False None ((attached_client 1 ())\<lparr>next_id := 2\<rparr>))\<lparr>written := [[0x30, 5, 2, 1, 1, 0x4A, 0]]\<rparr>"

definition example_response :: ber where
  "example_response = ldap_response LDAPDelResponse 0 None None"

lemma example_sent:
  "send_and_wait (OOctetString LDAPDelRequest 0x4A (Byt [])) None False None (attached_client 1 ()) = (Inr 0, example_client)"
proof -
  have "toWire (OMessage (class_tag LDAPMessage) 1 (OOctetString LDAPDelRequest 0x4A (Byt [])) None) = Inr [0x30, 5, 2, 1, 1, 0x4A, 0]"
    by code_simp
  then show ?thesis
    using send_works[OF attached_inv, of 1 "()" "OOctetString LDAPDelRequest 0x4A (Byt [])" None "[0x30, 5, 2, 1, 1, 0x4A, 0]" False None]
    by (simp add: attached_client_def needs_answer_def example_client_def)
qed

lemma example_client_reachable: "reachable example_client"
proof -
  have "perform (Sends (OOctetString LDAPDelRequest 0x4A (Byt [])) None False None) (attached_client 1 ()) = (None, example_client)"
    by (simp add: ran_def example_sent)
  with reachable.attached show ?thesis by (rule reachable.performed)
qed

lemma example_client_slots:
  "slots_of example_client = [None]" "is_connected example_client" "next_id example_client = 2"
  "onwire example_client = [(1, \<lparr>pslot = 0, return_controls = False, phandler = None\<rparr>)]"
  by (simp_all add: example_client_def put_def attached_client_def)

text \<open>
  C24. In every state that a client can get into, the operations on the wire have distinct
  identifiers, all given out before, and the slots without a result are, each once, those of these
  operations; so nobody waits for a slot that nothing will fill, and without a connection nobody waits.
\<close>

theorem client_state_invariant:
  assumes "reachable c"
  shows "distinct (map fst (onwire c)) \<and> list_all (\<lambda>q. fst q < next_id c) (onwire c) \<and>
    distinct (map (pslot \<circ> snd) (onwire c)) \<and>
    set (map (pslot \<circ> snd) (onwire c)) = {k. k < length (slots_of c) \<and> slots_of c ! k = None} \<and>
    (is_connected c \<or> None \<notin> set (slots_of c))"
  using reachable_inv[OF assms] unresolved_connected[OF reachable_inv[OF assms]]
  by (auto simp: client_inv_def waiting_slots_def list_all_iff)

lemma client_state_invariant_witness:
  "set (map (pslot \<circ> snd) (onwire example_client)) =
     {k. k < length (slots_of example_client) \<and> slots_of example_client ! k = None}"
  using client_state_invariant[OF example_client_reachable] by blast

text \<open>
  C25. A response goes to the operation with its identifier and to no other. If the handler of that
  operation takes it for the final one, or there is no handler, the slot of the operation gets it
  and the operation leaves the table; if not, or if the handler raises, all slots and the table stay.
\<close>

theorem response_reaches_its_operation:
  assumes "reachable c" and "map_of (onwire c) i = Some p" and "is_response v" and "i \<noteq> 0"
    and "handle_response (OMessage t i v controls) c = (e, c')"
  shows "slots_of c ! pslot p = None \<and>
    (case verdict p (answer_to p v controls) (app c) of
       (Inr True, s) \<Rightarrow> e = None \<and> app c' = s \<and>
         slots_of c' = (slots_of c)[pslot p := Some (Value (answer_to p v controls))] \<and>
         onwire c' = filter (\<lambda>q. fst q \<noteq> i) (onwire c)
     | (Inr False, s) \<Rightarrow> e = None \<and> app c' = s \<and> slots_of c' = slots_of c \<and> onwire c' = onwire c
     | (Inl x, s) \<Rightarrow> e = Some x \<and> app c' = s \<and> slots_of c' = slots_of c \<and> onwire c' = onwire c)"
  using handle_response_verdict[OF reachable_inv[OF assms(1)] assms(2-4), of t controls] assms(5)
    pending_slot(2)[OF reachable_inv[OF assms(1)] map_of_SomeD[OF assms(2)]]
  by (auto split: prod.splits sum.splits bool.splits)

lemma response_reaches_its_operation_witness:
  "\<exists>c'. handle_response (OMessage 0x10 1 example_response None) example_client = (None, c') \<and>
     slots_of c' = [Some (Value (Response example_response))] \<and> onwire c' = []"
proof -
  obtain e c' where h: "handle_response (OMessage 0x10 1 example_response None) example_client = (e, c')"
    by (cases "handle_response (OMessage 0x10 1 example_response None) example_client")
  have "is_response example_response" by (simp add: example_response_def ldap_response_def)
  from response_reaches_its_operation[OF example_client_reachable _ this _ h]
  show ?thesis using h by (simp add: example_client_slots verdict_def answer_to_def)
qed

text \<open>
  C26. When the connection is lost, whoever waits is told: every slot without a result gets the
  reason, those that have one keep it, and the table is empty.
\<close>

theorem lost_connection_wakes_everyone:
  assumes "reachable c"
  shows "\<exists>c'. connectionLost reason c = (None, c') \<and> onwire c' = [] \<and> \<not> is_connected c' \<and>
    slots_of c' = map (\<lambda>r. case r of None \<Rightarrow> Some (Error reason) | Some x \<Rightarrow> Some x) (slots_of c)"
  using connectionLost_resolves[OF reachable_inv[OF assms], of reason] by (simp add: resolve_all_def)

lemma lost_connection_wakes_everyone_witness:
  "\<exists>c'. connectionLost ConnectionDone example_client = (None, c') \<and> slots_of c' = [Some (Error ConnectionDone)]"
  using lost_connection_wakes_everyone[OF example_client_reachable, of ConnectionDone]
  by (auto simp: example_client_slots)

text \<open>
  C27. A response to an operation that is not on the wire, one that has had its final response for
  instance, ends the reader with \<open>KeyError\<close>: however it is cut, every other operation fails with it.
\<close>

theorem stray_response_fails_everything:
  assumes "reachable c" and "map_of (onwire c) i = None" and "i \<noteq> 0" and "is_response v"
    and "encodes (OMessage t i v controls) w" and "concat chunks = w"
  shows "fst (run_reader chunks c) = Some KeyError \<and> onwire (snd (run_reader chunks c)) = [] \<and>
    slots_of (snd (run_reader chunks c)) =
      map (\<lambda>r. case r of None \<Rightarrow> Some (Error ConnectionDone) | Some x \<Rightarrow> Some x) (slots_of c)"
proof -
  have "handle_response (canon_message (OMessage t i v controls)) c = (Some KeyError, see_upgrade i (canon_op v) c)"
    using assms(2-4) by (simp add: canon_message_def handle_response_def Let_def)
  then have "for_each handle_response (map canon_message [OMessage t i v controls]) c =
      (Some KeyError, see_upgrade i (canon_op v) c)" by simp
  from run_reader_delivers[OF reachable_inv[OF assms(1)] _ _ _ this, of "[w]" chunks "[]"]
  show ?thesis using assms(5,6) by (simp add: message_part_def resolve_all_def)
qed

lemma stray_response_fails_everything_witness:
  "fst (run_reader [[0x30, 12, 2, 1, 7, 0x6B, 7], [10, 1, 0, 4, 0, 4, 0]] example_client) = Some KeyError \<and>
   slots_of (snd (run_reader [[0x30, 12, 2, 1, 7, 0x6B, 7], [10, 1, 0, 4, 0, 4, 0]] example_client)) =
     [Some (Error ConnectionDone)]"
proof -
  have "toWire (OMessage 0x10 7 example_response None) = Inr [0x30, 12, 2, 1, 7, 0x6B, 7, 10, 1, 0, 4, 0, 4, 0]"
    by code_simp
  moreover have "wf_op example_response" "is_response example_response"
    unfolding example_response_def by (simp, simp add: ldap_response_def)
  ultimately show ?thesis
    using stray_response_fails_everything[OF example_client_reachable, of 7 example_response "0x10" None
        "[0x30, 12, 2, 1, 7, 0x6B, 7, 10, 1, 0, 4, 0, 4, 0]" "[[0x30, 12, 2, 1, 7, 0x6B, 7], [10, 1, 0, 4, 0, 4, 0]]"]
    by (simp add: example_client_slots encodes_def)
qed

section \<open>A client and a server\<close>

text \<open>
  C28. A request sent over a working connection to a server, other than a search, an unbind or an
  abandon, comes back as the result its caller waits for: the bytes written decode to the request,
  the server sends one response of its class under its identifier, and these bytes, however they are
  cut, put that response into the caller's slot, with all other operations as they were.
\<close>

theorem request_gets_its_response:
  assumes "reachable c" and "is_connected c" and "has_lock c" and "has_stream c" and "\<not> stream_broken c"
    and "wf_op v" and "is_request v" and "needs_answer v" and "\<not> is_search v" and "next_id c \<noteq> 0"
    and "toWire (OMessage 0x10 (next_id c) v controls) = Inr w"
    and "handle_async env (canon_message (OMessage 0x10 (next_id c) v controls)) s = (None, s')"
  shows "\<exists>c1 r wr. send_and_wait v controls False None c = (Inr (length (slots_of c)), c1) \<and>
    written c1 = written c @ [w] \<and>
    berDecodeObject berdecoder w = Inr (Some (canon_message (OMessage 0x10 (next_id c) v controls)), int (length w)) \<and>
    sent s' = sent s @ [in_message (next_id c) r] \<and> answers (canon_op v) r \<and>
    toWire (in_message (next_id c) r) = Inr wr \<and>
    (\<forall>chunks. concat chunks = wr \<longrightarrow>
       (\<exists>c2. client_read_from_stream handle_response chunks [] c1 = (None, [], c2) \<and>
          slots_of c2 = slots_of c @ [Some (Value (Response (canon_op r)))] \<and> onwire c2 = onwire c))"
proof -
  note inv = reachable_inv[OF assms(1)]
  let ?c1 = "(put (next_id c) False None (c\<lparr>next_id := next_id c + 1\<rparr>))\<lparr>written := written c @ [w]\<rparr>"
  have tag: "class_tag LDAPMessage = 0x10" by (simp add: class_simps)
  have send: "send_and_wait v controls False None c = (Inr (length (slots_of c)), ?c1)"
    using send_works[OF inv assms(2-5,8), of controls w False None] assms(11) unfolding tag by blast
  have nonull: "\<forall>k t. v \<noteq> ONull k t" using assms(7,8) by (auto simp: needs_answer_def)
  obtain r wr where r: "answers (canon_op v) r" "wf_op r" "toWire (in_message (next_id c) r) = Inr wr"
    "sent s' = sent s @ [in_message (next_id c) r]"
    using request_served[OF assms(6,7) nonull assms(9,10,12)] by blast
  have "\<exists>c2. client_read_from_stream handle_response chunks [] ?c1 = (None, [], c2) \<and>
      slots_of c2 = slots_of c @ [Some (Value (Response (canon_op r)))] \<and> onwire c2 = onwire c"
    if "concat chunks = wr" for chunks
    by (rule reply_received[OF inv assms(2) answers_response[OF r(1)] r(2) assms(10) r(3) that refl])
  moreover have "berDecodeObject berdecoder w = Inr (Some (canon_message (OMessage 0x10 (next_id c) v controls)), int (length w))"
    using decodesE_message[OF assms(6)] assms(11) berDecodeObject_decodes[of berdecoder w _ "[]"]
    by (auto simp: decodesE_def)
  moreover have "written ?c1 = written c @ [w]" by (simp add: put_def)
  ultimately show ?thesis using send r(1,3,4) by blast
qed


lemma request_gets_its_response_witness:
  "\<exists>c1 r wr w s'. send_and_wait (OBindRequest 0x40 3 (Byt []) (Simple (Byt [])) False) None False None example_client = (Inr 1, c1) \<and>
    handle_async example_world (canon_message (OMessage 0x10 2 (OBindRequest 0x40 3 (Byt []) (Simple (Byt [])) False) None))
      example_server = (None, s') \<and>
    written c1 = written example_client @ [w] \<and> sent s' = [in_message 2 r] \<and>
    toWire (in_message 2 r) = Inr wr \<and>
    (\<exists>c2. client_read_from_stream handle_response [wr] [] c1 = (None, [], c2) \<and>
       slots_of c2 = [None, Some (Value (Response (canon_op r)))])"
proof -
  let ?v = "OBindRequest 0x40 3 (Byt []) (Simple (Byt [])) False"
  let ?r = "ldap_response LDAPBindResponse 0 None None"
  have w: "toWire (OMessage 0x10 2 ?v None) = Inr [48, 12, 2, 1, 2, 96, 7, 2, 1, 3, 4, 0, 128, 0]" by code_simp
  have wr: "toWire (in_message 2 ?r) = Inr [48, 12, 2, 1, 2, 97, 7, 10, 1, 0, 4, 0, 4, 0]" by code_simp
  have h: "handle_async example_world (canon_message (OMessage 0x10 2 ?v None)) example_server =
      (None, example_server\<lparr>boundUser := None, sent := [in_message 2 ?r]\<rparr>)"
    by (simp add: canon_message_def handle_async_def handle_message_def some_response_def
        handle_LDAPBindRequest_def respond_in_message wr bindP_def catchP_def unlessP_def liftP_def updateP_def
        returnP_def example_server_def del: toWire.simps)
  have "is_connected example_client" "has_lock example_client" "has_stream example_client" "\<not> stream_broken example_client"
    by (simp_all add: example_client_def put_def attached_client_def)
  note conn = this
  have op: "wf_op ?v" "is_request ?v" "needs_answer ?v" "\<not> is_search ?v" by (simp_all add: needs_answer_def wf_auth_def)
  have i: "next_id example_client \<noteq> 0" by (simp add: example_client_slots)
  obtain c1 r wr where x: "send_and_wait ?v None False None example_client = (Inr (length (slots_of example_client)), c1)"
    "written c1 = written example_client @ [[48, 12, 2, 1, 2, 96, 7, 2, 1, 3, 4, 0, 128, 0]]"
    "sent (example_server\<lparr>boundUser := None, sent := [in_message (next_id example_client) ?r]\<rparr>) = sent example_server @ [in_message (next_id example_client) r]"
    "toWire (in_message (next_id example_client) r) = Inr wr"
    "\<forall>chunks. concat chunks = wr \<longrightarrow>
       (\<exists>c2. client_read_from_stream handle_response chunks [] c1 = (None, [], c2) \<and>
          slots_of c2 = slots_of example_client @ [Some (Value (Response (canon_op r)))] \<and> onwire c2 = onwire example_client)"
    using request_gets_its_response[OF example_client_reachable conn op i w[folded example_client_slots(3)]
        h[folded example_client_slots(3)]] by (elim exE conjE) (rule that; assumption)
  have "concat [wr] = wr" by simp
  then obtain c2 where c2: "client_read_from_stream handle_response [wr] [] c1 = (None, [], c2)"
    "slots_of c2 = slots_of example_client @ [Some (Value (Response (canon_op r)))]"
    using x(5) by blast
  show ?thesis
  proof (intro exI conjI)
    show "send_and_wait ?v None False None example_client = (Inr 1, c1)" using x(1) by (simp add: example_client_slots)
    show "handle_async example_world (canon_message (OMessage 0x10 2 ?v None)) example_server =
      (None, example_server\<lparr>boundUser := None, sent := [in_message 2 ?r]\<rparr>)" by (rule h)
    show "sent (example_server\<lparr>boundUser := None, sent := [in_message 2 ?r]\<rparr>) = [in_message 2 r]"
      using x(3) by (simp add: example_client_slots example_server_def)
    show "toWire (in_message 2 r) = Inr wr" using x(4) by (simp only: example_client_slots)
    show "slots_of c2 = [None, Some (Value (Response (canon_op r)))]" using c2(2) by (simp add: example_client_slots)
  qed (rule x(2), rule c2(1))
qed


text \<open>
  C30. Applied to the values of the old entry, the list of \<open>modifyModlist\<close> gives the new entry: every type
  gets the values of the new entry (up to case for the types where case is ignored), types left out of it
  lose theirs unless they are to be kept, and ignored types stay as they are.
\<close>

theorem modlist_leads_to_new:
  assumes "spelled_once old" "spelled_once new"
  shows "if l \<in> lower ` set ign \<or> keep \<and> l \<notin> (lower \<circ> fst) ` set new
     then apply_changes (modifyModlist old new ign keep ci) (values_of old) l = values_of old l
     else agrees (map lower ci) l
       (apply_changes (modifyModlist old new ign keep ci) (values_of old) l) (values_of new l)"
  by (rule modifyModlist_changes[OF assms refl])

lemma modlist_leads_to_new_witness:
  "apply_changes (modifyModlist [(''CN'', OneValue (Str ''a'')), (''sn'', OneValue (Str ''b''))]
     [(''cn'', Values [Some (Str ''c''), None])] [] False []) (values_of [(''CN'', OneValue (Str ''a'')), (''sn'', OneValue (Str ''b''))])
     ''cn'' = {[99]}"
proof -
  have once: "spelled_once [(''CN'', OneValue (Str ''a'')), (''sn'', OneValue (Str ''b''))]"
    "spelled_once [(''cn'', Values [Some (Str ''c''), None])]"
    by code_simp+
  have cn: "values_of [(''cn'', Values [Some (Str ''c''), None])] ''cn'' = {[99]}"
    by code_simp
  show ?thesis
    using modlist_leads_to_new[OF once, of "''cn''" "[]" False "[]"] cn by (simp add: agrees_def)
qed

section \<open>Entries held by a client\<close>












text \<open>
  C35. A commit that raises, whatever the server did, leaves the entry with its journal as it was.
\<close>

theorem commit_error_keeps_edits:
  assumes "commit send (r, s) = (Inl ex, (r', s'))"
  shows "r' = r"
  using assms unfolding commit_def
  by (auto simp: hereP_def thereP_def commit_success_def remote_items_def checkState_def prog_defs split: sum.splits prod.splits if_splits)

lemma commit_error_keeps_edits_witness:
  "\<exists>r'. commit (\<lambda>op. returnP (ldap_response LDAPModifyResponse 32 None None))
      ((remote_init [] [] False)\<lparr>journal_of := [Delete (mkAttributeSet (Str ''sn'') [])]\<rparr>, ()) =
     (Inl (LDAPException 32 (Some (Str []))), (r', ())) \<and> journal_of r' = [Delete (mkAttributeSet (Str ''sn'') [])]"
proof -
  let ?r = "(remote_init [] [] False)\<lparr>journal_of := [Delete (mkAttributeSet (Str ''sn'') [])]\<rparr>"
  have "fst (commit (\<lambda>op. returnP (ldap_response LDAPModifyResponse 32 None None)) (?r, ())) =
      Inl (LDAPException 32 (Some (Str [])))" by code_simp
  moreover obtain x r' where c: "commit (\<lambda>op. returnP (ldap_response LDAPModifyResponse 32 None None)) (?r, ()) = (x, (r', ()))"
    by (metis old.unit.exhaust surj_pair)
  ultimately have "commit (\<lambda>op. returnP (ldap_response LDAPModifyResponse 32 None None)) (?r, ()) =
      (Inl (LDAPException 32 (Some (Str []))), (r', ()))" by simp
  then show ?thesis using commit_error_keeps_edits by force
qed

section \<open>Texts of the python-ldap layer\<close>









text \<open>
  C40. Writing a line returns exactly when the columns are at least two or the line is short enough
  to stand unfolded: \<open>cols\<close> is not checked, and with one column the writer writes for ever.
\<close>

theorem folding_ends:
  "fold_line c sep line \<noteq> None \<longleftrightarrow> 2 \<le> c \<or> int (length line) \<le> c"
  by (rule fold_line_ends)

end
